(* ===== verification/Prelude.thy ===== *)
theory Prelude
  imports Main "HOL-Library.Word"
begin

text \<open>
  Shared vocabulary of the development: the machine types of the Rust sources, the collections
  of rewrite and introduction rules the component theories extend, and generic lemmas on lists,
  options and bytes.
\<close>

unbundle bit_operations_syntax

type_synonym u8 = "8 word"
type_synonym u32 = "32 word"
type_synonym u64 = "64 word"
type_synonym bytes = "u8 list"

named_theorems sim_intros \<open>simulation rules: a parser over any lawful reader follows the list reader\<close>
named_theorems run_simps \<open>evaluation of the reader operations on the list reader\<close>
named_theorems raises_intros \<open>which errors a parser can give\<close>
named_theorems total_intros \<open>parsers that come to an end, and without a panic\<close>

section \<open>Lists\<close>

lemma take_append_drop_length: "n \<le> length xs \<Longrightarrow> length (take n xs) = n"
  by simp

lemma append_eq_take_drop: "xs = ys @ zs \<Longrightarrow> take (length ys) xs = ys \<and> drop (length ys) xs = zs"
  by simp

lemma length_one_conv: "length xs = Suc 0 \<longleftrightarrow> (\<exists>x. xs = [x])"
  by (cases xs) auto

section \<open>Bytes\<close>

lemma u8_unat_lt [simp]: "unat (b :: u8) < 256"
  using unsigned_less [of b, where 'a = nat] by simp

lemma u8_unat_le [simp]: "unat (b :: u8) \<le> 255"
  using u8_unat_lt [of b] by linarith

lemma u8_of_nat_unat [simp]: "n < 256 \<Longrightarrow> unat (of_nat n :: u8) = n"
  by (simp add: unat_of_nat)

lemma u8_eq_iff_unat: "(a :: u8) = b \<longleftrightarrow> unat a = unat b"
  by (simp add: word_unat_eq_iff)

text \<open>Statements about a single byte are decided by listing its 256 values.\<close>

lemma all_u8I:
  assumes "list_all (\<lambda>n. P (of_nat n :: u8)) [0..<256]"
  shows "P b"
proof -
  have "unat b \<in> set [0..<256]" by (simp del: upt_rec_numeral)
  with assms have "P (of_nat (unat b))"
    unfolding list_all_iff by (rule bspec)
  then show ?thesis by simp
qed

text \<open>The octets of decimal digits.\<close>

lemma digit_byte: "(0x30 \<le> b \<and> b \<le> (0x39::u8)) = (\<exists>d<10. b = 0x30 + of_nat d)"
proof
  assume "0x30 \<le> b \<and> b \<le> 0x39"
  then have "48 \<le> unat b" "unat b \<le> 57" by (simp_all add: word_le_nat_alt)
  moreover from this have "b = 0x30 + of_nat (unat b - 48)"
    by (simp add: of_nat_diff)
  ultimately show "\<exists>d<10. b = 0x30 + of_nat d" by (intro exI [of _ "unat b - 48"]) auto
next
  assume "\<exists>d<10. b = 0x30 + of_nat d"
  then obtain d where "d < 10" and b: "b = 0x30 + of_nat d" by blast
  then show "0x30 \<le> b \<and> b \<le> 0x39" by (simp add: word_le_nat_alt unat_word_ariths unat_of_nat)
qed

end
