(* ===== verification/Webpki_Error.thy ===== *)
theory Webpki_Error
  imports Prelude
begin

text \<open>
  The error type of the crate (\<^verbatim>\<open>src/error.rs\<close>) with its ranking, and the result type of every
  fallible function of the model. A Rust panic (a failed \<^verbatim>\<open>assert!\<close>, an index out of bounds, an
  \<^verbatim>\<open>unreachable!()\<close>) is the value \<open>Panic\<close>; a loop whose fuel runs out is \<open>Diverge\<close>.
\<close>

datatype der_type_id =
    TypeId_BitString
  | TypeId_Bool
  | TypeId_Certificate
  | TypeId_CertificateExtensions
  | TypeId_CertificateTbsCertificate
  | TypeId_CertRevocationList
  | TypeId_CertRevocationListExtension
  | TypeId_CrlDistributionPoint
  | TypeId_CommonNameInner
  | TypeId_CommonNameOuter
  | TypeId_DistributionPointName
  | TypeId_Extension
  | TypeId_GeneralName
  | TypeId_RevocationReason
  | TypeId_Signature
  | TypeId_SignatureAlgorithm
  | TypeId_SignedData
  | TypeId_SubjectPublicKeyInfo
  | TypeId_Time
  | TypeId_TrustAnchorV1
  | TypeId_TrustAnchorV1TbsCertificate
  | TypeId_U8
  | TypeId_RevokedCertificate
  | TypeId_RevokedCertificateExtension
  | TypeId_RevokedCertEntry
  | TypeId_IssuingDistributionPoint

datatype error =
    BadDer
  | BadDerTime
  | CaUsedAsEndEntity
  | CertExpired
  | CertNotValidForName
  | CertNotValidYet
  | CertRevoked
  | EndEntityUsedAsCa
  | ExtensionValueInvalid
  | InvalidCertValidity
  | InvalidCrlNumber
  | InvalidNetworkMaskConstraint
  | InvalidSerialNumber
  | InvalidCrlSignatureForPublicKey
  | InvalidSignatureForPublicKey
  | IssuerNotCrlSigner
  | MalformedDnsIdentifier
  | MalformedExtensions
  | MalformedNameConstraint
  | MaximumSignatureChecksExceeded
  | NameConstraintViolation
  | PathLenConstraintViolated
  | RequiredEkuNotFound
  | SignatureAlgorithmMismatch
  | TrailingData der_type_id
  | UnknownIssuer
  | UnknownRevocationStatus
  | UnsupportedCertVersion
  | UnsupportedCriticalExtension
  | UnsupportedCrlIssuingDistributionPoint
  | UnsupportedCrlVersion
  | UnsupportedDeltaCrl
  | UnsupportedIndirectCrl
  | UnsupportedRevocationReason
  | UnsupportedRevocationReasonsPartitioning
  | UnsupportedCrlSignatureAlgorithm
  | UnsupportedSignatureAlgorithm
  | UnsupportedCrlSignatureAlgorithmForPublicKey
  | UnsupportedSignatureAlgorithmForPublicKey

fun rank :: "error \<Rightarrow> u32" where
  "rank CertNotValidYet = 29"
| "rank CertExpired = 29"
| "rank CertNotValidForName = 28"
| "rank CertRevoked = 27"
| "rank UnknownRevocationStatus = 27"
| "rank InvalidCrlSignatureForPublicKey = 26"
| "rank InvalidSignatureForPublicKey = 26"
| "rank SignatureAlgorithmMismatch = 25"
| "rank RequiredEkuNotFound = 24"
| "rank NameConstraintViolation = 23"
| "rank PathLenConstraintViolated = 22"
| "rank CaUsedAsEndEntity = 21"
| "rank EndEntityUsedAsCa = 21"
| "rank IssuerNotCrlSigner = 20"
| "rank InvalidCertValidity = 19"
| "rank InvalidNetworkMaskConstraint = 18"
| "rank InvalidSerialNumber = 17"
| "rank InvalidCrlNumber = 16"
| "rank UnsupportedCrlSignatureAlgorithmForPublicKey = 15"
| "rank UnsupportedSignatureAlgorithmForPublicKey = 15"
| "rank UnsupportedCrlSignatureAlgorithm = 14"
| "rank UnsupportedSignatureAlgorithm = 14"
| "rank UnsupportedCriticalExtension = 13"
| "rank UnsupportedCertVersion = 13"
| "rank UnsupportedCrlVersion = 12"
| "rank UnsupportedDeltaCrl = 11"
| "rank UnsupportedIndirectCrl = 10"
| "rank UnsupportedRevocationReason = 9"
| "rank UnsupportedRevocationReasonsPartitioning = 8"
| "rank UnsupportedCrlIssuingDistributionPoint = 7"
| "rank MalformedDnsIdentifier = 6"
| "rank MalformedNameConstraint = 5"
| "rank MalformedExtensions = 4"
| "rank (TrailingData _) = 4"
| "rank ExtensionValueInvalid = 3"
| "rank BadDerTime = 2"
| "rank BadDer = 1"
| "rank MaximumSignatureChecksExceeded = 0"
| "rank UnknownIssuer = 0"

definition most_specific :: "error \<Rightarrow> error \<Rightarrow> error" where
  "most_specific self new = (if rank self \<ge> rank new then self else new)"

lemma most_specific_assoc:
  "most_specific (most_specific a b) c = most_specific a (most_specific b c)"
  by (auto simp: most_specific_def)

lemma most_specific_idem [simp]: "most_specific a a = a"
  by (simp add: most_specific_def)

lemma rank_most_specific [simp]: "rank (most_specific a b) = max (rank a) (rank b)"
  by (auto simp: most_specific_def max_def)

section \<open>Results\<close>

datatype 'a result = Ok 'a | Err error | Panic | Diverge

fun res_bind :: "'a result \<Rightarrow> ('a \<Rightarrow> 'b result) \<Rightarrow> 'b result" where
  "res_bind (Ok x) f = f x"
| "res_bind (Err e) f = Err e"
| "res_bind Panic f = Panic"
| "res_bind Diverge f = Diverge"

fun res_map_err :: "(error \<Rightarrow> error) \<Rightarrow> 'a result \<Rightarrow> 'a result" where
  "res_map_err f (Ok x) = Ok x"
| "res_map_err f (Err e) = Err (f e)"
| "res_map_err f Panic = Panic"
| "res_map_err f Diverge = Diverge"

text \<open>
  \<open>fine k x\<close>: the computation came to an end, and, with \<open>k\<close>, without a panic.
\<close>

definition fine :: "bool \<Rightarrow> 'a result \<Rightarrow> bool" where
  "fine k x \<longleftrightarrow> x \<noteq> Diverge \<and> (k \<longrightarrow> x \<noteq> Panic)"

lemma fine_simps [simp]:
  "fine k (Ok x)" "fine k (Err e)" "fine k Panic \<longleftrightarrow> \<not> k" "\<not> fine k Diverge"
  by (simp_all add: fine_def)

lemma res_bind_eq_Ok [simp]: "res_bind m f = Ok y \<longleftrightarrow> (\<exists>x. m = Ok x \<and> f x = Ok y)"
  by (cases m) auto

lemma res_map_err_eq_Ok [simp]: "res_map_err f m = Ok y \<longleftrightarrow> m = Ok y"
  by (cases m) auto

lemma res_map_err_fine [simp]: "fine k (res_map_err f m) \<longleftrightarrow> fine k m"
  by (cases m) auto

lemma res_bind_fine:
  "fine k m \<Longrightarrow> (\<And>x. m = Ok x \<Longrightarrow> fine k (f x)) \<Longrightarrow> fine k (res_bind m f)"
  by (cases m) auto

lemma res_bind_cong [fundef_cong]:
  "m = m' \<Longrightarrow> (\<And>x. m' = Ok x \<Longrightarrow> f x = g x) \<Longrightarrow> res_bind m f = res_bind m' g"
  by (cases m') auto

lemma res_bind_rel:
  "rel_result V x y \<Longrightarrow> (\<And>a b. V a b \<Longrightarrow> f a = g b) \<Longrightarrow> res_bind x f = res_bind y g"
  by (cases x; cases y) auto

end
