(* ===== verification/Untrusted.thy ===== *)
theory Untrusted
  imports Webpki_Error "HOL-Library.Sublist"
begin

text \<open>
  The boundary to the crate \<^verbatim>\<open>untrusted\<close>, whose sources are not part of the repository. Its cursor
  type \<^verbatim>\<open>untrusted::Reader\<close> is an abstract type \<open>'r\<close>, and its operations are the fields of a record
  \<open>U\<close> that every parser of the model takes as its first argument. What webpki relies on is the locale
  \<open>untrusted_reader\<close>: \<open>rest r\<close> is what a reader has left, and \<open>later r r'\<close> says that \<open>r'\<close> is \<open>r\<close> after
  some reads. \<^verbatim>\<open>untrusted::Input\<close>, a borrowed byte slice, is its bytes.

  The second half of the theory proves once what makes the rest of the development simple: a parser
  run over any reader with these laws gives the result it gives over the list reader.
\<close>

section \<open>The reader operations, a parameter of the model\<close>

record 'r untrusted =
  u_new :: "bytes \<Rightarrow> 'r"
  u_at_end :: "'r \<Rightarrow> bool"
  u_peek :: "u8 \<Rightarrow> 'r \<Rightarrow> bool"
  u_read_byte :: "'r \<Rightarrow> u8 option \<times> 'r"
  u_read_bytes :: "nat \<Rightarrow> 'r \<Rightarrow> bytes option \<times> 'r"
  u_skip :: "nat \<Rightarrow> 'r \<Rightarrow> unit option \<times> 'r"
  u_skip_to_end :: "'r \<Rightarrow> 'r"
  u_read_bytes_to_end :: "'r \<Rightarrow> bytes \<times> 'r"
  u_between :: "'r \<Rightarrow> 'r \<Rightarrow> bytes"

locale untrusted_reader =
  fixes U :: "'r untrusted"
    and rest :: "'r \<Rightarrow> bytes"
    and later :: "'r \<Rightarrow> 'r \<Rightarrow> bool"
  assumes rest_new: "rest (u_new U bs) = bs"
    and at_end_law: "u_at_end U r = (rest r = [])"
    and peek_law: "u_peek U b r = (rest r \<noteq> [] \<and> hd (rest r) = b)"
    and read_byte_fst: "fst (u_read_byte U r) = (case rest r of [] \<Rightarrow> None | b # _ \<Rightarrow> Some b)"
    and read_byte_snd: "rest (snd (u_read_byte U r)) = tl (rest r)"
    and read_byte_later: "later r (snd (u_read_byte U r))"
    and read_bytes_fst: "fst (u_read_bytes U n r) =
      (if n \<le> length (rest r) then Some (take n (rest r)) else None)"
    and read_bytes_snd: "rest (snd (u_read_bytes U n r)) =
      (if n \<le> length (rest r) then drop n (rest r) else rest r)"
    and read_bytes_later: "later r (snd (u_read_bytes U n r))"
    and skip_fst: "fst (u_skip U n r) = (if n \<le> length (rest r) then Some () else None)"
    and skip_snd: "rest (snd (u_skip U n r)) = (if n \<le> length (rest r) then drop n (rest r) else rest r)"
    and skip_later: "later r (snd (u_skip U n r))"
    and skip_to_end_law: "rest (u_skip_to_end U r) = []"
    and skip_to_end_later: "later r (u_skip_to_end U r)"
    and to_end_fst: "fst (u_read_bytes_to_end U r) = rest r"
    and to_end_snd: "rest (snd (u_read_bytes_to_end U r)) = []"
    and to_end_later: "later r (snd (u_read_bytes_to_end U r))"
    and between_law: "later r r' \<Longrightarrow> rest r = u_between U r r' @ rest r'"
    and later_refl: "later r r"
    and later_trans: "later r r' \<Longrightarrow> later r' r'' \<Longrightarrow> later r r''"

section \<open>Parsers\<close>

type_synonym ('r, 'a) parser = "'r \<Rightarrow> 'a result \<times> 'r"

definition ok :: "'a \<Rightarrow> ('r, 'a) parser" where
  "ok x r = (Ok x, r)"

definition of_result :: "'a result \<Rightarrow> ('r, 'a) parser" where
  "of_result x r = (x, r)"

text \<open>Sequencing with the \<^verbatim>\<open>?\<close> operator: an error, a panic or a divergence ends the caller.\<close>

definition and_then :: "('r, 'a) parser \<Rightarrow> ('a \<Rightarrow> ('r, 'b) parser) \<Rightarrow> ('r, 'b) parser" where
  "and_then p f r =
    (case p r of
       (Ok x, r') \<Rightarrow> f x r'
     | (Err e, r') \<Rightarrow> (Err e, r')
     | (Panic, r') \<Rightarrow> (Panic, r')
     | (Diverge, r') \<Rightarrow> (Diverge, r'))"

definition map_err :: "(error \<Rightarrow> error) \<Rightarrow> ('r, 'a) parser \<Rightarrow> ('r, 'a) parser" where
  "map_err f p r = (case p r of (x, r') \<Rightarrow> (res_map_err f x, r'))"

text \<open>
  \<^verbatim>\<open>EndOfInput\<close> becomes \<^verbatim>\<open>Error::BadDer\<close> under \<^verbatim>\<open>?\<close> (\<^verbatim>\<open>impl From<EndOfInput> for Error\<close>);
  \<open>read_byte_or\<close> is the form \<^verbatim>\<open>read_byte().map_err(|_| e)?\<close>.
\<close>

definition read_byte_or :: "'r untrusted \<Rightarrow> error \<Rightarrow> ('r, u8) parser" where
  "read_byte_or U e r =
    (case u_read_byte U r of (Some b, r') \<Rightarrow> (Ok b, r') | (None, r') \<Rightarrow> (Err e, r'))"

definition read_byte :: "'r untrusted \<Rightarrow> ('r, u8) parser" where
  "read_byte U = read_byte_or U BadDer"

definition try_read_byte :: "'r untrusted \<Rightarrow> ('r, u8 option) parser" where
  "try_read_byte U r = (case u_read_byte U r of (b, r') \<Rightarrow> (Ok b, r'))"

definition read_bytes :: "'r untrusted \<Rightarrow> nat \<Rightarrow> ('r, bytes) parser" where
  "read_bytes U n r =
    (case u_read_bytes U n r of (Some bs, r') \<Rightarrow> (Ok bs, r') | (None, r') \<Rightarrow> (Err BadDer, r'))"

definition try_skip :: "'r untrusted \<Rightarrow> nat \<Rightarrow> ('r, unit option) parser" where
  "try_skip U n r = (case u_skip U n r of (x, r') \<Rightarrow> (Ok x, r'))"

definition skip_to_end :: "'r untrusted \<Rightarrow> ('r, unit) parser" where
  "skip_to_end U r = (Ok (), u_skip_to_end U r)"

definition read_bytes_to_end :: "'r untrusted \<Rightarrow> ('r, bytes) parser" where
  "read_bytes_to_end U r = (case u_read_bytes_to_end U r of (bs, r') \<Rightarrow> (Ok bs, r'))"

definition at_end :: "'r untrusted \<Rightarrow> ('r, bool) parser" where
  "at_end U r = (Ok (u_at_end U r), r)"

definition peek :: "'r untrusted \<Rightarrow> u8 \<Rightarrow> ('r, bool) parser" where
  "peek U b r = (Ok (u_peek U b r), r)"

text \<open>
  \<^verbatim>\<open>Input::read_all\<close>, \<^verbatim>\<open>read_all_optional\<close> and \<^verbatim>\<open>Reader::read_partial\<close> take a closure of any result
  type, which no argument of a HOL definition can; they are the documented use of the operations above:
  run the closure on a reader of the input and insist that it consumed everything, or report the part
  of the input it consumed.
\<close>

definition read_all :: "'r untrusted \<Rightarrow> error \<Rightarrow> ('r, 'a) parser \<Rightarrow> bytes \<Rightarrow> 'a result" where
  "read_all U incomplete_read p input =
    (case p (u_new U input) of
       (Ok x, r) \<Rightarrow> if u_at_end U r then Ok x else Err incomplete_read
     | (Err e, _) \<Rightarrow> Err e
     | (Panic, _) \<Rightarrow> Panic
     | (Diverge, _) \<Rightarrow> Diverge)"

text \<open>
  \<^verbatim>\<open>untrusted::read_all_optional\<close> hands its closure an \<^verbatim>\<open>Option<&mut Reader>\<close>; such a closure takes an
  optional reader and returns it with its result.
\<close>

type_synonym ('r, 'a) optional_parser = "'r option \<Rightarrow> 'a result \<times> 'r option"

definition optional :: "'a result \<Rightarrow> ('r, 'a) parser \<Rightarrow> ('r, 'a) optional_parser" where
  "optional none p input =
    (case input of None \<Rightarrow> (none, None) | Some r \<Rightarrow> (case p r of (x, r') \<Rightarrow> (x, Some r')))"

definition read_all_optional ::
    "'r untrusted \<Rightarrow> error \<Rightarrow> ('r, 'a) optional_parser \<Rightarrow> bytes option \<Rightarrow> 'a result" where
  "read_all_optional U incomplete_read f input =
    (case input of
       None \<Rightarrow> fst (f None)
     | Some bs \<Rightarrow> read_all U incomplete_read (\<lambda>r. case f (Some r) of (x, r') \<Rightarrow> (x, the r')) bs)"

lemma optional_run: "(\<lambda>r. case optional none p (Some r) of (x, r') \<Rightarrow> (x, the r')) = p"
  by (simp add: optional_def fun_eq_iff case_prod_beta)

lemma read_all_optional_run:
  "read_all_optional U e (optional none p) input =
    (case input of None \<Rightarrow> none | Some bs \<Rightarrow> read_all U e p bs)"
  unfolding read_all_optional_def optional_run by (simp add: optional_def split: option.split)

definition read_partial :: "'r untrusted \<Rightarrow> ('r, 'a) parser \<Rightarrow> ('r, bytes \<times> 'a) parser" where
  "read_partial U p r =
    (case p r of
       (Ok x, r') \<Rightarrow> (Ok (u_between U r r', x), r')
     | (Err e, r') \<Rightarrow> (Err e, r')
     | (Panic, r') \<Rightarrow> (Panic, r')
     | (Diverge, r') \<Rightarrow> (Diverge, r'))"

text \<open>
  \<open>attempt p\<close>: the caller looks at the \<^verbatim>\<open>Result\<close> itself instead of using \<^verbatim>\<open>?\<close>, and does not care which error
  it holds. \<open>on_other p s k\<close>: run \<open>p\<close> on a second reader \<open>s\<close>, kept in a local variable.
\<close>

definition attempt :: "('r, 'a) parser \<Rightarrow> ('r, 'a option) parser" where
  "attempt p r =
    (case p r of
       (Ok x, r') \<Rightarrow> (Ok (Some x), r')
     | (Err e, r') \<Rightarrow> (Ok None, r')
     | (Panic, r') \<Rightarrow> (Panic, r')
     | (Diverge, r') \<Rightarrow> (Diverge, r'))"

text \<open>\<open>reify p\<close>: the \<^verbatim>\<open>Result\<close> is kept in a variable and looked at later.\<close>

definition reify :: "('r, 'a) parser \<Rightarrow> ('r, 'a result) parser" where
  "reify p r =
    (case p r of
       (Ok x, r') \<Rightarrow> (Ok (Ok x), r')
     | (Err e, r') \<Rightarrow> (Ok (Err e), r')
     | (Panic, r') \<Rightarrow> (Panic, r')
     | (Diverge, r') \<Rightarrow> (Diverge, r'))"

definition on_other :: "('q, 'a) parser \<Rightarrow> 'q \<Rightarrow> ('a \<Rightarrow> 'q \<Rightarrow> ('r, 'b) parser) \<Rightarrow> ('r, 'b) parser" where
  "on_other p s k =
    (case p s of
       (Ok x, s') \<Rightarrow> k x s'
     | (Err e, s') \<Rightarrow> of_result (Err e)
     | (Panic, s') \<Rightarrow> of_result Panic
     | (Diverge, s') \<Rightarrow> of_result Diverge)"

text \<open>
  Loops over a reader. The body returns \<open>Inl s\<close> to go round again with the loop variables \<open>s\<close> and
  \<open>Inr x\<close> to leave the loop with \<open>x\<close>. The fuel is one more than the number of bytes the reader has
  left on entry: enough for every loop whose body reads at least one byte each time round.
\<close>

fun rd_loop :: "nat \<Rightarrow> ('s \<Rightarrow> ('r, 's + 'b) parser) \<Rightarrow> 's \<Rightarrow> ('r, 'b) parser" where
  "rd_loop 0 body s = of_result Diverge"
| "rd_loop (Suc fuel) body s =
    and_then (body s) (\<lambda>x. case x of Inl s' \<Rightarrow> rd_loop fuel body s' | Inr y \<Rightarrow> ok y)"

definition loop :: "'r untrusted \<Rightarrow> ('s \<Rightarrow> ('r, 's + 'b) parser) \<Rightarrow> 's \<Rightarrow> ('r, 'b) parser" where
  "loop U body s r = rd_loop (Suc (length (fst (u_read_bytes_to_end U r)))) body s r"

section \<open>The list reader\<close>

definition list_reader :: "bytes untrusted" where
  "list_reader = \<lparr>
     u_new = (\<lambda>bs. bs),
     u_at_end = (\<lambda>r. r = []),
     u_peek = (\<lambda>b r. case r of [] \<Rightarrow> False | x # _ \<Rightarrow> x = b),
     u_read_byte = (\<lambda>r. case r of [] \<Rightarrow> (None, []) | b # t \<Rightarrow> (Some b, t)),
     u_read_bytes = (\<lambda>n r. if n \<le> length r then (Some (take n r), drop n r) else (None, r)),
     u_skip = (\<lambda>n r. if n \<le> length r then (Some (), drop n r) else (None, r)),
     u_skip_to_end = (\<lambda>r. []),
     u_read_bytes_to_end = (\<lambda>r. (r, [])),
     u_between = (\<lambda>r r'. take (length r - length r') r) \<rparr>"

abbreviation L :: "bytes untrusted" where
  "L \<equiv> list_reader"

interpretation lr: untrusted_reader list_reader "\<lambda>r. r" "\<lambda>r r'. suffix r' r"
proof unfold_locales
  fix r r' :: bytes
  assume "suffix r' r"
  then show "r = u_between list_reader r r' @ r'"
    by (auto simp: list_reader_def suffix_def)
qed (auto simp: list_reader_def split: list.splits intro: suffix_order.trans suffix_drop suffix_tl suffix_ConsI)

section \<open>Simulation: any lawful reader follows the list reader\<close>

definition sim ::
    "('r \<Rightarrow> bytes) \<Rightarrow> ('r \<Rightarrow> 'r \<Rightarrow> bool) \<Rightarrow> ('a \<Rightarrow> 'b \<Rightarrow> bool) \<Rightarrow>
     ('r, 'a) parser \<Rightarrow> (bytes, 'b) parser \<Rightarrow> bool" where
  "sim rest later V p q \<longleftrightarrow>
    (\<forall>r. rel_result V (fst (p r)) (fst (q (rest r))) \<and>
         rest (snd (p r)) = snd (q (rest r)) \<and> later r (snd (p r)))"

lemma simI:
  assumes "\<And>r. rel_result V (fst (p r)) (fst (q (rest r)))"
    and "\<And>r. rest (snd (p r)) = snd (q (rest r))"
    and "\<And>r. later r (snd (p r))"
  shows "sim rest later V p q"
  using assms by (simp add: sim_def)

lemma simE:
  assumes "sim rest later V p q" and "p r = (x, r')"
  obtains y where "q (rest r) = (y, rest r')" and "rel_result V x y" and "later r r'"
  using assms unfolding sim_def by (metis fst_conv prod.collapse snd_conv)

lemma sim_if [sim_intros]:
  "(b \<Longrightarrow> sim rest later V p q) \<Longrightarrow> (\<not> b \<Longrightarrow> sim rest later V p' q') \<Longrightarrow>
   sim rest later V (if b then p else p') (if b then q else q')"
  by simp

lemma sim_case_prod [sim_intros]:
  "(\<And>a b. sim rest later V (f a b) (g a b)) \<Longrightarrow>
   sim rest later V (case x of (a, b) \<Rightarrow> f a b) (case x of (a, b) \<Rightarrow> g a b)"
  by (cases x) simp

lemma sim_case_option [sim_intros]:
  "sim rest later V p q \<Longrightarrow> (\<And>a. sim rest later V (f a) (g a)) \<Longrightarrow>
   sim rest later V (case x of None \<Rightarrow> p | Some a \<Rightarrow> f a) (case x of None \<Rightarrow> q | Some a \<Rightarrow> g a)"
  by (cases x) simp_all

lemma sim_case_list [sim_intros]:
  "sim rest later V p q \<Longrightarrow> (\<And>a as. sim rest later V (f a as) (g a as)) \<Longrightarrow>
   sim rest later V (case x of [] \<Rightarrow> p | a # as \<Rightarrow> f a as) (case x of [] \<Rightarrow> q | a # as \<Rightarrow> g a as)"
  by (cases x) simp_all

lemma sim_let [sim_intros]:
  "(\<And>x. sim rest later V (f x) (g x)) \<Longrightarrow> sim rest later V (Let x f) (Let x g)"
  by simp

context untrusted_reader
begin

abbreviation follows :: "('r, 'a) parser \<Rightarrow> (bytes, 'a) parser \<Rightarrow> bool" where
  "follows \<equiv> sim rest later (=)"

lemma ok_sim [sim_intros]: "V x y \<Longrightarrow> sim rest later V (ok x) (ok y)"
  by (rule simI) (simp_all add: ok_def later_refl)

lemma of_result_sim: "rel_result V x y \<Longrightarrow> sim rest later V (of_result x) (of_result y)"
  by (rule simI) (simp_all add: of_result_def later_refl)

lemma err_sim [sim_intros]: "sim rest later V (of_result (Err e)) (of_result (Err e))"
  by (rule of_result_sim) simp

lemma panic_sim [sim_intros]: "sim rest later V (of_result Panic) (of_result Panic)"
  by (rule of_result_sim) simp

lemma of_result_follows [sim_intros]: "x = y \<Longrightarrow> follows (of_result x) (of_result y)"
  by (rule of_result_sim) (simp add: result.rel_eq)

lemma and_then_sim:
  assumes p: "sim rest later V p q"
    and f: "\<And>x y. V x y \<Longrightarrow> sim rest later W (f x) (g y)"
  shows "sim rest later W (and_then p f) (and_then q g)"
proof (unfold sim_def, rule allI)
  fix r
  obtain x r1 where pr: "p r = (x, r1)" by force
  with p obtain y where qr: "q (rest r) = (y, rest r1)" and xy: "rel_result V x y" and l: "later r r1"
    by (rule simE)
  show "rel_result W (fst (and_then p f r)) (fst (and_then q g (rest r))) \<and>
        rest (snd (and_then p f r)) = snd (and_then q g (rest r)) \<and> later r (snd (and_then p f r))"
  proof (cases x)
    case (Ok a)
    with xy obtain b where b: "y = Ok b" "V a b" by (cases y) auto
    obtain z r2 where fr: "f a r1 = (z, r2)" by force
    with f [OF b(2)] obtain z' where gr: "g b (rest r1) = (z', rest r2)"
      and zz: "rel_result W z z'" and l2: "later r1 r2"
      by (rule simE)
    from l l2 have "later r r2" by (rule later_trans)
    with Ok b pr qr fr gr zz show ?thesis by (simp add: and_then_def)
  qed (use xy pr qr l in \<open>cases y; simp add: and_then_def\<close>)+
qed

lemma and_then_follows [sim_intros]:
  "follows p q \<Longrightarrow> (\<And>x. sim rest later W (f x) (g x)) \<Longrightarrow> sim rest later W (and_then p f) (and_then q g)"
  by (rule and_then_sim [where V = "(=)"]) auto

lemma map_err_sim [sim_intros]:
  assumes "sim rest later V p q"
  shows "sim rest later V (map_err f p) (map_err f q)"
proof -
  have *: "rel_result V (res_map_err f x) (res_map_err f y)" if "rel_result V x y" for x y
    using that by (cases x; cases y) auto
  show ?thesis
    using assms by (auto simp: sim_def map_err_def case_prod_beta intro: *)
qed

lemma read_byte_or_sim [sim_intros]: "follows (read_byte_or U e) (read_byte_or L e)"
proof (rule simI)
  fix r
  show "rel_result (=) (fst (read_byte_or U e r)) (fst (read_byte_or L e (rest r)))"
    and "rest (snd (read_byte_or U e r)) = snd (read_byte_or L e (rest r))"
    and "later r (snd (read_byte_or U e r))"
    using read_byte_fst [of r] read_byte_snd [of r] read_byte_later [of r]
    by (auto simp: read_byte_or_def list_reader_def result.rel_eq split: prod.splits option.splits list.splits)
qed

lemma read_byte_sim [sim_intros]: "follows (read_byte U) (read_byte L)"
  unfolding read_byte_def by (rule read_byte_or_sim)

lemma try_read_byte_sim [sim_intros]: "follows (try_read_byte U) (try_read_byte L)"
proof (rule simI)
  fix r
  show "rel_result (=) (fst (try_read_byte U r)) (fst (try_read_byte L (rest r)))"
    and "rest (snd (try_read_byte U r)) = snd (try_read_byte L (rest r))"
    and "later r (snd (try_read_byte U r))"
    using read_byte_fst [of r] read_byte_snd [of r] read_byte_later [of r]
    by (auto simp: try_read_byte_def list_reader_def result.rel_eq split: prod.splits option.splits list.splits)
qed

lemma read_bytes_sim [sim_intros]: "follows (read_bytes U n) (read_bytes L n)"
proof (rule simI)
  fix r
  show "rel_result (=) (fst (read_bytes U n r)) (fst (read_bytes L n (rest r)))"
    and "rest (snd (read_bytes U n r)) = snd (read_bytes L n (rest r))"
    and "later r (snd (read_bytes U n r))"
    using read_bytes_fst [of n r] read_bytes_snd [of n r] read_bytes_later [of r n]
    by (auto simp: read_bytes_def list_reader_def result.rel_eq split: prod.splits option.splits if_splits)
qed

lemma try_skip_sim [sim_intros]: "follows (try_skip U n) (try_skip L n)"
proof (rule simI)
  fix r
  show "rel_result (=) (fst (try_skip U n r)) (fst (try_skip L n (rest r)))"
    and "rest (snd (try_skip U n r)) = snd (try_skip L n (rest r))"
    and "later r (snd (try_skip U n r))"
    using skip_fst [of n r] skip_snd [of n r] skip_later [of r n]
    by (auto simp: try_skip_def list_reader_def result.rel_eq split: prod.splits option.splits if_splits)
qed

lemma skip_to_end_sim [sim_intros]: "follows (skip_to_end U) (skip_to_end L)"
  by (rule simI) (simp_all add: skip_to_end_def list_reader_def skip_to_end_law skip_to_end_later)

lemma read_bytes_to_end_sim [sim_intros]: "follows (read_bytes_to_end U) (read_bytes_to_end L)"
proof (rule simI)
  fix r
  show "rel_result (=) (fst (read_bytes_to_end U r)) (fst (read_bytes_to_end L (rest r)))"
    and "rest (snd (read_bytes_to_end U r)) = snd (read_bytes_to_end L (rest r))"
    and "later r (snd (read_bytes_to_end U r))"
    using to_end_fst [of r] to_end_snd [of r] to_end_later [of r]
    by (auto simp: read_bytes_to_end_def list_reader_def result.rel_eq split: prod.splits)
qed

lemma at_end_sim [sim_intros]: "follows (at_end U) (at_end L)"
  by (rule simI) (simp_all add: at_end_def list_reader_def at_end_law later_refl)

lemma peek_sim [sim_intros]: "follows (peek U b) (peek L b)"
  by (rule simI) (auto simp: peek_def list_reader_def peek_law later_refl split: list.splits)

lemma read_all_sim [sim_intros]:
  assumes "follows p q"
  shows "read_all U e p bs = read_all L e q bs"
proof -
  obtain x r where pr: "p (u_new U bs) = (x, r)" by force
  with assms obtain y where "q (rest (u_new U bs)) = (y, rest r)" and "rel_result (=) x y"
    by (rule simE)
  then have "q bs = (x, rest r)" by (simp add: rest_new result.rel_eq)
  with pr show ?thesis
    by (cases x) (simp_all add: read_all_def list_reader_def at_end_law)
qed

lemma read_all_optional_sim [sim_intros]:
  assumes "follows p q"
  shows "read_all_optional U e (optional none p) bs = read_all_optional L e (optional none q) bs"
  by (simp add: read_all_optional_run read_all_sim [OF assms] split: option.split)

lemma read_partial_sim [sim_intros]:
  assumes "follows p q"
  shows "follows (read_partial U p) (read_partial L q)"
proof (unfold sim_def, rule allI)
  fix r
  obtain x r1 where pr: "p r = (x, r1)" by force
  with assms obtain y where qr: "q (rest r) = (y, rest r1)" and xy: "rel_result (=) x y" and l: "later r r1"
    by (rule simE)
  from l have "rest r = u_between U r r1 @ rest r1" by (rule between_law)
  then have "u_between U r r1 = u_between L (rest r) (rest r1)" by (simp add: list_reader_def)
  with pr qr xy l show "rel_result (=) (fst (read_partial U p r)) (fst (read_partial L q (rest r))) \<and>
      rest (snd (read_partial U p r)) = snd (read_partial L q (rest r)) \<and> later r (snd (read_partial U p r))"
    by (cases x) (auto simp: read_partial_def result.rel_eq)
qed

lemma attempt_sim [sim_intros]:
  assumes "follows p q"
  shows "follows (attempt p) (attempt q)"
proof (unfold sim_def, rule allI)
  fix r
  obtain x r1 where pr: "p r = (x, r1)" by force
  with assms obtain y where "q (rest r) = (y, rest r1)" and "rel_result (=) x y" and "later r r1"
    by (rule simE)
  with pr show "rel_result (=) (fst (attempt p r)) (fst (attempt q (rest r))) \<and>
      rest (snd (attempt p r)) = snd (attempt q (rest r)) \<and> later r (snd (attempt p r))"
    by (cases x) (auto simp: attempt_def result.rel_eq)
qed

lemma reify_sim [sim_intros]:
  assumes "follows p q"
  shows "follows (reify p) (reify q)"
proof (unfold sim_def, rule allI)
  fix r
  obtain x r1 where pr: "p r = (x, r1)" by force
  with assms obtain y where "q (rest r) = (y, rest r1)" and "rel_result (=) x y" and "later r r1"
    by (rule simE)
  with pr show "rel_result (=) (fst (reify p r)) (fst (reify q (rest r))) \<and>
      rest (snd (reify p r)) = snd (reify q (rest r)) \<and> later r (snd (reify p r))"
    by (cases x) (auto simp: reify_def result.rel_eq)
qed

lemma on_other_sim:
  assumes "follows p q" and "rest s = t"
    and "\<And>x s'. sim rest later V (k x s') (k' x (rest s'))"
  shows "sim rest later V (on_other p s k) (on_other q t k')"
proof -
  obtain x s' where ps: "p s = (x, s')" by force
  with assms(1) obtain y where "q (rest s) = (y, rest s')" and "rel_result (=) x y"
    by (rule simE)
  then have qt: "q t = (x, rest s')" using assms(2) by (simp add: result.rel_eq)
  show ?thesis
    unfolding on_other_def ps qt using assms(3)
    by (cases x) (auto intro: of_result_sim)
qed

lemma follows_run: "follows p q \<Longrightarrow> p r = (x, r') \<Longrightarrow> q (rest r) = (x, rest r')"
  by (auto simp: result.rel_eq elim!: simE)

lemma follows_iff:
  assumes "follows p q"
  shows "(\<exists>r'. p r = (x, r') \<and> rest r' = bs) \<longleftrightarrow> q (rest r) = (x, bs)"
proof -
  obtain y r1 where p: "p r = (y, r1)" by force
  with assms have "q (rest r) = (y, rest r1)" by (rule follows_run)
  with p show ?thesis by auto
qed

lemma follows_fst: "follows p q \<Longrightarrow> fst (p r) = fst (q (rest r))"
  by (metis follows_run fst_conv prod.collapse)

lemma rd_loop_sim:
  assumes body: "\<And>s t. S s t \<Longrightarrow> sim rest later (rel_sum S V) (body s) (body' t)"
  shows "S s t \<Longrightarrow> sim rest later V (rd_loop n body s) (rd_loop n body' t)"
proof (induction n arbitrary: s t)
  case 0
  show ?case unfolding rd_loop.simps by (rule of_result_sim) simp
next
  case (Suc n)
  show ?case
    unfolding rd_loop.simps
  proof (rule and_then_sim [OF body [OF Suc.prems]])
    fix x y
    assume "rel_sum S V x y"
    then show "sim rest later V (case x of Inl s' \<Rightarrow> rd_loop n body s' | Inr y \<Rightarrow> ok y)
        (case y of Inl s' \<Rightarrow> rd_loop n body' s' | Inr y \<Rightarrow> ok y)"
      by (cases x; cases y) (auto intro: Suc.IH ok_sim)
  qed
qed

lemma loop_sim:
  assumes "\<And>s t. S s t \<Longrightarrow> sim rest later (rel_sum S V) (body s) (body' t)" and "S s t"
  shows "sim rest later V (loop U body s) (loop L body' t)"
proof -
  have *: "sim rest later V (rd_loop n body s) (rd_loop n body' t)" for n
    by (rule rd_loop_sim [where S = S, OF assms])
  then show ?thesis
    unfolding sim_def loop_def
    by (simp add: to_end_fst list_reader_def del: rd_loop.simps)
qed

lemma loop_follows [sim_intros]:
  assumes "\<And>s. follows (body s) (body' s)"
  shows "follows (loop U body s) (loop L body' s)"
  by (rule loop_sim [where S = "(=)"]) (use assms in \<open>simp_all add: sum.rel_eq\<close>)

end

section \<open>Running parsers over the list reader\<close>

lemma ok_run [run_simps]: "ok x r = (Ok x, r)"
  by (simp add: ok_def)

lemma of_result_run [run_simps]: "of_result x r = (x, r)"
  by (simp add: of_result_def)

lemma read_byte_or_run [run_simps]:
  "read_byte_or L e [] = (Err e, [])" "read_byte_or L e (b # r) = (Ok b, r)"
  by (simp_all add: read_byte_or_def list_reader_def)

lemma read_byte_run [run_simps]:
  "read_byte L [] = (Err BadDer, [])" "read_byte L (b # r) = (Ok b, r)"
  by (simp_all add: read_byte_def run_simps)

lemma try_read_byte_run [run_simps]:
  "try_read_byte L [] = (Ok None, [])" "try_read_byte L (b # r) = (Ok (Some b), r)"
  by (simp_all add: try_read_byte_def list_reader_def)

lemma read_bytes_run [run_simps]:
  "read_bytes L n r = (if n \<le> length r then (Ok (take n r), drop n r) else (Err BadDer, r))"
  by (simp add: read_bytes_def list_reader_def)

lemma try_skip_run [run_simps]:
  "try_skip L n r = (if n \<le> length r then (Ok (Some ()), drop n r) else (Ok None, r))"
  by (simp add: try_skip_def list_reader_def)

lemma skip_to_end_run [run_simps]: "skip_to_end L r = (Ok (), [])"
  by (simp add: skip_to_end_def list_reader_def)

lemma read_bytes_to_end_run [run_simps]: "read_bytes_to_end L r = (Ok r, [])"
  by (simp add: read_bytes_to_end_def list_reader_def)

lemma at_end_run [run_simps]: "at_end L r = (Ok (r = []), r)"
  by (simp add: at_end_def list_reader_def)

lemma peek_run [run_simps]: "peek L b [] = (Ok False, [])" "peek L b (x # r) = (Ok (x = b), x # r)"
  by (simp_all add: peek_def list_reader_def)

lemma attempt_run [run_simps]:
  "attempt p r = (case p r of (x, r') \<Rightarrow>
     (case x of Ok y \<Rightarrow> (Ok (Some y), r') | Err e \<Rightarrow> (Ok None, r') | Panic \<Rightarrow> (Panic, r') | Diverge \<Rightarrow> (Diverge, r')))"
  by (simp add: attempt_def case_prod_beta split: result.split)

lemma and_then_run [run_simps]:
  "and_then p f r = (case p r of (x, r') \<Rightarrow>
     (case x of Ok y \<Rightarrow> f y r' | Err e \<Rightarrow> (Err e, r') | Panic \<Rightarrow> (Panic, r') | Diverge \<Rightarrow> (Diverge, r')))"
  by (simp add: and_then_def case_prod_beta split: result.split)

lemma map_err_run [run_simps]: "map_err f p r = (res_map_err f (fst (p r)), snd (p r))"
  by (simp add: map_err_def case_prod_beta)

lemma read_all_run [run_simps]:
  "read_all L e p bs = (case p bs of (x, r) \<Rightarrow>
     (case x of Ok y \<Rightarrow> if r = [] then Ok y else Err e | Err e' \<Rightarrow> Err e' | Panic \<Rightarrow> Panic | Diverge \<Rightarrow> Diverge))"
  by (simp add: read_all_def list_reader_def case_prod_beta split: result.split)

lemma read_partial_run [run_simps]:
  "read_partial L p r = (case p r of (x, r') \<Rightarrow>
     (case x of Ok y \<Rightarrow> (Ok (take (length r - length r') r, y), r')
      | Err e \<Rightarrow> (Err e, r') | Panic \<Rightarrow> (Panic, r') | Diverge \<Rightarrow> (Diverge, r')))"
  by (simp add: read_partial_def list_reader_def case_prod_beta split: result.split)

lemma list_ops [run_simps]:
  "u_new L bs = bs" "u_at_end L r \<longleftrightarrow> r = []" "u_peek L b r \<longleftrightarrow> r \<noteq> [] \<and> hd r = b"
  "u_read_byte L [] = (None, [])" "u_read_byte L (b # r) = (Some b, r)"
  "u_skip L n r = (if n \<le> length r then (Some (), drop n r) else (None, r))"
  "u_read_bytes L n r = (if n \<le> length r then (Some (take n r), drop n r) else (None, r))"
  by (auto simp: list_reader_def split: list.split)

text \<open>Inversion of successful runs.\<close>

lemma and_then_eq_Ok:
  "and_then p f r = (Ok y, r') \<longleftrightarrow> (\<exists>x r1. p r = (Ok x, r1) \<and> f x r1 = (Ok y, r'))"
  by (cases "p r"; cases "fst (p r)") (auto simp: and_then_run)

lemma map_err_eq_Ok: "map_err f p r = (Ok y, r') \<longleftrightarrow> p r = (Ok y, r')"
  by (cases "p r") (simp add: map_err_run)

lemma read_all_eq_Ok: "read_all L e p bs = Ok y \<longleftrightarrow> p bs = (Ok y, [])"
  by (cases "p bs"; cases "fst (p bs)") (auto simp: read_all_run)

lemma read_partial_eq_Ok:
  "read_partial L p r = (Ok (a, y), r') \<longleftrightarrow> p r = (Ok y, r') \<and> a = take (length r - length r') r"
proof -
  obtain x r1 where pr: "p r = (x, r1)" by force
  then show ?thesis by (cases x) (auto simp: read_partial_run)
qed

lemma ok_eq_Ok: "ok x r = (Ok y, r') \<longleftrightarrow> y = x \<and> r' = r"
  by (auto simp: ok_def)

lemma of_result_eq_Ok: "of_result x r = (Ok y, r') \<longleftrightarrow> x = Ok y \<and> r' = r"
  by (auto simp: of_result_def)

lemma read_byte_eq_Ok: "read_byte L r = (Ok b, r') \<longleftrightarrow> r = b # r'"
  by (cases r) (auto simp: run_simps)

lemma read_byte_or_eq_Ok: "read_byte_or L e r = (Ok b, r') \<longleftrightarrow> r = b # r'"
  by (cases r) (auto simp: run_simps)

lemma read_bytes_eq_Ok: "read_bytes L n r = (Ok bs, r') \<longleftrightarrow> r = bs @ r' \<and> length bs = n"
  by (auto simp: run_simps)

lemma guard_eq_Ok:
  "(if b then of_result (Err e) else p) r = (Ok y, r') \<longleftrightarrow> \<not> b \<and> p r = (Ok y, r')"
  "(if b then p else of_result (Err e)) r = (Ok y, r') \<longleftrightarrow> b \<and> p r = (Ok y, r')"
  by (simp_all add: of_result_def)

lemmas run_Ok = guard_eq_Ok and_then_eq_Ok map_err_eq_Ok read_all_eq_Ok ok_eq_Ok of_result_eq_Ok
  read_byte_eq_Ok read_byte_or_eq_Ok read_bytes_eq_Ok

lemma and_then_reads:
  assumes "\<And>r x r1. p r = (Ok x, r1) \<longleftrightarrow> (\<exists>n. A n \<and> x = g n \<and> r = enc n @ r1)"
  shows "and_then p f r = (Ok y, r') \<longleftrightarrow> (\<exists>n. A n \<and> (\<exists>r1. r = enc n @ r1 \<and> f (g n) r1 = (Ok y, r')))"
  by (auto simp: and_then_eq_Ok assms)

text \<open>A successful run does not depend on what follows the bytes it consumed.\<close>

lemma followsD:
  assumes "sim (\<lambda>r. r) (\<lambda>r r'. suffix r' r) V p q" and "p r = (x, r')"
  shows "suffix r' r" and "length r' \<le> length r"
proof -
  from assms show "suffix r' r" by (auto elim: simE)
  then show "length r' \<le> length r" by (rule suffix_length_le)
qed

section \<open>Parsers that always come to an end\<close>

definition total :: "bool \<Rightarrow> ('r, 'a) parser \<Rightarrow> bool" where
  "total k p \<longleftrightarrow> (\<forall>r. fine k (fst (p r)))"

lemma totalI: "(\<And>r. fine k (fst (p r))) \<Longrightarrow> total k p"
  by (simp add: total_def)

lemma totalD: "total k p \<Longrightarrow> p r = (x, r') \<Longrightarrow> fine k x"
  by (metis fst_conv total_def)

lemma fine_intros [total_intros]: "fine k (Ok x)" "fine k (Err e)"
  by simp_all

lemma total_ok [total_intros]: "total k (ok x)"
  by (simp add: total_def ok_def)

lemma total_of_result [total_intros]: "fine k x \<Longrightarrow> total k (of_result x)"
  by (simp add: total_def of_result_def)

lemma total_and_then [total_intros]:
  assumes p: "total k p" and f: "\<And>x. total k (f x)"
  shows "total k (and_then p f)"
proof (rule totalI)
  fix r
  obtain x r1 where pr: "p r = (x, r1)" by force
  with p have "fine k x" by (rule totalD)
  with pr f show "fine k (fst (and_then p f r))"
    by (cases x) (auto simp: and_then_run total_def)
qed

lemma total_and_then_dep:
  assumes p: "total k p" and f: "\<And>r x r1. p r = (Ok x, r1) \<Longrightarrow> total k (f x)"
  shows "total k (and_then p f)"
proof (rule totalI)
  fix r
  obtain x r1 where pr: "p r = (x, r1)" by force
  with p have "fine k x" by (rule totalD)
  with pr f show "fine k (fst (and_then p f r))"
    by (cases x) (auto simp: and_then_run total_def)
qed

lemma total_map_err [total_intros]: "total k p \<Longrightarrow> total k (map_err f p)"
  by (simp add: total_def map_err_run)

lemma total_primitive [total_intros]:
  "total k (read_byte L)" "total k (read_byte_or L e)" "total k (try_read_byte L)" "total k (read_bytes L n)"
  "total k (try_skip L n)" "total k (skip_to_end L)" "total k (read_bytes_to_end L)" "total k (at_end L)"
  "total k (peek L b)"
  by (auto simp: total_def read_byte_def read_byte_or_def try_read_byte_def read_bytes_def try_skip_def
      skip_to_end_def read_bytes_to_end_def at_end_def peek_def split: prod.split option.split)

lemma total_read_partial [total_intros]:
  assumes p: "total k p"
  shows "total k (read_partial L p)"
proof (rule totalI)
  fix r
  obtain x r1 where pr: "p r = (x, r1)" by force
  with p have "fine k x" by (rule totalD)
  with pr show "fine k (fst (read_partial L p r))"
    by (cases x) (auto simp: read_partial_run)
qed

lemma total_attempt [total_intros]:
  assumes "total k p"
  shows "total k (attempt p)"
proof (rule totalI)
  fix r
  obtain x r1 where pr: "p r = (x, r1)" by force
  with assms have "fine k x" by (rule totalD)
  with pr show "fine k (fst (attempt p r))" by (cases x) (simp_all add: attempt_run)
qed

lemma total_reify [total_intros]:
  assumes "total k p"
  shows "total k (reify p)"
proof (rule totalI)
  fix r
  obtain x r1 where pr: "p r = (x, r1)" by force
  with assms have "fine k x" by (rule totalD)
  with pr show "fine k (fst (reify p r))" by (cases x) (simp_all add: reify_def)
qed

lemma total_on_other [total_intros]:
  assumes "total k p" and "\<And>x s'. total k (f x s')"
  shows "total k (on_other p s f)"
proof -
  obtain x r1 where pr: "p s = (x, r1)" by force
  with assms(1) have "fine k x" by (rule totalD)
  with pr assms(2) show ?thesis by (cases x) (simp_all add: on_other_def total_of_result)
qed

lemma total_if [total_intros]: "total k p \<Longrightarrow> total k q \<Longrightarrow> total k (if b then p else q)"
  by simp

lemma total_case_prod [total_intros]: "(\<And>a b. total k (f a b)) \<Longrightarrow> total k (case x of (a, b) \<Rightarrow> f a b)"
  by (cases x) simp

lemma total_case_option [total_intros]:
  "total k p \<Longrightarrow> (\<And>a. total k (f a)) \<Longrightarrow> total k (case x of None \<Rightarrow> p | Some a \<Rightarrow> f a)"
  by (cases x) simp_all

lemma total_case_list [total_intros]:
  "total k p \<Longrightarrow> (\<And>a as. total k (f a as)) \<Longrightarrow> total k (case x of [] \<Rightarrow> p | a # as \<Rightarrow> f a as)"
  by (cases x) simp_all

lemma total_let [total_intros]: "(\<And>x. total k (f x)) \<Longrightarrow> total k (Let x f)"
  by simp

lemma read_all_fine [total_intros]:
  assumes p: "total k p"
  shows "fine k (read_all L e p bs)"
proof -
  obtain x r1 where pr: "p bs = (x, r1)" by force
  with p have "fine k x" by (rule totalD)
  with pr show ?thesis
    by (cases x) (auto simp: read_all_run)
qed

section \<open>Which errors a parser can give\<close>

definition raises :: "error set \<Rightarrow> ('r, 'a) parser \<Rightarrow> bool" where
  "raises E p \<longleftrightarrow> (\<forall>r e r'. p r = (Err e, r') \<longrightarrow> e \<in> E)"

lemma raises_ok [raises_intros]: "raises E (ok x)"
  by (simp add: raises_def ok_def)

lemma raises_Err [raises_intros]: "e \<in> E \<Longrightarrow> raises E (of_result (Err e))"
  by (simp add: raises_def of_result_def)

lemma raises_Panic [raises_intros]: "raises E (of_result Panic)"
  by (simp add: raises_def of_result_def)

lemma raises_and_then [raises_intros]:
  assumes p: "raises E p" and f: "\<And>x. raises E (f x)"
  shows "raises E (and_then p f)"
proof (unfold raises_def, intro allI impI)
  fix r e r'
  assume r: "and_then p f r = (Err e, r')"
  obtain x r1 where pr: "p r = (x, r1)" by force
  show "e \<in> E"
  proof (cases x)
    case (Ok y)
    with pr r have "f y r1 = (Err e, r')" by (simp add: and_then_run)
    with f [of y] show ?thesis unfolding raises_def by blast
  next
    case (Err e1)
    with pr r have "p r = (Err e, r1)" by (simp add: and_then_run)
    with p show ?thesis unfolding raises_def by blast
  qed (use pr r in \<open>simp_all add: and_then_run\<close>)
qed

lemma raises_map_err [raises_intros]: "(\<And>e. f e \<in> E) \<Longrightarrow> raises E (map_err f p)"
  unfolding raises_def map_err_run by (auto elim!: res_map_err.elims)

lemma raises_primitive [raises_intros]:
  "e \<in> E \<Longrightarrow> raises E (read_byte_or L e)" "raises E (try_read_byte L)" "raises E (try_skip L n)"
  "raises E (skip_to_end L)" "raises E (read_bytes_to_end L)" "raises E (at_end L)" "raises E (peek L b)"
  by (auto simp: raises_def read_byte_or_def try_read_byte_def try_skip_def
      skip_to_end_def read_bytes_to_end_def at_end_def peek_def split: prod.splits option.splits)

lemma raises_BadDer [raises_intros]:
  "BadDer \<in> E \<Longrightarrow> raises E (read_byte L)" "BadDer \<in> E \<Longrightarrow> raises E (read_bytes L n)"
  by (auto simp: raises_def read_byte_def read_byte_or_def read_bytes_def split: prod.splits option.splits if_splits)

lemma raises_read_partial [raises_intros]: "raises E p \<Longrightarrow> raises E (read_partial L p)"
proof (unfold raises_def, intro allI impI)
  fix r e r'
  assume p: "\<forall>r e r'. p r = (Err e, r') \<longrightarrow> e \<in> E" and r: "read_partial L p r = (Err e, r')"
  obtain x r1 where "p r = (x, r1)" by force
  with p r show "e \<in> E" by (cases x) (auto simp: read_partial_run)
qed

lemma raises_if [raises_intros]: "raises E p \<Longrightarrow> raises E q \<Longrightarrow> raises E (if b then p else q)"
  by simp

lemma raises_case_prod [raises_intros]: "(\<And>a b. raises E (f a b)) \<Longrightarrow> raises E (case x of (a, b) \<Rightarrow> f a b)"
  by (cases x) simp

lemma raises_case_option [raises_intros]:
  "raises E p \<Longrightarrow> (\<And>a. raises E (f a)) \<Longrightarrow> raises E (case x of None \<Rightarrow> p | Some a \<Rightarrow> f a)"
  by (cases x) simp_all

lemma raises_case_list [raises_intros]:
  "raises E p \<Longrightarrow> (\<And>a as. raises E (f a as)) \<Longrightarrow> raises E (case x of [] \<Rightarrow> p | a # as \<Rightarrow> f a as)"
  by (cases x) simp_all

lemma raises_let [raises_intros]: "(\<And>x. raises E (f x)) \<Longrightarrow> raises E (Let x f)"
  by simp

lemma read_all_raises:
  assumes "raises E p" "e \<in> E" "read_all L e p bs = Err e'"
  shows "e' \<in> E"
proof -
  obtain x r1 where pr: "p bs = (x, r1)" by force
  with assms show ?thesis
    by (cases x) (auto simp: read_all_run raises_def split: if_splits)
qed

lemma raises_of_read_all [raises_intros]:
  "raises E p \<Longrightarrow> e \<in> E \<Longrightarrow> raises E (of_result (read_all L e p bs))"
  unfolding raises_def [of E "of_result (read_all L e p bs)"] of_result_def prod.inject
  by (blast intro: read_all_raises)

section \<open>Loops over the list reader\<close>

definition progress :: "('s \<Rightarrow> (bytes, 's + 'b) parser) \<Rightarrow> bool" where
  "progress body \<longleftrightarrow> (\<forall>s r s' r'. body s r = (Ok (Inl s'), r') \<longrightarrow> length r' < length r)"

lemma progressI:
  "(\<And>s r s' r'. body s r = (Ok (Inl s'), r') \<Longrightarrow> length r' < length r) \<Longrightarrow> progress body"
  by (simp add: progress_def)

lemma rd_loop_enough:
  assumes "progress body"
  shows "length r < n \<Longrightarrow> length r < m \<Longrightarrow> rd_loop n body s r = rd_loop m body s r"
proof (induction n arbitrary: m s r)
  case (Suc n)
  then obtain m' where m: "m = Suc m'" by (cases m) auto
  have "rd_loop n body s' r' = rd_loop m' body s' r'" if "body s r = (Ok (Inl s'), r')" for s' r'
  proof -
    from that assms have "length r' < length r" by (simp add: progress_def)
    with Suc.prems m show ?thesis by (intro Suc.IH) auto
  qed
  with m show ?case
    by (auto simp: and_then_run split: prod.split result.split sum.split)
qed simp

lemma loop_list: "loop L body s r = rd_loop (Suc (length r)) body s r"
  by (simp add: loop_def list_reader_def del: rd_loop.simps)

lemma loop_unfold:
  assumes "progress body"
  shows "loop L body s r =
    and_then (body s) (\<lambda>x. case x of Inl s' \<Rightarrow> loop L body s' | Inr y \<Rightarrow> ok y) r"
proof -
  have "rd_loop (length r) body s' r' = loop L body s' r'" if "body s r = (Ok (Inl s'), r')" for s' r'
  proof -
    from that assms have "length r' < length r" by (simp add: progress_def)
    with assms show ?thesis
      unfolding loop_list by (intro rd_loop_enough) auto
  qed
  then have "(case x of Inl s' \<Rightarrow> rd_loop (length r) body s' | Inr y \<Rightarrow> ok y) r1 =
      (case x of Inl s' \<Rightarrow> loop L body s' | Inr y \<Rightarrow> ok y) r1" if "body s r = (Ok x, r1)" for x r1
    using that by (simp split: sum.split)
  then show ?thesis
    unfolding loop_list [of body s r] rd_loop.simps and_then_def
    by (simp split: prod.split result.split)
qed

lemma loop_induct [consumes 1, case_names step]:
  assumes prog: "progress body"
    and step: "\<And>s r. (\<And>s' r'. body s r = (Ok (Inl s'), r') \<Longrightarrow> P s' r') \<Longrightarrow> P s r"
  shows "P s r"
proof (induction "length r" arbitrary: s r rule: less_induct)
  case less
  show ?case
  proof (rule step)
    fix s' r'
    assume "body s r = (Ok (Inl s'), r')"
    with prog have "length r' < length r" by (simp add: progress_def)
    then show "P s' r'" by (rule less)
  qed
qed

lemma loop_total [total_intros]:
  assumes prog: "progress body" and tot: "\<And>s. total k (body s)"
  shows "total k (loop L body s)"
proof (rule totalI)
  fix r
  show "fine k (fst (loop L body s r))"
    using prog
  proof (induction s r rule: loop_induct)
    case (step s r)
    obtain x r1 where b: "body s r = (x, r1)" by force
    with tot [of s] have "fine k x" by (rule totalD)
    with b step show ?case
      unfolding loop_unfold [OF prog, of s r]
      by (cases x) (auto simp: and_then_run ok_run split: sum.split)
  qed
qed

lemma rd_loop_invariant:
  assumes "rd_loop n body s r = (Ok y, r')" and "I s r"
    and "\<And>s r s' r'. I s r \<Longrightarrow> body s r = (Ok (Inl s'), r') \<Longrightarrow> I s' r'"
    and "\<And>s r y r'. I s r \<Longrightarrow> body s r = (Ok (Inr y), r') \<Longrightarrow> Q y r'"
  shows "Q y r'"
  using assms(1,2)
proof (induction n arbitrary: s r)
  case (Suc n)
  then obtain x r1 where b: "body s r = (Ok x, r1)"
    and k: "(case x of Inl s' \<Rightarrow> rd_loop n body s' | Inr y \<Rightarrow> ok y) r1 = (Ok y, r')"
    by (auto simp: and_then_eq_Ok)
  show ?case
  proof (cases x)
    case (Inl s')
    with b Suc.prems(2) have "I s' r1" by (auto intro: assms(3))
    with Inl k show ?thesis by (intro Suc.IH) auto
  next
    case (Inr z)
    with b k Suc.prems(2) show ?thesis by (auto simp: ok_run intro: assms(4))
  qed
qed (simp add: of_result_run)

lemma loop_invariant:
  assumes "loop L body s r = (Ok y, r')" and "I s r"
    and "\<And>s r s' r'. I s r \<Longrightarrow> body s r = (Ok (Inl s'), r') \<Longrightarrow> I s' r'"
    and "\<And>s r y r'. I s r \<Longrightarrow> body s r = (Ok (Inr y), r') \<Longrightarrow> Q y r'"
  shows "Q y r'"
  using rd_loop_invariant [where I = I and Q = Q, OF assms(1) [unfolded loop_def] assms(2-4)] .

end
