(* ===== verification/Der.thy ===== *)
theory Der
  imports Untrusted
begin

text \<open>
  The DER reader of the crate (\<^verbatim>\<open>src/der.rs\<close>): tag and length octets, nested values, integers, bit
  strings and booleans. The lemmas show that a value is read exactly when it is the canonical
  (shortest) encoding, that a flag bit is the bit the standard numbers, and where the code can panic.
\<close>

unbundle bit_operations_syntax

section \<open>Tags and limits\<close>

definition CONSTRUCTED :: u8 where "CONSTRUCTED = 0x20"
definition CONTEXT_SPECIFIC :: u8 where "CONTEXT_SPECIFIC = 0x80"

datatype tag =
    Tag_Boolean
  | Tag_Integer
  | Tag_BitString
  | Tag_OctetString
  | Tag_OID
  | Tag_Enum
  | Tag_UTF8String
  | Tag_Sequence
  | Tag_Set
  | Tag_UTCTime
  | Tag_GeneralizedTime
  | Tag_ContextSpecificConstructed0
  | Tag_ContextSpecificConstructed1
  | Tag_ContextSpecificConstructed3

fun tag_u8 :: "tag \<Rightarrow> u8" where
  "tag_u8 Tag_Boolean = 0x01"
| "tag_u8 Tag_Integer = 0x02"
| "tag_u8 Tag_BitString = 0x03"
| "tag_u8 Tag_OctetString = 0x04"
| "tag_u8 Tag_OID = 0x06"
| "tag_u8 Tag_Enum = 0x0A"
| "tag_u8 Tag_UTF8String = 0x0C"
| "tag_u8 Tag_Sequence = CONSTRUCTED OR 0x10"
| "tag_u8 Tag_Set = CONSTRUCTED OR 0x11"
| "tag_u8 Tag_UTCTime = 0x17"
| "tag_u8 Tag_GeneralizedTime = 0x18"
| "tag_u8 Tag_ContextSpecificConstructed0 = CONTEXT_SPECIFIC OR CONSTRUCTED OR 0"
| "tag_u8 Tag_ContextSpecificConstructed1 = CONTEXT_SPECIFIC OR CONSTRUCTED OR 1"
| "tag_u8 Tag_ContextSpecificConstructed3 = CONTEXT_SPECIFIC OR CONSTRUCTED OR 3"

definition HIGH_TAG_RANGE_START :: u8 where "HIGH_TAG_RANGE_START = 31"
definition SHORT_FORM_LEN_MAX :: u8 where "SHORT_FORM_LEN_MAX = 128"
definition LONG_FORM_LEN_ONE_BYTE :: u8 where "LONG_FORM_LEN_ONE_BYTE = 0x81"
definition LONG_FORM_LEN_ONE_BYTE_MAX :: nat where "LONG_FORM_LEN_ONE_BYTE_MAX = 0xff"
definition LONG_FORM_LEN_TWO_BYTES :: u8 where "LONG_FORM_LEN_TWO_BYTES = 0x82"
definition LONG_FORM_LEN_TWO_BYTES_MAX :: nat where "LONG_FORM_LEN_TWO_BYTES_MAX = 0xffff"
definition LONG_FORM_LEN_THREE_BYTES :: u8 where "LONG_FORM_LEN_THREE_BYTES = 0x83"
definition LONG_FORM_LEN_THREE_BYTES_MAX :: nat where "LONG_FORM_LEN_THREE_BYTES_MAX = 0xffffff"
definition LONG_FORM_LEN_FOUR_BYTES :: u8 where "LONG_FORM_LEN_FOUR_BYTES = 0x84"
definition LONG_FORM_LEN_FOUR_BYTES_MAX :: nat where "LONG_FORM_LEN_FOUR_BYTES_MAX = 0xffffffff"

definition TWO_BYTE_DER_SIZE :: nat where "TWO_BYTE_DER_SIZE = LONG_FORM_LEN_TWO_BYTES_MAX"
definition MAX_DER_SIZE :: nat where "MAX_DER_SIZE = LONG_FORM_LEN_FOUR_BYTES_MAX"

lemmas der_limits = HIGH_TAG_RANGE_START_def SHORT_FORM_LEN_MAX_def
  LONG_FORM_LEN_ONE_BYTE_def LONG_FORM_LEN_ONE_BYTE_MAX_def
  LONG_FORM_LEN_TWO_BYTES_def LONG_FORM_LEN_TWO_BYTES_MAX_def
  LONG_FORM_LEN_THREE_BYTES_def LONG_FORM_LEN_THREE_BYTES_MAX_def
  LONG_FORM_LEN_FOUR_BYTES_def LONG_FORM_LEN_FOUR_BYTES_MAX_def
  TWO_BYTE_DER_SIZE_def MAX_DER_SIZE_def

section \<open>Reading a tagged value\<close>

text \<open>The length octets: the \<^verbatim>\<open>match input.read_byte()?\<close> of \<^verbatim>\<open>read_tag_and_get_value_limited\<close>.\<close>

definition read_length :: "'r untrusted \<Rightarrow> ('r, nat) parser" where
  "read_length U =
    and_then (read_byte U) (\<lambda>n.
      if n AND SHORT_FORM_LEN_MAX = 0 then ok (unat n)
      else if n = LONG_FORM_LEN_ONE_BYTE then
        and_then (read_byte U) (\<lambda>length_byte.
          if length_byte < SHORT_FORM_LEN_MAX then of_result (Err BadDer)
          else ok (unat length_byte))
      else if n = LONG_FORM_LEN_TWO_BYTES then
        and_then (read_byte U) (\<lambda>length_byte_one.
        and_then (read_byte U) (\<lambda>length_byte_two.
          let combined = push_bit 8 (unat length_byte_one) OR unat length_byte_two in
          if combined \<le> LONG_FORM_LEN_ONE_BYTE_MAX then of_result (Err BadDer) else ok combined))
      else if n = LONG_FORM_LEN_THREE_BYTES then
        and_then (read_byte U) (\<lambda>length_byte_one.
        and_then (read_byte U) (\<lambda>length_byte_two.
        and_then (read_byte U) (\<lambda>length_byte_three.
          let combined = push_bit 16 (unat length_byte_one) OR push_bit 8 (unat length_byte_two)
                OR unat length_byte_three in
          if combined \<le> LONG_FORM_LEN_TWO_BYTES_MAX then of_result (Err BadDer) else ok combined)))
      else if n = LONG_FORM_LEN_FOUR_BYTES then
        and_then (read_byte U) (\<lambda>length_byte_one.
        and_then (read_byte U) (\<lambda>length_byte_two.
        and_then (read_byte U) (\<lambda>length_byte_three.
        and_then (read_byte U) (\<lambda>length_byte_four.
          let combined = push_bit 24 (unat length_byte_one) OR push_bit 16 (unat length_byte_two)
                OR push_bit 8 (unat length_byte_three) OR unat length_byte_four in
          if combined \<le> LONG_FORM_LEN_THREE_BYTES_MAX then of_result (Err BadDer) else ok combined))))
      else of_result (Err BadDer))"

definition read_tag_and_get_value_limited ::
    "'r untrusted \<Rightarrow> nat \<Rightarrow> ('r, u8 \<times> bytes) parser" where
  "read_tag_and_get_value_limited U size_limit =
    and_then (read_byte U) (\<lambda>tag.
      if tag AND HIGH_TAG_RANGE_START = HIGH_TAG_RANGE_START then of_result (Err BadDer)
      else and_then (read_length U) (\<lambda>len.
        if len \<ge> size_limit then of_result (Err BadDer)
        else and_then (read_bytes U len) (\<lambda>inner. ok (tag, inner))))"

definition read_tag_and_get_value :: "'r untrusted \<Rightarrow> ('r, u8 \<times> bytes) parser" where
  "read_tag_and_get_value U = read_tag_and_get_value_limited U TWO_BYTE_DER_SIZE"

definition expect_tag_and_get_value_limited ::
    "'r untrusted \<Rightarrow> tag \<Rightarrow> nat \<Rightarrow> ('r, bytes) parser" where
  "expect_tag_and_get_value_limited U tag size_limit =
    and_then (read_tag_and_get_value_limited U size_limit) (\<lambda>(actual_tag, inner).
      if unat (tag_u8 tag) \<noteq> unat actual_tag then of_result (Err BadDer) else ok inner)"

definition expect_tag :: "'r untrusted \<Rightarrow> tag \<Rightarrow> ('r, bytes) parser" where
  "expect_tag U tag =
    and_then (read_tag_and_get_value_limited U TWO_BYTE_DER_SIZE) (\<lambda>(actual_tag, value).
      if unat (tag_u8 tag) \<noteq> unat actual_tag then of_result (Err BadDer) else ok value)"

definition nested_limited ::
    "'r untrusted \<Rightarrow> tag \<Rightarrow> error \<Rightarrow> ('r, 'a) parser \<Rightarrow> nat \<Rightarrow> ('r, 'a) parser" where
  "nested_limited U tag error decoder size_limit =
    and_then (map_err (\<lambda>_. error) (expect_tag_and_get_value_limited U tag size_limit)) (\<lambda>inner.
      of_result (read_all U error decoder inner))"

definition nested :: "'r untrusted \<Rightarrow> tag \<Rightarrow> error \<Rightarrow> ('r, 'a) parser \<Rightarrow> ('r, 'a) parser" where
  "nested U tag error decoder = nested_limited U tag error decoder TWO_BYTE_DER_SIZE"

text \<open>The closure's captured variables, which it updates, are the state \<open>s\<close>.\<close>

definition nested_of_mut ::
    "'r untrusted \<Rightarrow> tag \<Rightarrow> tag \<Rightarrow> error \<Rightarrow> ('s \<Rightarrow> ('r, 's) parser) \<Rightarrow> 's \<Rightarrow> ('r, 's) parser" where
  "nested_of_mut U outer_tag inner_tag error decoder s =
    nested U outer_tag error
      (loop U (\<lambda>s.
        and_then (nested U inner_tag error (decoder s)) (\<lambda>s'.
        and_then (at_end U) (\<lambda>e. ok (if e then Inr s' else Inl s')))) s)"

definition der_read_all :: "'r untrusted \<Rightarrow> der_type_id \<Rightarrow> ('r, 'a) parser \<Rightarrow> bytes \<Rightarrow> 'a result" where
  "der_read_all U type_id from_der input = read_all U (TrailingData type_id) from_der input"

text \<open>\<^verbatim>\<open>DerIterator\<close>: the iterator is its reader; \<open>None\<close> ends it.\<close>

definition der_iterator_new :: "'r untrusted \<Rightarrow> bytes \<Rightarrow> 'r" where
  "der_iterator_new U input = u_new U input"

definition der_iterator_next :: "'r untrusted \<Rightarrow> ('r, 'a) parser \<Rightarrow> 'r \<Rightarrow> ('a result \<times> 'r) option" where
  "der_iterator_next U from_der r = (if u_at_end U r then None else Some (from_der r))"

section \<open>Bit strings, integers, booleans\<close>

definition bit_string_with_no_unused_bits :: "'r untrusted \<Rightarrow> ('r, bytes) parser" where
  "bit_string_with_no_unused_bits U =
    nested U Tag_BitString (TrailingData TypeId_BitString)
      (and_then (read_byte_or U BadDer) (\<lambda>unused_bits_at_end.
        if unused_bits_at_end \<noteq> 0 then of_result (Err BadDer) else read_bytes_to_end U))"

record BitStringFlags =
  raw_bits :: bytes

definition bit_set :: "BitStringFlags \<Rightarrow> nat \<Rightarrow> bool" where
  "bit_set self bit_no =
    (let byte_index = bit_no div 8; bit_shift = 7 - bit_no mod 8 in
     if length (raw_bits self) < byte_index + 1 then False
     else drop_bit bit_shift (raw_bits self ! byte_index) AND 1 \<noteq> 0)"

text \<open>\<^verbatim>\<open>raw_bits[raw_bits.len() - 1]\<close> panics when there are no raw bits.\<close>

definition bit_string_flags :: "'r untrusted \<Rightarrow> bytes \<Rightarrow> BitStringFlags result" where
  "bit_string_flags U input =
    read_all U BadDer
      (and_then (read_byte_or U BadDer) (\<lambda>padding_bits.
       and_then (read_bytes_to_end U) (\<lambda>raw.
         if padding_bits > 7 \<or> (raw = [] \<and> padding_bits \<noteq> 0) then of_result (Err BadDer)
         else if raw = [] then of_result Panic
         else
           let last_byte = last raw;
               padding_mask = push_bit (unat padding_bits) 1 - 1 in
           if padding_bits > 0 \<and> last_byte AND padding_mask \<noteq> 0 then of_result (Err BadDer)
           else ok \<lparr>raw_bits = raw\<rparr>))) input"

definition nonnegative_integer :: "'r untrusted \<Rightarrow> ('r, bytes) parser" where
  "nonnegative_integer U =
    and_then (expect_tag U Tag_Integer) (\<lambda>value.
      case value of
        [] \<Rightarrow> of_result (Err BadDer)
      | first # rest \<Rightarrow>
          if first = 0 then
            (case rest of
               [] \<Rightarrow> ok value
             | second # _ \<Rightarrow>
                 if second AND 0x80 = 0x80 then ok rest else of_result (Err BadDer))
          else if first AND 0x80 = 0x00 then ok value
          else of_result (Err BadDer))"

definition u8_from_der :: "'r untrusted \<Rightarrow> ('r, u8) parser" where
  "u8_from_der U =
    and_then (nonnegative_integer U) (\<lambda>value.
      case value of
        [] \<Rightarrow> of_result (Err BadDer)
      | b # rest \<Rightarrow> (case rest of [] \<Rightarrow> ok b | _ # _ \<Rightarrow> of_result (Err BadDer)))"

definition bool_from_der :: "'r untrusted \<Rightarrow> ('r, bool) parser" where
  "bool_from_der U =
    and_then (peek U (tag_u8 Tag_Boolean)) (\<lambda>present.
      if \<not> present then ok False
      else nested U Tag_Boolean (TrailingData TypeId_Bool)
        (and_then (try_read_byte U) (\<lambda>b.
          if b = Some 0xff then ok True
          else if b = Some 0x00 then ok False
          else of_result (Err BadDer))))"

text \<open>The macro \<^verbatim>\<open>oid!\<close>.\<close>

definition oid :: "u8 \<Rightarrow> u8 \<Rightarrow> bytes \<Rightarrow> bytes" where
  "oid first second tail = ((40 * first) + second) # tail"

text \<open>
  The encoder of length octets that the crate's own tests use (\<^verbatim>\<open>der_encode_length\<close>, the loop is its
  \<^verbatim>\<open>while\<close>), and the encoding of a whole value with it.
\<close>

function der_encode_loop :: "nat \<Rightarrow> bytes \<Rightarrow> bytes" where
  "der_encode_loop remaining_length encoded =
    (if remaining_length > 0
     then der_encode_loop (drop_bit 8 remaining_length) (of_nat (remaining_length AND 0xFF) # encoded)
     else encoded)"
  by pat_completeness auto
termination
  by (relation "measure fst") (simp_all add: drop_bit_eq_div div_less_dividend)

definition der_encode_length :: "nat \<Rightarrow> bytes" where
  "der_encode_length len =
    (if len < 128 then [of_nat len]
     else let encoded = der_encode_loop len [] in (of_nat (length encoded) OR 0x80) # encoded)"

definition der_encode :: "u8 \<Rightarrow> bytes \<Rightarrow> bytes" where
  "der_encode t v = t # der_encode_length (length v) @ v"

section \<open>The readers do not depend on the reader's representation\<close>

context untrusted_reader
begin

lemma read_length_sim [sim_intros]: "follows (read_length U) (read_length L)"
  unfolding read_length_def by (intro sim_intros refl)

lemma read_tag_limited_sim [sim_intros]:
  "follows (read_tag_and_get_value_limited U n) (read_tag_and_get_value_limited L n)"
  unfolding read_tag_and_get_value_limited_def by (intro sim_intros refl)

lemma read_tag_sim [sim_intros]: "follows (read_tag_and_get_value U) (read_tag_and_get_value L)"
  unfolding read_tag_and_get_value_def by (intro sim_intros)

lemma expect_tag_limited_sim [sim_intros]:
  "follows (expect_tag_and_get_value_limited U t n) (expect_tag_and_get_value_limited L t n)"
  unfolding expect_tag_and_get_value_limited_def by (intro sim_intros refl)

lemma expect_tag_sim [sim_intros]: "follows (expect_tag U t) (expect_tag L t)"
  unfolding expect_tag_def by (intro sim_intros refl)

lemma nested_limited_sim [sim_intros]:
  assumes "follows p q"
  shows "follows (nested_limited U t e p n) (nested_limited L t e q n)"
  unfolding nested_limited_def by (intro sim_intros refl assms)

lemma nested_sim [sim_intros]: "follows p q \<Longrightarrow> follows (nested U t e p) (nested L t e q)"
  unfolding nested_def by (rule nested_limited_sim)

lemma nested_of_mut_sim [sim_intros]:
  assumes "\<And>s. follows (p s) (q s)"
  shows "follows (nested_of_mut U t t' e p s) (nested_of_mut L t t' e q s)"
  unfolding nested_of_mut_def by (intro sim_intros refl assms)

lemma bit_string_with_no_unused_bits_sim [sim_intros]:
  "follows (bit_string_with_no_unused_bits U) (bit_string_with_no_unused_bits L)"
  unfolding bit_string_with_no_unused_bits_def by (intro sim_intros refl)

lemma bit_string_flags_indep [sim_intros]: "bit_string_flags U bs = bit_string_flags L bs"
  unfolding bit_string_flags_def by (intro sim_intros refl)

lemma nonnegative_integer_sim [sim_intros]: "follows (nonnegative_integer U) (nonnegative_integer L)"
  unfolding nonnegative_integer_def by (intro sim_intros refl)

lemma u8_from_der_sim [sim_intros]: "follows (u8_from_der U) (u8_from_der L)"
  unfolding u8_from_der_def by (intro sim_intros refl)

lemma bool_from_der_sim [sim_intros]: "follows (bool_from_der U) (bool_from_der L)"
  unfolding bool_from_der_def by (intro sim_intros refl)

lemma der_read_all_sim [sim_intros]: "follows p q \<Longrightarrow> der_read_all U t p bs = der_read_all L t q bs"
  unfolding der_read_all_def by (rule read_all_sim)

end

section \<open>Length octets are canonical\<close>

declare CONSTRUCTED_def [simp] CONTEXT_SPECIFIC_def [simp]

declare der_encode_loop.simps [simp del]

lemma nat_or_disjoint:
  assumes "(b :: nat) < 2 ^ k"
  shows "push_bit k a OR b = a * 2 ^ k + b"
proof -
  have "\<not> bit (push_bit k a) n \<or> \<not> bit b n" for n
  proof (cases "n < k")
    case True
    then show ?thesis by (simp add: bit_push_bit_iff)
  next
    case False
    then have "(2::nat) ^ k \<le> 2 ^ n" by (simp add: power_increasing)
    with assms have "b < 2 ^ n" by linarith
    then have "b div 2 ^ n = 0" by simp
    then show ?thesis by (simp add: bit_iff_odd)
  qed
  then have "push_bit k a + b = push_bit k a OR b" by (rule disjunctive_add)
  then show ?thesis by (simp add: push_bit_eq_mult)
qed

lemma combined2: "push_bit 8 (unat (a::u8)) OR unat (b::u8) = 256 * unat a + unat b"
  using nat_or_disjoint [of "unat b" 8 "unat a"] by simp

lemma combined3:
  "push_bit 16 (unat (a::u8)) OR push_bit 8 (unat (b::u8)) OR unat (c::u8) =
   65536 * unat a + 256 * unat b + unat c"
proof -
  have "256 * unat b + unat c < 65536" using u8_unat_lt [of b] u8_unat_lt [of c] by linarith
  then show ?thesis
    using nat_or_disjoint [of "256 * unat b + unat c" 16 "unat a"] by (simp add: combined2)
qed

lemma combined4:
  "push_bit 24 (unat (a::u8)) OR push_bit 16 (unat (b::u8)) OR push_bit 8 (unat (c::u8)) OR unat (d::u8) =
   16777216 * unat a + 65536 * unat b + 256 * unat c + unat d"
proof -
  have "65536 * unat b + 256 * unat c + unat d < 16777216"
    using u8_unat_lt [of b] u8_unat_lt [of c] u8_unat_lt [of d] by linarith
  then show ?thesis
    using nat_or_disjoint [of "65536 * unat b + 256 * unat c + unat d" 24 "unat a"] by (simp add: combined3)
qed

lemma short_form: "((b::u8) AND 128 = 0) = (unat b < 128)"
  by (rule all_u8I [where P = "\<lambda>b. (b AND 128 = 0) = (unat b < 128)"]) code_simp

lemma der_encode_loop_step:
  "0 < n \<Longrightarrow> der_encode_loop n acc = der_encode_loop (n div 256) (of_nat (n mod 256) # acc)"
  using mask_eq_exp_minus_1 [of 8, where 'a = nat] take_bit_eq_mask [of 8 n]
  by (subst der_encode_loop.simps) (simp add: drop_bit_eq_div take_bit_eq_mod)

lemma der_encode_loop_0: "der_encode_loop 0 acc = acc"
  by (subst der_encode_loop.simps) simp

lemma der_encode_length_short: "n < 128 \<Longrightarrow> der_encode_length n = [of_nat n]"
  by (simp add: der_encode_length_def)

lemma der_encode_length_1:
  "128 \<le> n \<Longrightarrow> n < 256 \<Longrightarrow> der_encode_length n = [0x81, of_nat n]"
  by (simp add: der_encode_length_def der_encode_loop_step der_encode_loop_0)

lemma der_encode_length_2:
  "256 \<le> n \<Longrightarrow> n < 65536 \<Longrightarrow> der_encode_length n = [0x82, of_nat (n div 256), of_nat (n mod 256)]"
  by (simp add: der_encode_length_def der_encode_loop_step [of n] der_encode_loop_step [of "n div 256"]
     div_greater_zero_iff der_encode_loop_0)

lemma der_encode_length_3:
  assumes "65536 \<le> n" "n < 16777216"
  shows "der_encode_length n =
    [0x83, of_nat (n div 65536), of_nat (n div 256 mod 256), of_nat (n mod 256)]"
proof -
  have "n div 256 div 256 = n div 65536" by (simp add: div_mult2_eq [symmetric])
  moreover from assms have "n div 65536 < 256" "0 < n div 65536" "0 < n div 256" by auto
  ultimately show ?thesis
    using assms by (simp add: der_encode_length_def der_encode_loop_step [of n]
      der_encode_loop_step [of "n div 256"] der_encode_loop_step [of "n div 65536"] der_encode_loop_0)
qed

lemma der_encode_length_4:
  assumes "16777216 \<le> n" "n < 4294967296"
  shows "der_encode_length n =
    [0x84, of_nat (n div 16777216), of_nat (n div 65536 mod 256), of_nat (n div 256 mod 256), of_nat (n mod 256)]"
proof -
  have "n div 256 div 256 = n div 65536" "n div 65536 div 256 = n div 16777216"
    by (simp_all add: div_mult2_eq [symmetric])
  moreover from assms have "n div 16777216 < 256" "0 < n div 16777216" "0 < n div 65536" "0 < n div 256" by auto
  ultimately show ?thesis
    using assms by (simp add: der_encode_length_def der_encode_loop_step [of n]
      der_encode_loop_step [of "n div 256"] der_encode_loop_step [of "n div 65536"]
      der_encode_loop_step [of "n div 16777216"] der_encode_loop_0)
qed

lemmas der_encode_length_simps = der_encode_length_short der_encode_length_1 der_encode_length_2
  der_encode_length_3 der_encode_length_4

lemma div_256_chain: "(n::nat) div 65536 = n div 256 div 256" "n div 16777216 = n div 256 div 256 div 256"
  by (simp_all add: div_mult2_eq [symmetric])

lemma byte_split: "(d::nat) < 256 \<Longrightarrow> (256 * m + d) div 256 = m \<and> (256 * m + d) mod 256 = d"
  by simp

lemma bytes3_join: "65536 * (n div 65536) + 256 * (n div 256 mod 256) + n mod 256 = (n::nat)"
  using mult_div_mod_eq [of 256 n] mult_div_mod_eq [of 256 "n div 256"] unfolding div_256_chain by linarith

lemma bytes4_join:
  "16777216 * (n div 16777216) + 65536 * (n div 65536 mod 256) + 256 * (n div 256 mod 256) + n mod 256 = (n::nat)"
  using mult_div_mod_eq [of 256 n] mult_div_mod_eq [of 256 "n div 256"]
    mult_div_mod_eq [of 256 "n div 256 div 256"]
  unfolding div_256_chain by linarith

lemma bytes3_split:
  assumes "n = 65536 * a + 256 * b + c" "a < 256" "b < 256" "c < (256::nat)"
  shows "n div 65536 = a" "n div 256 mod 256 = b" "n mod 256 = c"
proof -
  from assms have "n = 256 * (256 * a + b) + c" by simp
  with \<open>c < 256\<close> have *: "n div 256 = 256 * a + b" "n mod 256 = c" by (simp_all only: byte_split)
  with \<open>b < 256\<close> show "n div 65536 = a" "n div 256 mod 256 = b" "n mod 256 = c"
    by (simp_all add: div_256_chain byte_split)
qed

lemma bytes4_split:
  assumes "n = 16777216 * a + 65536 * b + 256 * c + d" "a < 256" "b < 256" "c < 256" "d < (256::nat)"
  shows "n div 16777216 = a" "n div 65536 mod 256 = b" "n div 256 mod 256 = c" "n mod 256 = d"
proof -
  from assms have "n = 256 * (65536 * a + 256 * b + c) + d" by simp
  with \<open>d < 256\<close> have *: "n div 256 = 65536 * a + 256 * b + c" "n mod 256 = d" by (simp_all only: byte_split)
  from bytes3_split [OF *(1) assms(2-4)] *
  show "n div 16777216 = a" "n div 65536 mod 256 = b" "n div 256 mod 256 = c" "n mod 256 = d"
    by (simp_all add: div_256_chain)
qed

lemma read_length_83:
  "65535 < 65536 * unat a + 256 * unat b + unat c \<Longrightarrow>
    read_length L (0x83 # a # b # c # r) = (Ok (65536 * unat a + 256 * unat b + unat c), r)"
  by (simp add: read_length_def run_simps der_limits combined3)

lemma read_length_84:
  "16777215 < 16777216 * unat a + 65536 * unat b + 256 * unat c + unat d \<Longrightarrow>
    read_length L (0x84 # a # b # c # d # r) =
      (Ok (16777216 * unat a + 65536 * unat b + 256 * unat c + unat d), r)"
  by (simp add: read_length_def run_simps der_limits combined4)

lemma read_length_encode:
  assumes "n < 2 ^ 32"
  shows "read_length L (der_encode_length n @ r) = (Ok n, r)"
proof -
  consider "n < 128" | "128 \<le> n" "n < 256" | "256 \<le> n" "n < 65536"
    | "65536 \<le> n" "n < 16777216" | "16777216 \<le> n" "n < 4294967296"
    using assms by fastforce
  then show ?thesis
  proof cases
    case 1
    then show ?thesis
      by (simp add: der_encode_length_short read_length_def run_simps der_limits short_form)
  next
    case 2
    then show ?thesis
      by (simp add: der_encode_length_1 read_length_def run_simps der_limits word_less_nat_alt)
  next
    case 3
    then show ?thesis
      by (simp add: der_encode_length_2 read_length_def run_simps der_limits combined2)
  next
    case 4
    then have "n div 65536 < 256" by auto
    then show ?thesis
      using 4 read_length_83 [of "of_nat (n div 65536)" "of_nat (n div 256 mod 256)" "of_nat (n mod 256)" r]
      by (simp add: der_encode_length_3 bytes3_join)
  next
    case 5
    then have "n div 16777216 < 256" by auto
    then show ?thesis
      using 5 read_length_84 [of "of_nat (n div 16777216)" "of_nat (n div 65536 mod 256)"
          "of_nat (n div 256 mod 256)" "of_nat (n mod 256)" r]
      by (simp add: der_encode_length_4 bytes4_join)
  qed
qed

lemma read_length_canonical:
  assumes "read_length L r = (Ok n, r')"
  shows "n < 2 ^ 32 \<and> r = der_encode_length n @ r'"
proof -
  from assms obtain b r1 where r: "r = b # r1" by (cases r) (auto simp: read_length_def run_simps)
  note unf = assms [unfolded r read_length_def, simplified run_Ok der_limits, simplified]
  consider "unat b < 128" | "b = 0x81" | "b = 0x82" | "b = 0x83" | "b = 0x84"
    using unf by (auto simp: short_form run_Ok split: if_splits)
  then show ?thesis
  proof cases
    case 1
    with unf show ?thesis by (auto simp: r short_form run_Ok der_encode_length_short)
  next
    case 2
    with unf obtain b1 where "r1 = b1 # r'" and "n = unat b1" and "128 \<le> n"
      by (auto simp: run_Ok word_less_nat_alt not_less split: if_splits)
    moreover have "unat b1 < 256" by simp
    then have "unat b1 < 2 ^ 32" by (rule less_trans) simp
    ultimately show ?thesis using 2 by (simp add: r der_encode_length_1)
  next
    case 3
    with unf obtain b1 b2 where r1: "r1 = b1 # b2 # r'"
      and n: "n = 256 * unat b1 + unat b2" and "255 < n"
      by (auto simp: run_Ok combined2 Let_def split: if_splits)
    moreover from n have "n < 65536" using u8_unat_lt [of b1] u8_unat_lt [of b2] by linarith
    ultimately show ?thesis using 3 by (simp add: r der_encode_length_2)
  next
    case 4
    with unf obtain b1 b2 b3 where r1: "r1 = b1 # b2 # b3 # r'"
      and n: "n = 65536 * unat b1 + 256 * unat b2 + unat b3" and "65535 < n"
      by (auto simp: run_Ok combined3 Let_def split: if_splits)
    moreover from n have "n < 16777216"
      using u8_unat_lt [of b1] u8_unat_lt [of b2] u8_unat_lt [of b3] by linarith
    moreover note bytes3_split [OF n u8_unat_lt u8_unat_lt u8_unat_lt]
    ultimately show ?thesis using 4 by (simp add: r der_encode_length_3)
  next
    case 5
    with unf obtain b1 b2 b3 b4 where r1: "r1 = b1 # b2 # b3 # b4 # r'"
      and n: "n = 16777216 * unat b1 + 65536 * unat b2 + 256 * unat b3 + unat b4" and "16777215 < n"
      by (auto simp: run_Ok combined4 Let_def split: if_splits)
    moreover from n have "n < 4294967296"
      using u8_unat_lt [of b1] u8_unat_lt [of b2] u8_unat_lt [of b3] u8_unat_lt [of b4] by linarith
    moreover note bytes4_split [OF n u8_unat_lt u8_unat_lt u8_unat_lt u8_unat_lt]
    ultimately show ?thesis using 5 by (simp add: r der_encode_length_4)
  qed
qed

lemma read_length_iff: "read_length L r = (Ok n, r') \<longleftrightarrow> n < 2 ^ 32 \<and> r = der_encode_length n @ r'"
  using read_length_encode read_length_canonical by blast

section \<open>A tagged value is read exactly when it is canonically encoded\<close>

definition low_tag :: "u8 \<Rightarrow> bool" where
  "low_tag t \<longleftrightarrow> t AND HIGH_TAG_RANGE_START \<noteq> HIGH_TAG_RANGE_START"

lemma low_tag_tag_u8 [simp]: "low_tag (tag_u8 t)"
  by (cases t) (simp_all add: low_tag_def der_limits CONSTRUCTED_def CONTEXT_SPECIFIC_def)

lemma read_tag_iff:
  "read_tag_and_get_value_limited L n r = (Ok (t, v), r') \<longleftrightarrow>
     low_tag t \<and> length v < n \<and> length v < 2 ^ 32 \<and> r = der_encode t v @ r'"
  unfolding read_tag_and_get_value_limited_def low_tag_def der_encode_def
  by (auto simp: run_Ok read_length_iff not_le)

lemma expect_tag_limited_iff:
  "expect_tag_and_get_value_limited L t n r = (Ok v, r') \<longleftrightarrow>
     length v < n \<and> length v < 2 ^ 32 \<and> r = der_encode (tag_u8 t) v @ r'"
proof -
  have "expect_tag_and_get_value_limited L t n r = (Ok v, r') \<longleftrightarrow>
      (\<exists>a. read_tag_and_get_value_limited L n r = (Ok (a, v), r') \<and> tag_u8 t = a)"
    unfolding expect_tag_and_get_value_limited_def
    by (auto simp: run_Ok word_unat_eq_iff split: prod.splits if_splits)
  then show ?thesis by (auto simp: read_tag_iff)
qed

lemma expect_tag_eq: "expect_tag U t = expect_tag_and_get_value_limited U t TWO_BYTE_DER_SIZE"
  by (simp add: expect_tag_def expect_tag_and_get_value_limited_def)

lemma expect_tag_iff:
  "expect_tag L t r = (Ok v, r') \<longleftrightarrow> length v < 65535 \<and> r = der_encode (tag_u8 t) v @ r'"
  by (auto simp: expect_tag_eq expect_tag_limited_iff der_limits)

lemma read_tag_default_iff:
  "read_tag_and_get_value L r = (Ok (t, v), r') \<longleftrightarrow>
     low_tag t \<and> length v < 65535 \<and> r = der_encode t v @ r'"
  by (auto simp: read_tag_and_get_value_def read_tag_iff der_limits)

lemma nested_limited_iff:
  "nested_limited L t e p n r = (Ok y, r') \<longleftrightarrow>
     (\<exists>v. length v < n \<and> length v < 2 ^ 32 \<and> r = der_encode (tag_u8 t) v @ r' \<and> p v = (Ok y, []))"
  unfolding nested_limited_def by (auto simp: run_Ok expect_tag_limited_iff)

lemma nested_iff:
  "nested L t e p r = (Ok y, r') \<longleftrightarrow>
     (\<exists>v. length v < 65535 \<and> r = der_encode (tag_u8 t) v @ r' \<and> p v = (Ok y, []))"
  by (auto simp: nested_def nested_limited_iff der_limits)

lemmas der_Ok = expect_tag_limited_iff expect_tag_iff read_tag_default_iff read_tag_iff nested_limited_iff nested_iff

lemma der_encode_inj:
  assumes "der_encode t v @ r = der_encode t' v' @ r'"
    and "length v < 2 ^ 32" "length v' < 2 ^ 32"
  shows "t = t' \<and> v = v' \<and> r = r'"
proof -
  from assms(1) have t: "t = t'" and eq: "der_encode_length (length v) @ v @ r = der_encode_length (length v') @ v' @ r'"
    by (simp_all add: der_encode_def)
  have "(Ok (length v), v @ r) = (Ok (length v'), v' @ r')"
    using read_length_encode [OF assms(2), of "v @ r"] read_length_encode [OF assms(3), of "v' @ r'"]
    unfolding eq by (rule subst)
  then have "length v = length v'" "v @ r = v' @ r'" by simp_all
  with t show ?thesis by simp
qed

lemma der_encode_short: "length v < 128 \<Longrightarrow> der_encode t v = t # of_nat (length v) # v"
  by (simp add: der_encode_def der_encode_length_short)

lemma length_der_encode_length: "1 \<le> length (der_encode_length n)"
  by (simp add: der_encode_length_def Let_def)

lemma length_der_encode: "length v + 2 \<le> length (der_encode t v)"
  using length_der_encode_length [of "length v"] by (simp add: der_encode_def)

section \<open>The readers come to an end, and how far they read\<close>

lemma total_read_length [total_intros]: "total k (read_length L)"
  unfolding read_length_def by (intro total_intros)

lemma total_read_tag_limited [total_intros]: "total k (read_tag_and_get_value_limited L n)"
  unfolding read_tag_and_get_value_limited_def by (intro total_intros)

lemma total_read_tag [total_intros]: "total k (read_tag_and_get_value L)"
  unfolding read_tag_and_get_value_def by (intro total_intros)

lemma total_expect_tag_limited [total_intros]: "total k (expect_tag_and_get_value_limited L t n)"
  unfolding expect_tag_and_get_value_limited_def by (intro total_intros)

lemma total_expect_tag [total_intros]: "total k (expect_tag L t)"
  unfolding expect_tag_eq by (intro total_intros)

lemma total_nested_limited [total_intros]: "total k p \<Longrightarrow> total k (nested_limited L t e p n)"
  unfolding nested_limited_def by (intro total_intros)

lemma total_nested [total_intros]: "total k p \<Longrightarrow> total k (nested L t e p)"
  unfolding nested_def by (intro total_intros)

lemma raises_read_tag_limited [raises_intros]:
  "BadDer \<in> E \<Longrightarrow> raises E (read_tag_and_get_value_limited L n)"
  unfolding read_tag_and_get_value_limited_def read_length_def by (intro raises_intros)

lemma raises_expect_tag_limited [raises_intros]:
  "BadDer \<in> E \<Longrightarrow> raises E (expect_tag_and_get_value_limited L t n)"
  unfolding expect_tag_and_get_value_limited_def by (intro raises_intros)

lemma raises_expect_tag [raises_intros]: "BadDer \<in> E \<Longrightarrow> raises E (expect_tag L t)"
  unfolding expect_tag_eq by (intro raises_intros)

lemma raises_nested [raises_intros]: "e \<in> E \<Longrightarrow> raises E p \<Longrightarrow> raises E (nested L t e p)"
  unfolding nested_def nested_limited_def by (intro raises_intros)

lemma raises_bit_string_with_no_unused_bits [raises_intros]:
  "BadDer \<in> E \<Longrightarrow> TrailingData TypeId_BitString \<in> E \<Longrightarrow> raises E (bit_string_with_no_unused_bits L)"
  unfolding bit_string_with_no_unused_bits_def by (intro raises_intros)

lemma read_tag_shorter: "read_tag_and_get_value L r = (Ok x, r') \<Longrightarrow> length r' < length r"
  using length_der_encode [of "snd x" "fst x"] by (cases x) (auto simp: read_tag_default_iff)

lemma expect_tag_shorter: "expect_tag L t r = (Ok v, r') \<Longrightarrow> length r' < length r"
  using length_der_encode [of v "tag_u8 t"] by (auto simp: expect_tag_iff)

lemma nested_shorter: "nested L t e p r = (Ok v, r') \<Longrightarrow> length r' < length r"
  by (auto simp: nested_iff der_encode_def)

lemma nested_of_mut_progress:
  "progress (\<lambda>s. and_then (nested L t e (p s)) (\<lambda>s'. and_then (at_end L) (\<lambda>b. ok (if b then Inr s' else Inl s'))))"
  by (rule progressI) (auto simp: run_Ok at_end_run split: if_splits dest: nested_shorter)

lemma total_nested_of_mut [total_intros]:
  assumes "\<And>s. total k (p s)"
  shows "total k (nested_of_mut L t t' e p s)"
  unfolding nested_of_mut_def
  by (intro total_nested loop_total nested_of_mut_progress) (intro total_intros assms)

section \<open>Bit strings\<close>

lemma bit_string_with_no_unused_bits_iff:
  "bit_string_with_no_unused_bits L r = (Ok v, r') \<longleftrightarrow>
     length v < 65534 \<and> r = der_encode (tag_u8 Tag_BitString) (0 # v) @ r'"
proof -
  have "(and_then (read_byte_or L BadDer) (\<lambda>b. if b \<noteq> 0 then of_result (Err BadDer) else read_bytes_to_end L)) w =
      (Ok v, []) \<longleftrightarrow> w = 0 # v" for w
    by (cases w) (auto simp: run_simps)
  then show ?thesis
    unfolding bit_string_with_no_unused_bits_def by (auto simp: nested_iff)
qed

lemma total_bit_string_with_no_unused_bits [total_intros]: "total k (bit_string_with_no_unused_bits L)"
  unfolding bit_string_with_no_unused_bits_def by (intro total_intros)

text \<open>Bit \<open>n\<close> of a bit string, the most significant bit of the first octet being bit 0.\<close>

definition msb_bit :: "bytes \<Rightarrow> nat \<Rightarrow> bool" where
  "msb_bit bs n \<longleftrightarrow> n < 8 * length bs \<and> bit (bs ! (n div 8)) (7 - n mod 8)"

lemma bit_set_msb: "bit_set f n = msb_bit (raw_bits f) n"
proof -
  have "drop_bit k (b::u8) AND 1 \<noteq> 0 \<longleftrightarrow> bit b k" for b k
    by (simp add: and_one_eq bit_iff_odd_drop_bit odd_iff_mod_2_eq_one)
  moreover have "length (raw_bits f) < n div 8 + 1 \<longleftrightarrow> \<not> n < 8 * length (raw_bits f)"
    by auto
  ultimately show ?thesis
    by (auto simp: bit_set_def msb_bit_def Let_def)
qed

lemma bit_string_flags_run:
  "bit_string_flags L (p # raw) =
    (if p > 7 \<or> (raw = [] \<and> p \<noteq> 0) then Err BadDer
     else if raw = [] then Panic
     else if p > 0 \<and> last raw AND (push_bit (unat p) 1 - 1) \<noteq> 0 then Err BadDer
     else Ok \<lparr>raw_bits = raw\<rparr>)"
  by (simp add: bit_string_flags_def run_simps Let_def)

lemma bit_string_flags_Nil: "bit_string_flags L [] = Err BadDer"
  by (simp add: bit_string_flags_def run_simps)

lemma bit_string_flags_panic_iff: "bit_string_flags L bs = Panic \<longleftrightarrow> bs = [0]"
  by (cases bs) (auto simp: bit_string_flags_run bit_string_flags_Nil)

lemma bit_string_flags_fine: "fine (bs \<noteq> [0]) (bit_string_flags L bs)"
  by (cases bs) (auto simp: bit_string_flags_run bit_string_flags_Nil)

lemma padding_mask: "(b::u8) AND (2 ^ k - 1) = 0 \<longleftrightarrow> (\<forall>i < k. \<not> bit b i)"
proof -
  have "2 ^ k - 1 = (mask k :: u8)" by (simp add: mask_eq_exp_minus_1)
  then have "b AND (2 ^ k - 1) = take_bit k b" by (simp add: take_bit_eq_mask)
  moreover have "bit b i \<Longrightarrow> i < 8" for i using bit_imp_le_length [of b i] by simp
  ultimately show ?thesis by (auto simp: bit_eq_iff bit_take_bit_iff)
qed

lemma bit_string_flags_iff:
  "bit_string_flags L bs = Ok f \<longleftrightarrow>
     raw_bits f \<noteq> [] \<and> (\<exists>p \<le> 7. bs = of_nat p # raw_bits f \<and> (\<forall>i < p. \<not> bit (last (raw_bits f)) i))"
proof (cases bs)
  case (Cons a raw)
  have a7: "a > 7 \<longleftrightarrow> unat a > 7" by (simp add: word_less_nat_alt)
  have ex: "(\<exists>p\<le>7. a = of_nat p \<and> Q p) \<longleftrightarrow> unat a \<le> 7 \<and> Q (unat a)" for Q
    by (auto intro!: exI [of _ "unat a"])
  have "a = 0 \<Longrightarrow> unat a = 0" by simp
  then show ?thesis
    by (cases f) (auto simp: Cons bit_string_flags_run padding_mask a7 ex word_less_nat_alt split: if_splits)
qed (simp add: bit_string_flags_Nil)

section \<open>Integers and booleans\<close>

text \<open>The octets of a non-negative INTEGER: a zero octet in front when the first bit is set.\<close>

definition minimal_unsigned :: "bytes \<Rightarrow> bool" where
  "minimal_unsigned v \<longleftrightarrow> v = [0] \<or> v \<noteq> [] \<and> hd v \<noteq> 0"

definition integer_octets :: "bytes \<Rightarrow> bytes" where
  "integer_octets v = (if hd v \<ge> 0x80 then 0 # v else v)"

lemma high_bit_u8: "(b::u8) AND 0x80 = 0x80 \<longleftrightarrow> 0x80 \<le> b" "(b::u8) AND 0x80 = 0 \<longleftrightarrow> \<not> 0x80 \<le> b"
  by (rule all_u8I [where P = "\<lambda>b. b AND 0x80 = 0x80 \<longleftrightarrow> 0x80 \<le> b"], code_simp,
      rule all_u8I [where P = "\<lambda>b. b AND 0x80 = 0 \<longleftrightarrow> \<not> 0x80 \<le> b"], code_simp)

lemma nonnegative_integer_value:
  "(case w of [] \<Rightarrow> of_result (Err BadDer)
      | first # rest \<Rightarrow>
          if first = 0 then
            (case rest of [] \<Rightarrow> ok w
             | second # _ \<Rightarrow> if second AND 0x80 = 0x80 then ok rest else of_result (Err BadDer))
          else if first AND 0x80 = 0x00 then ok w else of_result (Err BadDer)) r1 = (Ok v, r') \<longleftrightarrow>
   r1 = r' \<and> minimal_unsigned v \<and> w = integer_octets v"
  by (cases w; cases "tl w")
    (auto simp: run_simps high_bit_u8 minimal_unsigned_def integer_octets_def split: if_splits)

lemma nonnegative_integer_iff:
  "nonnegative_integer L r = (Ok v, r') \<longleftrightarrow>
     minimal_unsigned v \<and> length (integer_octets v) < 65535 \<and>
     r = der_encode (tag_u8 Tag_Integer) (integer_octets v) @ r'"
  unfolding nonnegative_integer_def and_then_eq_Ok expect_tag_iff nonnegative_integer_value by auto

lemma total_nonnegative_integer [total_intros]: "total k (nonnegative_integer L)"
  unfolding nonnegative_integer_def by (intro total_intros)

lemma nonnegative_integer_shorter: "nonnegative_integer L r = (Ok v, r') \<Longrightarrow> length r' < length r"
  by (auto simp: nonnegative_integer_iff der_encode_def)

lemma u8_from_der_iff:
  "u8_from_der L r = (Ok b, r') \<longleftrightarrow> r = (if b < 128 then [2, 1, b] else [2, 2, 0, b]) @ r'"
proof -
  have v: "(case v of [] \<Rightarrow> of_result (Err BadDer) | b # rest \<Rightarrow>
       (case rest of [] \<Rightarrow> ok b | _ # _ \<Rightarrow> of_result (Err BadDer))) r1 = (Ok b, r') \<longleftrightarrow> v = [b] \<and> r1 = r'" for v r1
    by (cases v; cases "tl v") (auto simp: run_simps)
  have "minimal_unsigned [b]" by (simp add: minimal_unsigned_def)
  then show ?thesis
    unfolding u8_from_der_def and_then_eq_Ok nonnegative_integer_iff v
    by (auto simp: integer_octets_def der_encode_short not_less)
qed

lemma total_u8_from_der [total_intros]: "total k (u8_from_der L)"
  unfolding u8_from_der_def by (intro total_intros)

lemma total_bool_from_der [total_intros]: "total k (bool_from_der L)"
  unfolding bool_from_der_def by (intro total_intros)

lemma bool_value:
  "and_then (try_read_byte L) (\<lambda>b. if b = Some 0xff then ok True else if b = Some 0x00 then ok False
      else of_result (Err BadDer)) w = (Ok y, []) \<longleftrightarrow> w = (if y then [0xff] else [0])"
  by (cases w) (auto simp: run_simps)

lemma bool_from_der_iff:
  "bool_from_der L r = (Ok y, r') \<longleftrightarrow>
    (if r \<noteq> [] \<and> hd r = 1 then r = [1, 1, if y then 0xff else 0] @ r' else \<not> y \<and> r' = r)"
proof (cases "r \<noteq> [] \<and> hd r = 1")
  case True
  then have "peek L (tag_u8 Tag_Boolean) r = (Ok True, r)" by (cases r) (auto simp: run_simps)
  then have "bool_from_der L r = (Ok y, r') \<longleftrightarrow>
      (\<exists>v. length v < 65535 \<and> r = der_encode 1 v @ r' \<and> v = (if y then [0xff] else [0]))"
    unfolding bool_from_der_def and_then_eq_Ok [of "peek L (tag_u8 Tag_Boolean)"]
    by (auto simp: nested_iff bool_value)
  with True show ?thesis by (auto simp: der_encode_short)
next
  case False
  then have "peek L (tag_u8 Tag_Boolean) r = (Ok False, r)" by (cases r) (auto simp: run_simps)
  then have "bool_from_der L r = (Ok False, r)"
    by (simp add: bool_from_der_def and_then_run ok_run)
  with False show ?thesis by auto
qed

section \<open>Sequences of tagged values\<close>

fun decode_items :: "('s \<Rightarrow> (bytes, 's) parser) \<Rightarrow> 's \<Rightarrow> bytes list \<Rightarrow> 's option" where
  "decode_items p s [] = Some s"
| "decode_items p s (v # vs) = (case p s v of (Ok s', []) \<Rightarrow> decode_items p s' vs | _ \<Rightarrow> None)"

lemma decode_items_Cons:
  "decode_items p s (v # vs) = Some y \<longleftrightarrow> (\<exists>s'. p s v = (Ok s', []) \<and> decode_items p s' vs = Some y)"
  by (auto split: prod.splits result.splits list.splits)

definition items_octets :: "tag \<Rightarrow> bytes list \<Rightarrow> bytes" where
  "items_octets t vs = concat (map (der_encode (tag_u8 t)) vs)"

lemma items_body_iff:
  "and_then (nested L t e (p s)) (\<lambda>s'. and_then (at_end L) (\<lambda>b. ok (if b then Inr s' else Inl s'))) r = (Ok x, r1) \<longleftrightarrow>
    (\<exists>v s'. length v < 65535 \<and> r = der_encode (tag_u8 t) v @ r1 \<and> p s v = (Ok s', []) \<and>
      x = (if r1 = [] then Inr s' else Inl s'))"
  unfolding and_then_eq_Ok nested_iff at_end_run ok_eq_Ok by auto

lemma items_loop_iff:
  "loop L (\<lambda>s. and_then (nested L t e (p s)) (\<lambda>s'. and_then (at_end L) (\<lambda>b. ok (if b then Inr s' else Inl s')))) s r
      = (Ok y, r') \<longleftrightarrow>
    r' = [] \<and> (\<exists>vs. vs \<noteq> [] \<and> (\<forall>v \<in> set vs. length v < 65535) \<and> r = items_octets t vs \<and> decode_items p s vs = Some y)"
  (is "loop L ?body s r = _ \<longleftrightarrow> ?r s r")
  using nested_of_mut_progress [of t e p]
proof (induction s r rule: loop_induct)
  case (step s r)
  have "loop L ?body s r = (Ok y, r') \<longleftrightarrow>
      (\<exists>x r1. ?body s r = (Ok x, r1) \<and> (case x of Inl s' \<Rightarrow> loop L ?body s' | Inr y \<Rightarrow> ok y) r1 = (Ok y, r'))"
    by (subst loop_unfold [OF nested_of_mut_progress]) (rule and_then_eq_Ok)
  also have "\<dots> \<longleftrightarrow>
      (\<exists>v s' r1. length v < 65535 \<and> r = der_encode (tag_u8 t) v @ r1 \<and> p s v = (Ok s', []) \<and>
        (if r1 = [] then y = s' \<and> r' = [] else loop L ?body s' r1 = (Ok y, r')))" (is "?l \<longleftrightarrow> ?m")
  proof
    assume ?l
    then obtain x r1 where b: "?body s r = (Ok x, r1)"
      and c: "(case x of Inl s' \<Rightarrow> loop L ?body s' | Inr y \<Rightarrow> ok y) r1 = (Ok y, r')" by blast
    from b [unfolded items_body_iff] obtain v s' where "length v < 65535" "r = der_encode (tag_u8 t) v @ r1"
      "p s v = (Ok s', [])" "x = (if r1 = [] then Inr s' else Inl s')" by blast
    with c show ?m by (intro exI [of _ v] exI [of _ s'] exI [of _ r1]) (auto simp: ok_eq_Ok split: if_splits)
  next
    assume ?m
    then obtain v s' r1 where *: "length v < 65535" "r = der_encode (tag_u8 t) v @ r1" "p s v = (Ok s', [])"
      "if r1 = [] then y = s' \<and> r' = [] else loop L ?body s' r1 = (Ok y, r')" by blast
    then have "?body s r = (Ok (if r1 = [] then Inr s' else Inl s'), r1)" unfolding items_body_iff by blast
    with *(4) show ?l by (cases "r1 = []") (auto simp: ok_eq_Ok)
  qed
  also have "\<dots> \<longleftrightarrow>
      (\<exists>v s' r1. length v < 65535 \<and> r = der_encode (tag_u8 t) v @ r1 \<and> p s v = (Ok s', []) \<and>
        (if r1 = [] then y = s' \<and> r' = [] else ?r s' r1))"
  proof -
    have "loop L ?body s' r1 = (Ok y, r') \<longleftrightarrow> ?r s' r1"
      if "length v < 65535" "r = der_encode (tag_u8 t) v @ r1" "p s v = (Ok s', [])" "r1 \<noteq> []" for v s' r1
    proof (rule step)
      from that show "?body s r = (Ok (Inl s'), r1)"
        unfolding items_body_iff by auto
    qed
    then show ?thesis by (intro ex_cong1 conj_cong if_cong refl) blast
  qed
  also have "\<dots> \<longleftrightarrow> ?r s r"
  proof
    assume "\<exists>v s' r1. length v < 65535 \<and> r = der_encode (tag_u8 t) v @ r1 \<and> p s v = (Ok s', []) \<and>
        (if r1 = [] then y = s' \<and> r' = [] else ?r s' r1)"
    then obtain v s' r1 where *: "length v < 65535" "r = der_encode (tag_u8 t) v @ r1" "p s v = (Ok s', [])"
      "if r1 = [] then y = s' \<and> r' = [] else ?r s' r1" by blast
    show "?r s r"
    proof (cases "r1 = []")
      case True
      with * show ?thesis by (auto simp: items_octets_def intro!: exI [of _ "[v]"])
    next
      case False
      with * obtain vs where "vs \<noteq> []" "\<forall>v \<in> set vs. length v < 65535" "r1 = items_octets t vs"
        "decode_items p s' vs = Some y" "r' = []" by auto
      with * show ?thesis by (intro conjI exI [of _ "v # vs"]) (auto simp: items_octets_def)
    qed
  next
    assume "?r s r"
    then obtain v vs where *: "r' = []" "\<forall>v \<in> set (v # vs). length v < 65535" "r = items_octets t (v # vs)"
      "decode_items p s (v # vs) = Some y" by (metis list.exhaust)
    from *(4) obtain s' where s': "p s v = (Ok s', [])" "decode_items p s' vs = Some y" unfolding decode_items_Cons by blast
    have "items_octets t vs = [] \<longleftrightarrow> vs = []" by (cases vs) (auto simp: items_octets_def der_encode_def)
    with * s' show "\<exists>v s' r1. length v < 65535 \<and> r = der_encode (tag_u8 t) v @ r1 \<and> p s v = (Ok s', []) \<and>
        (if r1 = [] then y = s' \<and> r' = [] else ?r s' r1)"
      by (intro exI [of _ v] exI [of _ s'] exI [of _ "items_octets t vs"]) (auto simp: items_octets_def)
  qed
  finally show ?case .
qed

lemma nested_of_mut_iff:
  "nested_of_mut L t t' e p s r = (Ok y, r') \<longleftrightarrow>
    (\<exists>vs. vs \<noteq> [] \<and> (\<forall>v \<in> set vs. length v < 65535) \<and> length (items_octets t' vs) < 65535 \<and>
      r = der_encode (tag_u8 t) (items_octets t' vs) @ r' \<and> decode_items p s vs = Some y)"
  unfolding nested_of_mut_def nested_iff items_loop_iff by auto

section \<open>Properties\<close>

text \<open>C20: a tagged value is read exactly when the octets in front of the reader are its canonical
  encoding: a low tag number, the shortest possible length octets, and as many value octets, fewer
  than the caller's limit. The reader is left right behind the value.\<close>

theorem read_tag_canonical:
  assumes "untrusted_reader U rest later"
  shows "(\<exists>r'. read_tag_and_get_value_limited U n r = (Ok (t, v), r') \<and> rest r' = bs) \<longleftrightarrow>
    low_tag t \<and> length v < n \<and> length v < 2 ^ 32 \<and> rest r = der_encode t v @ bs"
  unfolding untrusted_reader.follows_iff [OF assms untrusted_reader.read_tag_limited_sim [OF assms]]
  by (rule read_tag_iff)

theorem read_tag_canonical_witness:
  "(\<exists>r'. read_tag_and_get_value_limited list_reader 10 [4, 1, 7, 9] = (Ok (4, [7]), r') \<and> r' = [9]) \<longleftrightarrow>
    low_tag 4 \<and> [4, 1, 7, 9] = der_encode 4 [7] @ [9]"
  using read_tag_canonical [OF lr.untrusted_reader_axioms, of 10 "[4, 1, 7, 9]" 4 "[7]" "[9]"] by simp

text \<open>C39: an integer is read exactly when it is the canonical encoding of a number that is not negative: no superfluous leading
  zero, and a zero octet in front when the first bit of the number is set. The octets of the number are given without that zero.\<close>

theorem integer_exact:
  assumes "untrusted_reader U rest later"
  shows "(\<exists>r'. nonnegative_integer U r = (Ok v, r') \<and> rest r' = bs) \<longleftrightarrow>
    minimal_unsigned v \<and> length (integer_octets v) < 65535 \<and> rest r = der_encode 2 (integer_octets v) @ bs"
  using nonnegative_integer_iff [of "rest r" v bs]
  unfolding untrusted_reader.follows_iff [OF assms untrusted_reader.nonnegative_integer_sim [OF assms]] by simp

theorem integer_exact_witness:
  "\<exists>r'. nonnegative_integer list_reader [2, 2, 0, 0x80, 9] = (Ok [0x80], r') \<and> r' = [9]"
  using integer_exact [OF lr.untrusted_reader_axioms, of "[2, 2, 0, 0x80, 9]" "[0x80]" "[9]"]
  by (simp add: minimal_unsigned_def integer_octets_def der_encode_short)

text \<open>C31: a bit string of flags is accepted exactly when it has at least one octet of flags, at most seven unused bits, and these are
  zero. A flag is looked up from the most significant bit of the first octet on, and is false behind the end. The one
  input on which the function panics is the single octet 0, an empty bit string.\<close>

theorem bit_flags_exact:
  assumes "untrusted_reader U rest later"
  shows "(bit_string_flags U bs = Ok f \<longleftrightarrow>
      raw_bits f \<noteq> [] \<and> (\<exists>p \<le> 7. bs = of_nat p # raw_bits f \<and> (\<forall>i < p. \<not> bit (last (raw_bits f)) i))) \<and>
    (bit_set f n \<longleftrightarrow> n < 8 * length (raw_bits f) \<and> bit (raw_bits f ! (n div 8)) (7 - n mod 8)) \<and>
    (bit_string_flags U bs = Panic \<longleftrightarrow> bs = [0])"
  unfolding untrusted_reader.bit_string_flags_indep [OF assms]
  using bit_string_flags_iff [of bs f] bit_string_flags_panic_iff [of bs] bit_set_msb [of f n] by (simp add: msb_bit_def)

theorem bit_flags_exact_witness:
  "bit_string_flags list_reader [1, 2] = Ok \<lparr>raw_bits = [2]\<rparr> \<and> bit_set \<lparr>raw_bits = [2]\<rparr> 6 \<and> bit_string_flags list_reader [0] = Panic"
proof -
  have "\<exists>p \<le> 7. [1, 2 :: u8] = of_nat p # [2] \<and> (\<forall>i < p. \<not> bit (2 :: u8) i)"
    by (intro exI [of _ 1]) simp
  then show ?thesis
    using bit_flags_exact [OF lr.untrusted_reader_axioms, of "[1, 2]" "\<lparr>raw_bits = [2]\<rparr>" 6]
      bit_flags_exact [OF lr.untrusted_reader_axioms, of "[0]"] by simp
qed

end
