(* ===== verification/Cert_Time.thy ===== *)
theory Cert_Time
  imports Der
begin

text \<open>
  Certificate times (\<^verbatim>\<open>src/time.rs\<close>): the UTCTime and GeneralizedTime readers and the conversion to a
  UNIX timestamp, on 64-bit machine integers. The lemmas show that the conversion is the Gregorian
  calendar computed without overflow, that it preserves the order of dates, and which octet strings
  are accepted.
\<close>

unbundle bit_operations_syntax

section \<open>Conversion to a UNIX timestamp\<close>

text \<open>\<^verbatim>\<open>struct Time(u64)\<close>: seconds since the start of 1970, ordered as numbers.\<close>

type_synonym Time = u64

definition from_seconds_since_unix_epoch :: "u64 \<Rightarrow> Time" where
  "from_seconds_since_unix_epoch secs = secs"

definition UNIX_EPOCH_YEAR :: u64 where "UNIX_EPOCH_YEAR = 1970"

definition DAYS_BEFORE_UNIX_EPOCH_AD :: u64 where "DAYS_BEFORE_UNIX_EPOCH_AD = 1969 * 365 + 477"

definition days_in_feb :: "u64 \<Rightarrow> u64" where
  "days_in_feb year =
    (if year mod 4 = 0 \<and> (year mod 100 \<noteq> 0 \<or> year mod 400 = 0) then 29 else 28)"

text \<open>\<^verbatim>\<open>unreachable!()\<close> is a panic.\<close>

definition days_in_month :: "u64 \<Rightarrow> u64 \<Rightarrow> u64 result" where
  "days_in_month year month =
    (if month \<in> {1, 3, 5, 7, 8, 10, 12} then Ok 31
     else if month \<in> {4, 6, 9, 11} then Ok 30
     else if month = 2 then Ok (days_in_feb year)
     else Panic)"

definition days_before_year_ad :: "u64 \<Rightarrow> u64" where
  "days_before_year_ad year =
    ((year - 1) * 365) + ((year - 1) div 4) - ((year - 1) div 100) + ((year - 1) div 400)"

definition days_before_year_since_unix_epoch :: "u64 \<Rightarrow> u64 result" where
  "days_before_year_since_unix_epoch year =
    (if year < UNIX_EPOCH_YEAR then Err BadDerTime
     else let days = days_before_year_ad year in
       if days \<ge> DAYS_BEFORE_UNIX_EPOCH_AD then Ok (days - DAYS_BEFORE_UNIX_EPOCH_AD)
       else Panic)"

definition days_before_month_in_year :: "u64 \<Rightarrow> u64 \<Rightarrow> u64 result" where
  "days_before_month_in_year year month =
    (let JAN = 31; feb = days_in_feb year; MAR = 31; APR = 30; MAY = 31; JUN = 30;
         JUL = 31; AUG = 31; SEP = 30; OCT = 31; NOV = 30 in
     if month = 1 then Ok 0
     else if month = 2 then Ok JAN
     else if month = 3 then Ok (JAN + feb)
     else if month = 4 then Ok (JAN + feb + MAR)
     else if month = 5 then Ok (JAN + feb + MAR + APR)
     else if month = 6 then Ok (JAN + feb + MAR + APR + MAY)
     else if month = 7 then Ok (JAN + feb + MAR + APR + MAY + JUN)
     else if month = 8 then Ok (JAN + feb + MAR + APR + MAY + JUN + JUL)
     else if month = 9 then Ok (JAN + feb + MAR + APR + MAY + JUN + JUL + AUG)
     else if month = 10 then Ok (JAN + feb + MAR + APR + MAY + JUN + JUL + AUG + SEP)
     else if month = 11 then Ok (JAN + feb + MAR + APR + MAY + JUN + JUL + AUG + SEP + OCT)
     else if month = 12 then Ok (JAN + feb + MAR + APR + MAY + JUN + JUL + AUG + SEP + OCT + NOV)
     else Panic)"

definition time_from_ymdhms_utc ::
    "u64 \<Rightarrow> u64 \<Rightarrow> u64 \<Rightarrow> u64 \<Rightarrow> u64 \<Rightarrow> u64 \<Rightarrow> Time result" where
  "time_from_ymdhms_utc year month day_of_month hours minutes seconds =
    res_bind (days_before_year_since_unix_epoch year) (\<lambda>days_year.
    res_bind (days_before_month_in_year year month) (\<lambda>days_month.
      let days_before = days_year + days_month + day_of_month - 1;
          seconds_since_unix_epoch =
            (days_before * 24 * 60 * 60) + (hours * 60 * 60) + (minutes * 60) + seconds in
      Ok (from_seconds_since_unix_epoch seconds_since_unix_epoch)))"

section \<open>Reading a time\<close>

definition read_digit :: "'r untrusted \<Rightarrow> ('r, u64) parser" where
  "read_digit U =
    and_then (read_byte_or U BadDerTime) (\<lambda>b.
      if 0x30 \<le> b \<and> b \<le> 0x39 then ok (ucast (b - 0x30)) else of_result (Err BadDerTime))"

definition read_two_digits :: "'r untrusted \<Rightarrow> u64 \<Rightarrow> u64 \<Rightarrow> ('r, u64) parser" where
  "read_two_digits U lo_bound hi_bound =
    and_then (read_digit U) (\<lambda>hi.
    and_then (read_digit U) (\<lambda>lo.
      let value = (hi * 10) + lo in
      if value < lo_bound \<or> value > hi_bound then of_result (Err BadDerTime) else ok value))"

definition read_year :: "'r untrusted \<Rightarrow> bool \<Rightarrow> ('r, u64) parser" where
  "read_year U is_utc_time =
    (if is_utc_time then
       and_then (read_two_digits U 0 99) (\<lambda>lo.
         let hi = (if lo \<ge> 50 then 19 else 20) in ok ((hi * 100) + lo))
     else
       and_then (read_two_digits U 0 99) (\<lambda>hi.
       and_then (read_two_digits U 0 99) (\<lambda>lo. ok ((hi * 100) + lo))))"

definition time_from_der :: "'r untrusted \<Rightarrow> ('r, Time) parser" where
  "time_from_der U =
    and_then (peek U (tag_u8 Tag_UTCTime)) (\<lambda>is_utc_time.
      let expected_tag = (if is_utc_time then Tag_UTCTime else Tag_GeneralizedTime) in
      nested U expected_tag (TrailingData TypeId_Time)
        (and_then (read_year U is_utc_time) (\<lambda>year.
         and_then (read_two_digits U 1 12) (\<lambda>month.
         and_then (of_result (days_in_month year month)) (\<lambda>days_in_month.
         and_then (read_two_digits U 1 days_in_month) (\<lambda>day_of_month.
         and_then (read_two_digits U 0 23) (\<lambda>hours.
         and_then (read_two_digits U 0 59) (\<lambda>minutes.
         and_then (read_two_digits U 0 59) (\<lambda>seconds.
         and_then (read_byte_or U BadDerTime) (\<lambda>time_zone.
           if time_zone \<noteq> 0x5A then of_result (Err BadDerTime)
           else of_result (time_from_ymdhms_utc year month day_of_month hours minutes seconds)))))))))))"

context untrusted_reader
begin

lemma read_two_digits_sim [sim_intros]: "follows (read_two_digits U a b) (read_two_digits L a b)"
  unfolding read_two_digits_def read_digit_def by (intro sim_intros refl)

lemma time_from_der_sim [sim_intros]: "follows (time_from_der U) (time_from_der L)"
  unfolding time_from_der_def read_year_def by (intro sim_intros refl)

end

section \<open>The Gregorian calendar\<close>

definition leap_year :: "nat \<Rightarrow> bool" where
  "leap_year y \<longleftrightarrow> (4 dvd y \<and> \<not> 100 dvd y) \<or> 400 dvd y"

definition year_length :: "nat \<Rightarrow> nat" where
  "year_length y = (if leap_year y then 366 else 365)"

definition month_length :: "nat \<Rightarrow> nat \<Rightarrow> nat" where
  "month_length y m =
    (if m = 2 then (if leap_year y then 29 else 28) else if m \<in> {4, 6, 9, 11} then 30 else 31)"

definition epoch_days :: "nat \<Rightarrow> nat \<Rightarrow> nat \<Rightarrow> nat" where
  "epoch_days y m d = (\<Sum>k = 1970..<y. year_length k) + (\<Sum>j = 1..<m. month_length y j) + (d - 1)"

definition epoch_seconds :: "nat \<Rightarrow> nat \<Rightarrow> nat \<Rightarrow> nat \<Rightarrow> nat \<Rightarrow> nat \<Rightarrow> nat" where
  "epoch_seconds y m d h mi s = epoch_days y m d * 86400 + h * 3600 + mi * 60 + s"

definition valid_date :: "nat \<Rightarrow> nat \<Rightarrow> nat \<Rightarrow> nat \<Rightarrow> nat \<Rightarrow> nat \<Rightarrow> bool" where
  "valid_date y m d h mi s \<longleftrightarrow> 1970 \<le> y \<and> y \<le> 9999 \<and> 1 \<le> m \<and> m \<le> 12 \<and>
     1 \<le> d \<and> d \<le> month_length y m \<and> h \<le> 23 \<and> mi \<le> 59 \<and> s \<le> 59"

lemma year_length_cases: "365 \<le> year_length y" "year_length y \<le> 366"
  by (simp_all add: year_length_def)

lemma month_length_le: "month_length y m \<le> 31" "28 \<le> month_length y m"
  by (simp_all add: month_length_def)

definition nat_days_before :: "nat \<Rightarrow> nat" where
  "nat_days_before y = (y - 1) * 365 + (y - 1) div 4 - (y - 1) div 100 + (y - 1) div 400"

lemma nat_days_before_step:
  assumes "1 \<le> y"
  shows "nat_days_before (Suc y) = nat_days_before y + year_length y"
proof -
  obtain z where z: "y = Suc z" using assms by (cases y) auto
  have d: "Suc z div k = z div k + (if k dvd Suc z then 1 else 0)" if "0 < k" for k
    using that by (simp add: div_Suc dvd_eq_mod_eq_0)
  have "z div 100 \<le> z div 4" by (rule div_le_mono2) auto
  moreover have "400 dvd Suc z \<Longrightarrow> 100 dvd Suc z" "100 dvd Suc z \<Longrightarrow> 4 dvd Suc z"
    by presburger+
  ultimately show ?thesis
    by (auto simp: nat_days_before_def z d year_length_def leap_year_def) linarith+
qed

lemma nat_days_before_sum: "1970 \<le> y \<Longrightarrow> nat_days_before y = 719162 + (\<Sum>k = 1970..<y. year_length k)"
proof (induction y rule: dec_induct)
  case base
  show ?case by (simp add: nat_days_before_def)
next
  case (step n)
  then show ?case by (simp add: nat_days_before_step)
qed

lemma of_nat_word_div: "a < 2 ^ 64 \<Longrightarrow> b < 2 ^ 64 \<Longrightarrow> (of_nat a :: u64) div of_nat b = of_nat (a div b)"
  by (simp add: word_arith_nat_div unat_of_nat)

lemma of_nat_word_mod: "a < 2 ^ 64 \<Longrightarrow> b < 2 ^ 64 \<Longrightarrow> (of_nat a :: u64) mod of_nat b = of_nat (a mod b)"
  by (simp add: word_arith_nat_mod unat_of_nat)

lemma of_nat_eq_u64: "a < 2 ^ 64 \<Longrightarrow> b < 2 ^ 64 \<Longrightarrow> (of_nat a :: u64) = of_nat b \<longleftrightarrow> a = b"
  by (simp add: word_unat_eq_iff unat_of_nat)

lemma days_in_feb_of_nat: "y \<le> 9999 \<Longrightarrow> days_in_feb (of_nat y) = of_nat (month_length y 2)"
proof -
  assume y: "y \<le> 9999"
  have m: "(of_nat y :: u64) mod 4 = of_nat (y mod 4)" "(of_nat y :: u64) mod 100 = of_nat (y mod 100)"
    "(of_nat y :: u64) mod 400 = of_nat (y mod 400)"
    using of_nat_word_mod [of y 4] of_nat_word_mod [of y 100] of_nat_word_mod [of y 400] y by simp_all
  have z: "((of_nat (y mod k) :: u64) = 0) = (k dvd y)" if "0 < k" "k \<le> 400" for k
  proof -
    have "y mod k \<le> y" by simp
    with y have "y mod k \<le> 9999" by linarith
    then have "y mod k < 2 ^ 64" by (rule le_less_trans) simp
    then show ?thesis using of_nat_eq_u64 [of "y mod k" 0] by (simp add: dvd_eq_mod_eq_0)
  qed
  have "400 dvd y \<Longrightarrow> 4 dvd y" by (rule dvd_trans [of 4 400]) simp
  with z [of 4] z [of 100] z [of 400] show ?thesis
    unfolding days_in_feb_def m month_length_def leap_year_def by (simp split: if_split)
qed

lemma days_before_year_ad_of_nat:
  assumes "1 \<le> y" "y \<le> 9999"
  shows "days_before_year_ad (of_nat y) = of_nat (nat_days_before y)"
proof -
  obtain z where z: "y = Suc z" using assms by (cases y) auto
  have "(z div 100) \<le> z * 365 + z div 4" by (rule le_trans [OF div_le_mono2 [of 4 100]]) auto
  moreover have "(of_nat z :: u64) div 4 = of_nat (z div 4)" "(of_nat z :: u64) div 100 = of_nat (z div 100)"
    "(of_nat z :: u64) div 400 = of_nat (z div 400)"
    using of_nat_word_div [of z 4] of_nat_word_div [of z 100] of_nat_word_div [of z 400] assms z by simp_all
  ultimately show ?thesis
    by (simp add: days_before_year_ad_def nat_days_before_def z of_nat_diff)
qed

lemma days_before_year_since_unix_epoch_of_nat:
  assumes "y \<le> 9999"
  shows "days_before_year_since_unix_epoch (of_nat y) =
    (if y < 1970 then Err BadDerTime else Ok (of_nat (\<Sum>k = 1970..<y. year_length k)))"
proof -
  have lt: "(of_nat y :: u64) < UNIX_EPOCH_YEAR \<longleftrightarrow> y < 1970"
    using assms by (simp add: UNIX_EPOCH_YEAR_def word_less_nat_alt unat_of_nat)
  show ?thesis
  proof (cases "y < 1970")
    case True
    with lt show ?thesis by (simp add: days_before_year_since_unix_epoch_def)
  next
    case False
    define n where "n = (\<Sum>k = 1970..<y. year_length k)"
    have "n \<le> (\<Sum>k = 1970..<y. 366)" unfolding n_def by (rule sum_mono) (rule year_length_cases)
    also have "\<dots> \<le> 366 * 9999" using assms by simp
    finally have bound: "n \<le> 366 * 9999" .
    have "nat_days_before y = 719162 + n" using False by (simp add: nat_days_before_sum n_def)
    then have *: "days_before_year_ad (of_nat y) = 719162 + of_nat n"
      using False assms by (simp add: days_before_year_ad_of_nat)
    moreover have "(719162 :: u64) \<le> 719162 + of_nat n"
      using bound by (simp add: word_le_nat_alt unat_word_ariths unat_of_nat)
    ultimately show ?thesis
      using False lt by (simp add: days_before_year_since_unix_epoch_def DAYS_BEFORE_UNIX_EPOCH_AD_def Let_def
          flip: n_def)
  qed
qed

lemma month_cases:
  assumes "1 \<le> m" "m \<le> (12::nat)"
  obtains "m = 1" | "m = 2" | "m = 3" | "m = 4" | "m = 5" | "m = 6" | "m = 7" | "m = 8" | "m = 9"
    | "m = 10" | "m = 11" | "m = 12"
proof -
  have "m = 1 \<or> m = 2 \<or> m = 3 \<or> m = 4 \<or> m = 5 \<or> m = 6 \<or> m = 7 \<or> m = 8 \<or> m = 9 \<or> m = 10 \<or> m = 11 \<or> m = 12"
    using assms by presburger
  then show thesis using that by blast
qed

lemma days_in_month_of_nat:
  assumes "y \<le> 9999" "1 \<le> m" "m \<le> 12"
  shows "days_in_month (of_nat y) (of_nat m) = Ok (of_nat (month_length y m))"
  using assms(2,3)
proof (cases rule: month_cases)
qed (simp_all add: days_in_month_def month_length_def days_in_feb_of_nat assms)

lemma days_before_month_of_nat:
  assumes "y \<le> 9999" "1 \<le> m" "m \<le> 12"
  shows "days_before_month_in_year (of_nat y) (of_nat m) = Ok (of_nat (\<Sum>j = 1..<m. month_length y j))"
  using assms(2,3)
proof (cases rule: month_cases)
qed (simp_all add: days_before_month_in_year_def days_in_feb_of_nat assms Let_def
    atLeastLessThan_nat_numeral month_length_def)


lemma year_sum_bound: "(\<Sum>k = 1970..<y. year_length k) \<le> 366 * y"
proof -
  have "(\<Sum>k = 1970..<y. year_length k) \<le> (\<Sum>k = 1970..<y. 366)"
    by (rule sum_mono) (rule year_length_cases)
  then show ?thesis by simp
qed

lemma month_sum_year: "(\<Sum>j = 1..<13. month_length y j) = year_length y"
  by (simp add: atLeastLessThan_nat_numeral month_length_def year_length_def)

lemma day_of_year_bound:
  assumes "m \<le> 12" "1 \<le> m" "d \<le> month_length y m"
  shows "(\<Sum>j = 1..<m. month_length y j) + d \<le> (\<Sum>j = 1..<Suc m. month_length y j)"
    and "(\<Sum>j = 1..<Suc m. month_length y j) \<le> year_length y"
proof -
  show "(\<Sum>j = 1..<m. month_length y j) + d \<le> (\<Sum>j = 1..<Suc m. month_length y j)"
    using assms by simp
  have "(\<Sum>j = 1..<Suc m. month_length y j) \<le> (\<Sum>j = 1..<13. month_length y j)"
    using assms by (intro sum_mono2) auto
  then show "(\<Sum>j = 1..<Suc m. month_length y j) \<le> year_length y"
    by (simp only: month_sum_year)
qed

lemma epoch_days_bound:
  assumes "valid_date y m d h mi s"
  shows "epoch_days y m d < (\<Sum>k = 1970..<Suc y. year_length k)"
proof -
  from assms have m: "1 \<le> m" "m \<le> 12" "1 \<le> d" "d \<le> month_length y m" and y: "1970 \<le> y"
    by (simp_all add: valid_date_def)
  from day_of_year_bound [OF m(2,1,4)] m(3)
  have "(\<Sum>j = 1..<m. month_length y j) + (d - 1) < year_length y" by linarith
  with y show ?thesis by (simp add: epoch_days_def)
qed

lemma epoch_seconds_bound:
  assumes "valid_date y m d h mi s"
  shows "epoch_seconds y m d h mi s < 2 ^ 39"
proof -
  have "epoch_days y m d < 366 * Suc y"
    by (rule less_le_trans [OF epoch_days_bound [OF assms] year_sum_bound])
  moreover from assms have b: "y \<le> 9999" "h \<le> 23" "mi \<le> 59" "s \<le> 59" by (simp_all add: valid_date_def)
  moreover from b(1) have "366 * Suc y \<le> 366 * 10000" by (intro mult_le_mono) auto
  ultimately have "epoch_days y m d < 3660000" by simp
  with b show ?thesis unfolding epoch_seconds_def by simp
qed

lemma time_from_ymdhms_utc_of_nat:
  assumes "y \<le> 9999" "1 \<le> m" "m \<le> 12" "1 \<le> d"
  shows "time_from_ymdhms_utc (of_nat y) (of_nat m) (of_nat d) (of_nat h) (of_nat mi) (of_nat s) =
    (if y < 1970 then Err BadDerTime else Ok (of_nat (epoch_seconds y m d h mi s)))"
proof (cases "y < 1970")
  case True
  with assms show ?thesis
    by (simp add: time_from_ymdhms_utc_def days_before_year_since_unix_epoch_of_nat)
next
  case False
  obtain e where d: "d = Suc e" using assms by (cases d) auto
  define a where "a = (\<Sum>k = 1970..<y. year_length k)"
  define b where "b = (\<Sum>j = 1..<m. month_length y j)"
  have "days_before_year_since_unix_epoch (of_nat y) = Ok (of_nat a)"
    using False assms by (simp add: days_before_year_since_unix_epoch_of_nat a_def)
  moreover have "days_before_month_in_year (of_nat y) (of_nat m) = Ok (of_nat b)"
    using assms by (simp only: days_before_month_of_nat b_def)
  moreover have "epoch_days y m d = a + b + e"
    by (simp add: epoch_days_def a_def b_def d)
  ultimately show ?thesis
    using False by (simp add: time_from_ymdhms_utc_def epoch_seconds_def from_seconds_since_unix_epoch_def d algebra_simps)
qed

text \<open>The order of dates: year first, seconds last.\<close>

fun date_less :: "nat list \<Rightarrow> nat list \<Rightarrow> bool" where
  "date_less (a # as) (b # bs) \<longleftrightarrow> a < b \<or> a = b \<and> date_less as bs"
| "date_less _ _ \<longleftrightarrow> False"

lemma epoch_days_less:
  assumes "valid_date y m d h mi s" "valid_date y' m' d' h' mi' s'"
    and "date_less [y, m, d] [y', m', d']"
  shows "epoch_days y m d < epoch_days y' m' d'"
proof -
  consider "y < y'" | "y = y'" "m < m'" | "y = y'" "m = m'" "d < d'" using assms(3) by auto
  then show ?thesis
  proof cases
    case 1
    have "epoch_days y m d < (\<Sum>k = 1970..<Suc y. year_length k)" by (rule epoch_days_bound [OF assms(1)])
    also have "\<dots> \<le> (\<Sum>k = 1970..<y'. year_length k)" using 1 by (intro sum_mono2) auto
    finally show ?thesis by (simp add: epoch_days_def)
  next
    case 2
    have "(\<Sum>j = 1..<m. month_length y j) + d \<le> (\<Sum>j = 1..<Suc m. month_length y j)"
      using assms(1) by (intro day_of_year_bound) (auto simp: valid_date_def)
    also have "\<dots> \<le> (\<Sum>j = 1..<m'. month_length y j)" using 2 by (intro sum_mono2) auto
    finally have "(\<Sum>j = 1..<m. month_length y j) + d \<le> (\<Sum>j = 1..<m'. month_length y j)" .
    moreover from assms(1,2) have "1 \<le> d" "1 \<le> d'" by (simp_all add: valid_date_def)
    ultimately show ?thesis unfolding epoch_days_def 2 by linarith
  next
    case 3
    moreover from assms(1) have "1 \<le> d" by (simp add: valid_date_def)
    ultimately show ?thesis unfolding epoch_days_def 3 by linarith
  qed
qed

lemma epoch_seconds_less:
  assumes "valid_date y m d h mi s" "valid_date y' m' d' h' mi' s'"
    and "date_less [y, m, d, h, mi, s] [y', m', d', h', mi', s']"
  shows "epoch_seconds y m d h mi s < epoch_seconds y' m' d' h' mi' s'"
proof -
  from assms(1,2) have b: "h \<le> 23" "mi \<le> 59" "s \<le> 59" "h' \<le> 23" "mi' \<le> 59" "s' \<le> 59"
    by (simp_all add: valid_date_def)
  show ?thesis
proof (cases "date_less [y, m, d] [y', m', d']")
  case True
  then have "epoch_days y m d < epoch_days y' m' d'" by (intro epoch_days_less [OF assms(1,2)])
  with b show ?thesis unfolding epoch_seconds_def by linarith
next
  case False
  with assms(3) have "y = y'" "m = m'" "d = d'" and "h < h' \<or> h = h' \<and> (mi < mi' \<or> mi = mi' \<and> s < s')"
    by auto
  then consider "h < h'" | "h = h'" "mi < mi'" | "h = h'" "mi = mi'" "s < s'" by blast
  then have "h * 3600 + mi * 60 + s < h' * 3600 + mi' * 60 + s'" by cases (use b in linarith)+
  then show ?thesis unfolding epoch_seconds_def \<open>y = y'\<close> \<open>m = m'\<close> \<open>d = d'\<close> by simp
qed
qed

lemma epoch_seconds_less_iff:
  assumes "valid_date y m d h mi s" "valid_date y' m' d' h' mi' s'"
  shows "epoch_seconds y m d h mi s < epoch_seconds y' m' d' h' mi' s' \<longleftrightarrow>
    date_less [y, m, d, h, mi, s] [y', m', d', h', mi', s']"
proof
  assume l: "epoch_seconds y m d h mi s < epoch_seconds y' m' d' h' mi' s'"
  show "date_less [y, m, d, h, mi, s] [y', m', d', h', mi', s']"
  proof (rule ccontr)
    assume "\<not> ?thesis"
    then have "[y, m, d, h, mi, s] = [y', m', d', h', mi', s'] \<or> date_less [y', m', d', h', mi', s'] [y, m, d, h, mi, s]"
      by auto
    with l epoch_seconds_less [OF assms(2,1)] show False by auto
  qed
qed (rule epoch_seconds_less [OF assms])

section \<open>Which octets are a time\<close>

text \<open>Two decimal digits.\<close>

definition digits2 :: "nat \<Rightarrow> bytes" where
  "digits2 n = [0x30 + of_nat (n div 10), 0x30 + of_nat (n mod 10)]"

definition time_tail :: "nat \<Rightarrow> nat \<Rightarrow> nat \<Rightarrow> nat \<Rightarrow> nat \<Rightarrow> bytes" where
  "time_tail m d h mi s = digits2 m @ digits2 d @ digits2 h @ digits2 mi @ digits2 s @ [0x5A]"

lemma read_digit_reads:
  "read_digit L r = (Ok v, r') \<longleftrightarrow> (\<exists>d. d < 10 \<and> v = of_nat d \<and> r = [0x30 + of_nat d] @ r')"
proof -
  have u: "(ucast (of_nat d :: u8) :: u64) = of_nat d" if "d < 10" for d
    using that by (simp add: unsigned_of_nat take_bit_nat_eq_self)
  show ?thesis unfolding read_digit_def run_Ok digit_byte by (auto simp: u)
qed

lemma two_digits_reads:
  "and_then (read_digit L) (\<lambda>x. and_then (read_digit L) (f x)) r = (Ok v, r') \<longleftrightarrow>
    (\<exists>d<10. \<exists>e<10. \<exists>r1. r = (0x30 + of_nat d) # (0x30 + of_nat e) # r1 \<and> f (of_nat d) (of_nat e) r1 = (Ok v, r'))"
  unfolding and_then_reads [OF read_digit_reads] append.simps by blast

lemma digits2_eq: "d < 10 \<Longrightarrow> e < 10 \<Longrightarrow> digits2 (10 * d + e) = [0x30 + of_nat d, 0x30 + of_nat e]"
  by (simp add: digits2_def)

lemma ex_two_digits: "(\<exists>d<10. \<exists>e<10. P (10 * d + e)) \<longleftrightarrow> (\<exists>n\<le>99. P (n::nat))"
proof
  assume "\<exists>n\<le>99. P n"
  then obtain n where "n \<le> 99" "P n" by blast
  then have "n div 10 < 10" "n mod 10 < 10" "P (10 * (n div 10) + n mod 10)" by auto
  then show "\<exists>d<10. \<exists>e<10. P (10 * d + e)" by blast
next
  assume "\<exists>d<10. \<exists>e<10. P (10 * d + e)"
  then obtain d e where "d < 10" "e < 10" "P (10 * d + e)" by blast
  then show "\<exists>n\<le>99. P n" by (intro exI [of _ "10 * d + e"]) auto
qed

lemma read_two_digits_iff:
  assumes "lo \<le> 99" "hi \<le> 99"
  shows "read_two_digits L (of_nat lo) (of_nat hi) r = (Ok v, r') \<longleftrightarrow>
    (\<exists>n. lo \<le> n \<and> n \<le> hi \<and> v = of_nat n \<and> r = digits2 n @ r')"
proof -
  have c: "((of_nat n :: u64) < of_nat lo \<or> (of_nat n :: u64) > of_nat hi) \<longleftrightarrow> \<not> (lo \<le> n \<and> n \<le> hi)"
    if "n \<le> 99" for n
    using that assms by (auto simp: word_less_nat_alt unat_of_nat)
  have v: "(let value = (of_nat d * 10) + of_nat e in
        if value < of_nat lo \<or> value > of_nat hi then of_result (Err BadDerTime) else ok value) r1 =
      (Ok v, r') \<longleftrightarrow> lo \<le> 10 * d + e \<and> 10 * d + e \<le> hi \<and> v = of_nat (10 * d + e) \<and> r1 = r'"
    if "d < 10" "e < 10" for d e r1
    using that c [of "10 * d + e"] by (auto simp: Let_def run_Ok mult.commute)
  have "read_two_digits L (of_nat lo) (of_nat hi) r = (Ok v, r') \<longleftrightarrow>
      (\<exists>d<10. \<exists>e<10. lo \<le> 10 * d + e \<and> 10 * d + e \<le> hi \<and> v = of_nat (10 * d + e) \<and> r = digits2 (10 * d + e) @ r')"
    unfolding read_two_digits_def two_digits_reads
    by (simp add: v digits2_eq del: of_nat_add of_nat_mult cong: conj_cong) blast
  also have "\<dots> \<longleftrightarrow> (\<exists>n\<le>99. lo \<le> n \<and> n \<le> hi \<and> v = of_nat n \<and> r = digits2 n @ r')"
    by (rule ex_two_digits [where P = "\<lambda>n. lo \<le> n \<and> n \<le> hi \<and> v = of_nat n \<and> r = digits2 n @ r'"])
  also have "\<dots> \<longleftrightarrow> (\<exists>n. lo \<le> n \<and> n \<le> hi \<and> v = of_nat n \<and> r = digits2 n @ r')"
    using assms(2) by (metis le_trans)
  finally show ?thesis .
qed

lemma time_fields_iff:
  assumes "y \<le> 9999"
  shows "and_then (read_two_digits L 1 12) (\<lambda>month.
     and_then (of_result (days_in_month (of_nat y) month)) (\<lambda>days_in_month.
     and_then (read_two_digits L 1 days_in_month) (\<lambda>day_of_month.
     and_then (read_two_digits L 0 23) (\<lambda>hours.
     and_then (read_two_digits L 0 59) (\<lambda>minutes.
     and_then (read_two_digits L 0 59) (\<lambda>seconds.
     and_then (read_byte_or L BadDerTime) (\<lambda>time_zone.
       if time_zone \<noteq> 0x5A then of_result (Err BadDerTime)
       else of_result (time_from_ymdhms_utc (of_nat y) month day_of_month hours minutes seconds)))))))) r = (Ok t, r') \<longleftrightarrow>
    (\<exists>m d h mi s. valid_date y m d h mi s \<and> t = of_nat (epoch_seconds y m d h mi s) \<and> r = time_tail m d h mi s @ r')"
proof -
  have two: thesis
    if "and_then (read_two_digits L (of_nat lo) (of_nat hi)) f r = (Ok z, r')" "lo \<le> 99" "hi \<le> 99"
      and "\<And>n r1. lo \<le> n \<Longrightarrow> n \<le> hi \<Longrightarrow> r = digits2 n @ r1 \<Longrightarrow> f (of_nat n) r1 = (Ok z, r') \<Longrightarrow> thesis"
    for lo hi r thesis and f :: "u64 \<Rightarrow> (bytes, u64) parser" and z r'
    using that(1,4) by (auto simp: and_then_eq_Ok read_two_digits_iff [OF that(2,3)])
  have m31: "month_length y m \<le> 99" for m using month_length_le [of y m] by linarith
  have dim: "and_then (of_result (days_in_month (of_nat y) (of_nat m))) f r = f (of_nat (month_length y m)) r"
    if "1 \<le> m" "m \<le> 12" for m r and f :: "u64 \<Rightarrow> (bytes, u64) parser"
    using days_in_month_of_nat [OF assms that] by (simp add: run_simps)
  note elims = two [of 1 12, simplified] two [of 0 23, simplified] two [of 0 59, simplified] two [OF _ _ m31, of 1, simplified]
  have tz: "and_then (read_byte_or L BadDerTime) (\<lambda>time_zone.
       if time_zone \<noteq> 0x5A then of_result (Err BadDerTime)
       else of_result (time_from_ymdhms_utc (of_nat y) (of_nat m) (of_nat d) (of_nat h) (of_nat mi) (of_nat s))) r =
      (Ok t, r') \<longleftrightarrow> 1970 \<le> y \<and> t = of_nat (epoch_seconds y m d h mi s) \<and> r = 0x5A # r'"
    if "1 \<le> m" "m \<le> 12" "1 \<le> d" for m d h mi s r
    unfolding run_Ok time_from_ymdhms_utc_of_nat [OF assms that] by auto
  have run: "and_then (read_two_digits L (of_nat lo) (of_nat hi)) f (digits2 n @ r) = f (of_nat n) r"
    if "lo \<le> n" "n \<le> hi" "hi \<le> 99" for lo n hi r and f :: "u64 \<Rightarrow> (bytes, u64) parser"
    using read_two_digits_iff [of lo hi "digits2 n @ r" "of_nat n" r] that by (auto simp: and_then_run)
  note runs = run [of 1 _ 12, simplified] run [of 0 _ 23, simplified] run [of 0 _ 59, simplified] run [OF _ _ m31, of 1, simplified]
  show ?thesis (is "?l = ?r")
  proof
    assume ?l
    then show ?r
      apply (elim elims)
      apply (simp only: dim)
      apply (elim elims)
      apply (simp only: tz)
      apply (elim conjE)
      subgoal for m _ d _ h _ mi _ s _
        unfolding valid_date_def time_tail_def using assms
        by (intro exI [of _ m] exI [of _ d] exI [of _ h] exI [of _ mi] exI [of _ s]) simp
      done
  next
    assume ?r
    then obtain m d h mi s where "1970 \<le> y" "1 \<le> m" "m \<le> 12" "1 \<le> d" "d \<le> month_length y m" "h \<le> 23" "mi \<le> 59" "s \<le> 59"
      and "t = of_nat (epoch_seconds y m d h mi s)" "r = time_tail m d h mi s @ r'"
      unfolding valid_date_def by blast
    then show ?l by (simp add: time_tail_def runs dim) (simp add: run_simps time_from_ymdhms_utc_of_nat assms)
  qed
qed


definition year_octets :: "bool \<Rightarrow> nat \<Rightarrow> bytes" where
  "year_octets utc y = (if utc then digits2 (y mod 100) else digits2 (y div 100) @ digits2 (y mod 100))"

definition year_range :: "bool \<Rightarrow> nat \<Rightarrow> bool" where
  "year_range utc y \<longleftrightarrow> (if utc then 1950 \<le> y \<and> y \<le> 2049 else y \<le> 9999)"

lemma year_range_le: "year_range utc y \<Longrightarrow> y \<le> 9999"
  by (auto simp: year_range_def split: if_splits)

lemma century_mod: "n < 100 \<Longrightarrow> (100 * c + n) mod 100 = (n::nat)"
  by simp

lemma read_year_iff:
  "read_year L utc r = (Ok v, r') \<longleftrightarrow> (\<exists>y. year_range utc y \<and> v = of_nat y \<and> r = year_octets utc y @ r')"
proof -
  have two: "and_then (read_two_digits L 0 99) f r = (Ok v, r') \<longleftrightarrow>
      (\<exists>n. n \<le> 99 \<and> (\<exists>r1. r = digits2 n @ r1 \<and> f (of_nat n) r1 = (Ok v, r')))"
    for f :: "u64 \<Rightarrow> (bytes, u64) parser" and r
    by (rule and_then_reads) (rule read_two_digits_iff [of 0 99, simplified])
  show ?thesis
  proof (cases utc)
    case True
    define century where "century n = (if n \<ge> 50 then 1900 else 2000 :: nat)" for n :: nat
    have c: "((if (50::u64) \<le> of_nat n then 19 else 20) * 100 + of_nat n :: u64) = of_nat (century n + n)"
      if "n \<le> 99" for n
    proof -
      have "(50::u64) \<le> of_nat n \<longleftrightarrow> 50 \<le> n" using that by (simp add: word_le_nat_alt unat_of_nat)
      then show ?thesis by (simp add: century_def)
    qed
    have "read_year L utc r = (Ok v, r') \<longleftrightarrow> (\<exists>n\<le>99. v = of_nat (century n + n) \<and> r = digits2 n @ r')"
      unfolding read_year_def if_P [OF True] Let_def two
      by (simp add: ok_eq_Ok c del: of_nat_add cong: conj_cong) blast
    also have "\<dots> \<longleftrightarrow> (\<exists>y. (1950 \<le> y \<and> y \<le> 2049) \<and> v = of_nat y \<and> r = digits2 (y mod 100) @ r')"
    proof
      assume "\<exists>n\<le>99. v = of_nat (century n + n) \<and> r = digits2 n @ r'"
      then obtain n where n: "n \<le> 99" "v = of_nat (century n + n)" "r = digits2 n @ r'" by blast
      moreover from n(1) have "(century n + n) mod 100 = n"
        by (auto simp: century_def mod_add_left_eq [symmetric])
      ultimately show "\<exists>y. (1950 \<le> y \<and> y \<le> 2049) \<and> v = of_nat y \<and> r = digits2 (y mod 100) @ r'"
        by (intro exI [of _ "century n + n"]) (auto simp: century_def)
    next
      assume "\<exists>y. (1950 \<le> y \<and> y \<le> 2049) \<and> v = of_nat y \<and> r = digits2 (y mod 100) @ r'"
      then obtain y where y: "1950 \<le> y" "y \<le> 2049" "v = of_nat y" "r = digits2 (y mod 100) @ r'" by blast
      moreover have "century (y mod 100) + y mod 100 = y"
      proof (cases "y < 2000")
        case True
        define n where "n = y - 1900"
        with True y have "y = 1900 + n" "50 \<le> n" "n < 100" by auto
        moreover from this have "(1900 + n) mod 100 = n" using century_mod [of n 19] by simp
        ultimately show ?thesis by (simp add: century_def)
      next
        case False
        define n where "n = y - 2000"
        with False y have "y = 2000 + n" "n < 50" by auto
        moreover from this have "(2000 + n) mod 100 = n" using century_mod [of n 20] by simp
        ultimately show ?thesis by (simp add: century_def)
      qed
      ultimately show "\<exists>n\<le>99. v = of_nat (century n + n) \<and> r = digits2 n @ r'"
        by (intro exI [of _ "y mod 100"]) auto
    qed
    finally show ?thesis by (simp add: True year_range_def year_octets_def)
  next
    case False
    have e: "of_nat a * 100 + of_nat b = (of_nat (100 * a + b) :: u64)" for a b by (simp add: mult.commute)
    have "read_year L utc r = (Ok v, r') \<longleftrightarrow>
        (\<exists>a\<le>99. \<exists>b\<le>99. v = of_nat (100 * a + b) \<and> r = digits2 a @ digits2 b @ r')"
      unfolding read_year_def if_not_P [OF False] two
      by (simp add: ok_eq_Ok e del: of_nat_add of_nat_mult) blast
    also have "\<dots> \<longleftrightarrow> (\<exists>y\<le>9999. v = of_nat y \<and> r = digits2 (y div 100) @ digits2 (y mod 100) @ r')"
    proof
      assume "\<exists>a\<le>99. \<exists>b\<le>99. v = of_nat (100 * a + b) \<and> r = digits2 a @ digits2 b @ r'"
      then obtain a b where ab: "a \<le> 99" "b \<le> 99" and "v = of_nat (100 * a + b)" "r = digits2 a @ digits2 b @ r'"
        by blast
      moreover from ab have "(100 * a + b) div 100 = a" "(100 * a + b) mod 100 = b" "100 * a + b \<le> 9999" by simp_all
      ultimately show "\<exists>y\<le>9999. v = of_nat y \<and> r = digits2 (y div 100) @ digits2 (y mod 100) @ r'"
        by (intro exI [of _ "100 * a + b"]) simp
    next
      assume "\<exists>y\<le>9999. v = of_nat y \<and> r = digits2 (y div 100) @ digits2 (y mod 100) @ r'"
      then obtain y where y: "y \<le> 9999" and "v = of_nat y" "r = digits2 (y div 100) @ digits2 (y mod 100) @ r'" by blast
      moreover have "y div 100 < 100" using y by (intro div_less_iff_less_mult [THEN iffD2]) auto
      moreover have "y mod 100 < 100" by simp
      ultimately show "\<exists>a\<le>99. \<exists>b\<le>99. v = of_nat (100 * a + b) \<and> r = digits2 a @ digits2 b @ r'"
        by (intro exI [of _ "y div 100"] exI [of _ "y mod 100"] conjI) simp_all
    qed
    finally show ?thesis using False by (simp add: year_range_def year_octets_def)
  qed
qed

text \<open>The octets of the two kinds of time.\<close>

definition time_octets :: "bool \<Rightarrow> nat \<Rightarrow> nat \<Rightarrow> nat \<Rightarrow> nat \<Rightarrow> nat \<Rightarrow> nat \<Rightarrow> bytes" where
  "time_octets utc y m d h mi s =
    der_encode (if utc then 0x17 else 0x18) (year_octets utc y @ time_tail m d h mi s)"

lemma length_time_octets: "length (year_octets utc y @ time_tail m d h mi s) \<le> 15"
  by (simp add: year_octets_def time_tail_def digits2_def)

lemma time_from_der_iff:
  "time_from_der L r = (Ok t, r') \<longleftrightarrow>
    (\<exists>utc y m d h mi s. year_range utc y \<and> valid_date y m d h mi s \<and>
       t = of_nat (epoch_seconds y m d h mi s) \<and> r = time_octets utc y m d h mi s @ r')"
proof -
  define utc where "utc \<longleftrightarrow> (\<exists>r1. r = 0x17 # r1)"
  have p: "peek L (tag_u8 Tag_UTCTime) r = (Ok utc, r)" by (cases r) (auto simp: utc_def run_simps)
  have len: "length (year_octets utc y @ time_tail m d h mi s) < 65535" for utc y m d h mi s
    using length_time_octets [of utc y m d h mi s] by linarith
  have "time_from_der L r = (Ok t, r') \<longleftrightarrow>
     (\<exists>y m d h mi s. year_range utc y \<and> valid_date y m d h mi s \<and> t = of_nat (epoch_seconds y m d h mi s) \<and>
         r = time_octets utc y m d h mi s @ r')"
    unfolding time_from_der_def and_then_eq_Ok [of "peek L (tag_u8 Tag_UTCTime)"] p Let_def
    by (simp add: nested_iff and_then_reads [OF read_year_iff] time_fields_iff [OF year_range_le] time_octets_def
        cong: conj_cong) (use len in blast)
  moreover have "utc' = utc" if "r = time_octets utc' y m d h mi s @ r'" for utc' y m d h mi s
    using that by (auto simp: utc_def time_octets_def der_encode_def split: if_splits)
  ultimately show ?thesis by blast
qed


section \<open>Reading a time cannot panic\<close>

lemma total_read_two_digits [total_intros]: "total k (read_two_digits L a b)"
  unfolding read_two_digits_def read_digit_def by (intro total_intros)

lemma total_read_year [total_intros]: "total k (read_year L utc)"
  unfolding read_year_def by (intro total_intros)

lemma total_time_from_der [total_intros]: "total k (time_from_der L)"
proof -
  have fields: "total k (and_then (read_two_digits L 1 12) (\<lambda>month.
     and_then (of_result (days_in_month (of_nat y) month)) (\<lambda>days_in_month.
     and_then (read_two_digits L 1 days_in_month) (\<lambda>day_of_month.
     and_then (read_two_digits L 0 23) (\<lambda>hours.
     and_then (read_two_digits L 0 59) (\<lambda>minutes.
     and_then (read_two_digits L 0 59) (\<lambda>seconds.
     and_then (read_byte_or L BadDerTime) (\<lambda>time_zone.
       if time_zone \<noteq> 0x5A then of_result (Err BadDerTime)
       else of_result (time_from_ymdhms_utc (of_nat y) month day_of_month hours minutes seconds)))))))))"
    if y: "y \<le> 9999" for y
  proof (rule total_and_then_dep [OF total_read_two_digits])
    fix r month r1
    assume "read_two_digits L 1 12 r = (Ok month, r1)"
    then obtain m where m: "1 \<le> m" "m \<le> 12" "month = of_nat m"
      using read_two_digits_iff [of 1 12] by auto
    have ymd: "fine k (time_from_ymdhms_utc (of_nat y) month dd h mi s)" for dd h mi s
      using y m by (simp add: time_from_ymdhms_utc_def days_before_year_since_unix_epoch_of_nat
          days_before_month_of_nat [of y m] Let_def)
    show "total k (and_then (of_result (days_in_month (of_nat y) month)) (\<lambda>days_in_month.
     and_then (read_two_digits L 1 days_in_month) (\<lambda>day_of_month.
     and_then (read_two_digits L 0 23) (\<lambda>hours.
     and_then (read_two_digits L 0 59) (\<lambda>minutes.
     and_then (read_two_digits L 0 59) (\<lambda>seconds.
     and_then (read_byte_or L BadDerTime) (\<lambda>time_zone.
       if time_zone \<noteq> 0x5A then of_result (Err BadDerTime)
       else of_result (time_from_ymdhms_utc (of_nat y) month day_of_month hours minutes seconds))))))))"
      unfolding m(3) days_in_month_of_nat [OF y m(1,2)]
      by (intro total_intros ymd [unfolded m(3)])
  qed
  have year: "total k (and_then (read_year L utc) F)" if "\<And>y. y \<le> 9999 \<Longrightarrow> total k (F (of_nat y))"
    for utc and F :: "u64 \<Rightarrow> (bytes, u64) parser"
    using that by (intro total_and_then_dep [OF total_read_year]) (auto simp: read_year_iff dest: year_range_le)
  show ?thesis
    unfolding time_from_der_def Let_def by (intro total_and_then total_nested total_primitive year fields)
qed

lemma time_from_der_shorter: "time_from_der L r = (Ok t, r') \<Longrightarrow> length r' < length r"
  by (auto simp: time_from_der_iff time_octets_def der_encode_def)

text \<open>The octets in front of a reader that are read as a time.\<close>

definition encodes_time :: "bytes \<Rightarrow> Time \<Rightarrow> bool" where
  "encodes_time bs t \<longleftrightarrow>
    (\<exists>utc y m d h mi s. year_range utc y \<and> valid_date y m d h mi s \<and>
      t = of_nat (epoch_seconds y m d h mi s) \<and> bs = time_octets utc y m d h mi s)"

lemma time_from_der_encodes: "time_from_der L r = (Ok t, r') \<longleftrightarrow> (\<exists>bs. encodes_time bs t \<and> r = bs @ r')"
  unfolding time_from_der_iff encodes_time_def by blast

definition epoch_octets :: bytes where
  "epoch_octets = [0x17, 13, 0x37, 0x30, 0x30, 0x31, 0x30, 0x31, 0x30, 0x30, 0x30, 0x30, 0x30, 0x30, 0x5A]"

lemma epoch_encodes: "encodes_time epoch_octets 0"
proof -
  have "time_octets True 1970 1 1 0 0 0 = epoch_octets"
    by (simp add: time_octets_def year_octets_def time_tail_def digits2_def der_encode_short epoch_octets_def)
  moreover have "epoch_seconds 1970 1 1 0 0 0 = 0" by (simp add: epoch_seconds_def epoch_days_def)
  moreover have "valid_date 1970 1 1 0 0 0" "year_range True 1970"
    by (simp_all add: valid_date_def year_range_def month_length_def)
  ultimately show ?thesis
    unfolding encodes_time_def by (intro exI [of _ True] exI [of _ 1970] exI [of _ 1] exI [of _ 0]) simp
qed

section \<open>Properties\<close>

text \<open>C22: a time is read exactly when the octets are those of a UTCTime or a GeneralizedTime in the form YYMMDDHHMMSSZ or
  YYYYMMDDHHMMSSZ of a date that exists, from 1970 to 9999 (a UTCTime from 1970 to 2049), and the result is the number of
  seconds from the epoch to that date. The reader is left right behind the time.\<close>

theorem time_parsing_exact:
  assumes "untrusted_reader U rest later"
  shows "(\<exists>r'. time_from_der U r = (Ok t, r') \<and> rest r' = bs) \<longleftrightarrow> (\<exists>b. encodes_time b t \<and> rest r = b @ bs)"
  unfolding untrusted_reader.follows_iff [OF assms untrusted_reader.time_from_der_sim [OF assms]]
  by (rule time_from_der_encodes)

theorem time_parsing_exact_witness:
  "\<exists>r'. time_from_der list_reader (epoch_octets @ [5]) = (Ok 0, r') \<and> r' = [5]"
  using time_parsing_exact [OF lr.untrusted_reader_axioms, of "epoch_octets @ [5]" 0 "[5]"] epoch_encodes by auto

text \<open>C23: the number of seconds of a date that exists is computed without wrap-around, is the sum over the years, months and
  days before it, and the numbers of two dates are ordered as the dates are.\<close>

theorem time_of_dates:
  assumes "valid_date y m d h mi s" "valid_date y' m' d' h' mi' s'"
  shows "\<exists>t t'. time_from_ymdhms_utc (of_nat y) (of_nat m) (of_nat d) (of_nat h) (of_nat mi) (of_nat s) = Ok t \<and>
    time_from_ymdhms_utc (of_nat y') (of_nat m') (of_nat d') (of_nat h') (of_nat mi') (of_nat s') = Ok t' \<and>
    unat t = epoch_seconds y m d h mi s \<and>
    (t < t' \<longleftrightarrow> date_less [y, m, d, h, mi, s] [y', m', d', h', mi', s'])"
proof -
  have *: "time_from_ymdhms_utc (of_nat y) (of_nat m) (of_nat d) (of_nat h) (of_nat mi) (of_nat s) =
      Ok (of_nat (epoch_seconds y m d h mi s))" "unat (of_nat (epoch_seconds y m d h mi s) :: u64) = epoch_seconds y m d h mi s"
    if "valid_date y m d h mi s" for y m d h mi s
    using that epoch_seconds_bound [of y m d h mi s]
    by (simp_all add: time_from_ymdhms_utc_of_nat valid_date_def unat_of_nat)
  from * [OF assms(1)] * [OF assms(2)] epoch_seconds_less_iff [OF assms] show ?thesis
    by (simp add: word_less_nat_alt)
qed

theorem time_of_dates_witness:
  "\<exists>t t'. time_from_ymdhms_utc 2000 2 29 23 59 59 = Ok t \<and> time_from_ymdhms_utc 2000 3 1 0 0 0 = Ok t' \<and> t < t'"
proof -
  have "valid_date 2000 2 29 23 59 59" "valid_date 2000 3 1 0 0 0"
    by (simp_all add: valid_date_def month_length_def leap_year_def)
  from time_of_dates [OF this] show ?thesis by (auto simp: of_nat_numeral)
qed

end
