(* ===== verification/X509.thy ===== *)
theory X509
  imports Der
begin

text \<open>
  Certificate and CRL extensions (\<^verbatim>\<open>src/x509.rs\<close>). The lemmas show when an extension is read, that
  a second extension of the same kind is an error, and that only the standard arc reaches a handler.
\<close>

unbundle bit_operations_syntax

record Extension =
  critical :: bool
  ext_id :: bytes
  ext_value :: bytes

definition unsupported :: "Extension \<Rightarrow> unit result" where
  "unsupported self = (if critical self then Err UnsupportedCriticalExtension else Ok ())"

definition extension_from_der :: "'r untrusted \<Rightarrow> ('r, Extension) parser" where
  "extension_from_der U =
    and_then (expect_tag U Tag_OID) (\<lambda>id.
    and_then (bool_from_der U) (\<lambda>critical.
    and_then (expect_tag U Tag_OctetString) (\<lambda>value.
      ok \<lparr>critical = critical, ext_id = id, ext_value = value\<rparr>)))"

text \<open>The destination, a mutable reference, is returned updated.\<close>

definition set_extension_once :: "'a option \<Rightarrow> 'a result \<Rightarrow> 'a option result" where
  "set_extension_once destination parser =
    (case destination of
       Some _ \<Rightarrow> Err ExtensionValueInvalid
     | None \<Rightarrow> res_bind parser (\<lambda>x. Ok (Some x)))"

definition ID_CE :: bytes where
  "ID_CE = oid 2 5 [29]"

text \<open>The handler's captured state \<open>s\<close> is returned as it is when the handler is not called.\<close>

definition remember_extension :: "Extension \<Rightarrow> (u8 \<Rightarrow> 's result) \<Rightarrow> 's \<Rightarrow> 's result" where
  "remember_extension extension handler s =
    (if length (ext_id extension) \<noteq> length ID_CE + 1 \<or> take (length ID_CE) (ext_id extension) \<noteq> ID_CE
     then res_bind (unsupported extension) (\<lambda>_. Ok s)
     else handler (last (ext_id extension)))"

text \<open>The items of a full name are read when the name is iterated: the value is kept as it is.\<close>

datatype DistributionPointName =
    NameRelativeToCrlIssuer bytes
  | FullName bytes

definition distribution_point_name_from_der :: "'r untrusted \<Rightarrow> ('r, DistributionPointName) parser" where
  "distribution_point_name_from_der U =
    (let FULL_NAME_TAG = CONTEXT_SPECIFIC OR CONSTRUCTED;
         NAME_RELATIVE_TO_CRL_ISSUER_TAG = CONTEXT_SPECIFIC OR CONSTRUCTED OR 1 in
     and_then (read_tag_and_get_value U) (\<lambda>(tag, value).
       if tag = FULL_NAME_TAG then ok (FullName value)
       else if tag = NAME_RELATIVE_TO_CRL_ISSUER_TAG then ok (NameRelativeToCrlIssuer value)
       else of_result (Err BadDer)))"

context untrusted_reader
begin

lemma extension_from_der_sim [sim_intros]: "follows (extension_from_der U) (extension_from_der L)"
  unfolding extension_from_der_def by (intro sim_intros refl)

lemma distribution_point_name_from_der_sim [sim_intros]:
  "follows (distribution_point_name_from_der U) (distribution_point_name_from_der L)"
  unfolding distribution_point_name_from_der_def by (intro sim_intros refl)

end

section \<open>What is read\<close>

lemma total_extension_from_der [total_intros]: "total k (extension_from_der L)"
  unfolding extension_from_der_def by (intro total_intros)

lemma total_distribution_point_name_from_der [total_intros]: "total k (distribution_point_name_from_der L)"
  unfolding distribution_point_name_from_der_def by (intro total_intros)

text \<open>An extension with \<open>critical\<close> false may leave the flag out or spell the default out.\<close>

definition critical_octets :: "bool \<Rightarrow> bytes set" where
  "critical_octets c = (if c then {[1, 1, 0xff]} else {[], [1, 1, 0]})"

lemma extension_from_der_iff:
  "extension_from_der L r = (Ok e, r') \<longleftrightarrow>
    (\<exists>f \<in> critical_octets (critical e). length (ext_id e) < 65535 \<and> length (ext_value e) < 65535 \<and>
      r = der_encode 6 (ext_id e) @ f @ der_encode 4 (ext_value e) @ r')"
  (is "_ = ?r")
proof -
  have b: "bool_from_der L r1 = (Ok c, der_encode 4 v @ r') \<longleftrightarrow>
      (\<exists>f \<in> critical_octets c. r1 = f @ der_encode 4 v @ r')" for r1 c v
    unfolding bool_from_der_iff by (auto simp: critical_octets_def der_encode_def)
  have "extension_from_der L r = (Ok e, r') \<longleftrightarrow>
      (\<exists>i c v r1. length i < 65535 \<and> r = der_encode 6 i @ r1 \<and> length v < 65535 \<and>
        bool_from_der L r1 = (Ok c, der_encode 4 v @ r') \<and> e = \<lparr>critical = c, ext_id = i, ext_value = v\<rparr>)"
    unfolding extension_from_der_def run_Ok by (auto simp: expect_tag_iff)
  also have "\<dots> \<longleftrightarrow> ?r"
    unfolding b by (cases e) auto
  finally show ?thesis .
qed

lemma set_extension_once_Ok:
  "set_extension_once d p = Ok d' \<longleftrightarrow> d = None \<and> (\<exists>x. p = Ok x \<and> d' = Some x)"
  by (cases d) (auto simp: set_extension_once_def)

lemma set_extension_once_fine: "fine k p \<Longrightarrow> fine k (set_extension_once d p)"
  by (auto simp: set_extension_once_def intro!: res_bind_fine split: option.split)

text \<open>The only identifiers that reach a handler are those of the arc 2.5.29.\<close>

lemma remember_extension_arc:
  "remember_extension \<lparr>critical = c, ext_id = [0x55, 0x1d, n], ext_value = v\<rparr> h s = h n"
  by (simp add: remember_extension_def ID_CE_def oid_def)

lemma remember_extension_other:
  assumes "\<And>n. ext_id e \<noteq> [0x55, 0x1d, n]"
  shows "remember_extension e h s = (if critical e then Err UnsupportedCriticalExtension else Ok s)"
proof -
  have "length (ext_id e) \<noteq> length ID_CE + 1 \<or> take (length ID_CE) (ext_id e) \<noteq> ID_CE"
    using assms [of "last (ext_id e)"] by (auto simp: ID_CE_def oid_def length_Suc_conv numeral_3_eq_3)
  then show ?thesis by (simp add: remember_extension_def unsupported_def)
qed

lemma remember_extension_fine:
  "(\<And>n. fine k (h n)) \<Longrightarrow> fine k (remember_extension e h s)"
  by (auto simp: remember_extension_def unsupported_def)

end
