(* ===== verification/Signed_Data.thy ===== *)
theory Signed_Data
  imports Der
begin

text \<open>
  Signed objects (\<^verbatim>\<open>src/signed_data.rs\<close>) and the algorithms backed by \<^verbatim>\<open>ring\<close>
  (\<^verbatim>\<open>src/ring_algs.rs\<close>). A signature algorithm is an object of a trait: a record of its two algorithm
  identifiers and its verification function. The functions of \<^verbatim>\<open>ring\<close> are not part of the repository:
  \<open>ring\<close>, which says whether the named primitive accepts a key, message and signature, is a parameter of
  the statics of \<^verbatim>\<open>ring_algs.rs\<close>.
\<close>

section \<open>Signed data\<close>

record SignedData =
  data :: bytes
  algorithm :: bytes
  signature :: bytes

record OwnedSignedData =
  owned_data :: bytes
  owned_algorithm :: bytes
  owned_signature :: bytes

definition signed_data_borrow :: "OwnedSignedData \<Rightarrow> SignedData" where
  "signed_data_borrow self =
    \<lparr>data = owned_data self, algorithm = owned_algorithm self, signature = owned_signature self\<rparr>"

definition signed_data_to_owned :: "SignedData \<Rightarrow> OwnedSignedData" where
  "signed_data_to_owned self =
    \<lparr>owned_data = data self, owned_algorithm = algorithm self, owned_signature = signature self\<rparr>"

definition signed_data_from_der :: "'r untrusted \<Rightarrow> nat \<Rightarrow> ('r, bytes \<times> SignedData) parser" where
  "signed_data_from_der U size_limit =
    and_then (read_partial U (expect_tag_and_get_value_limited U Tag_Sequence size_limit)) (\<lambda>(data, tbs).
    and_then (expect_tag U Tag_Sequence) (\<lambda>algorithm.
    and_then (bit_string_with_no_unused_bits U) (\<lambda>signature.
      ok (tbs, \<lparr>data = data, algorithm = algorithm, signature = signature\<rparr>))))"

section \<open>Algorithm identifiers\<close>

record AlgorithmIdentifier =
  asn1_id_value :: bytes

definition AlgorithmIdentifier_new :: "bytes \<Rightarrow> AlgorithmIdentifier" where
  "AlgorithmIdentifier_new bytes = \<lparr>asn1_id_value = bytes\<rparr>"

definition matches_algorithm_id_value :: "AlgorithmIdentifier \<Rightarrow> bytes \<Rightarrow> bool" where
  "matches_algorithm_id_value self encoded \<longleftrightarrow> encoded = asn1_id_value self"

text \<open>The values of \<^verbatim>\<open>mod alg_id\<close>, the contents of the files \<^verbatim>\<open>src/data/*.der\<close>.\<close>

definition ECDSA_P256 :: AlgorithmIdentifier where
  "ECDSA_P256 = AlgorithmIdentifier_new [0x06, 0x07, 0x2a, 0x86, 0x48, 0xce, 0x3d, 0x02, 0x01, 0x06,
    0x08, 0x2a, 0x86, 0x48, 0xce, 0x3d, 0x03, 0x01, 0x07]"

definition ECDSA_P384 :: AlgorithmIdentifier where
  "ECDSA_P384 = AlgorithmIdentifier_new [0x06, 0x07, 0x2a, 0x86, 0x48, 0xce, 0x3d, 0x02, 0x01, 0x06,
    0x05, 0x2b, 0x81, 0x04, 0x00, 0x22]"

definition ECDSA_SHA256 :: AlgorithmIdentifier where
  "ECDSA_SHA256 = AlgorithmIdentifier_new [0x06, 0x08, 0x2a, 0x86, 0x48, 0xce, 0x3d, 0x04, 0x03,
    0x02]"

definition ECDSA_SHA384 :: AlgorithmIdentifier where
  "ECDSA_SHA384 = AlgorithmIdentifier_new [0x06, 0x08, 0x2a, 0x86, 0x48, 0xce, 0x3d, 0x04, 0x03,
    0x03]"

definition RSA_ENCRYPTION :: AlgorithmIdentifier where
  "RSA_ENCRYPTION = AlgorithmIdentifier_new [0x06, 0x09, 0x2a, 0x86, 0x48, 0x86, 0xf7, 0x0d, 0x01,
    0x01, 0x01, 0x05, 0x00]"

definition RSA_PKCS1_SHA256 :: AlgorithmIdentifier where
  "RSA_PKCS1_SHA256 = AlgorithmIdentifier_new [0x06, 0x09, 0x2a, 0x86, 0x48, 0x86, 0xf7, 0x0d, 0x01,
    0x01, 0x0b, 0x05, 0x00]"

definition RSA_PKCS1_SHA384 :: AlgorithmIdentifier where
  "RSA_PKCS1_SHA384 = AlgorithmIdentifier_new [0x06, 0x09, 0x2a, 0x86, 0x48, 0x86, 0xf7, 0x0d, 0x01,
    0x01, 0x0c, 0x05, 0x00]"

definition RSA_PKCS1_SHA512 :: AlgorithmIdentifier where
  "RSA_PKCS1_SHA512 = AlgorithmIdentifier_new [0x06, 0x09, 0x2a, 0x86, 0x48, 0x86, 0xf7, 0x0d, 0x01,
    0x01, 0x0d, 0x05, 0x00]"

definition RSA_PSS_SHA256 :: AlgorithmIdentifier where
  "RSA_PSS_SHA256 = AlgorithmIdentifier_new [0x06, 0x09, 0x2a, 0x86, 0x48, 0x86, 0xf7, 0x0d, 0x01,
    0x01, 0x0a, 0x30, 0x34, 0xa0, 0x0f, 0x30, 0x0d, 0x06, 0x09, 0x60, 0x86, 0x48, 0x01, 0x65, 0x03,
    0x04, 0x02, 0x01, 0x05, 0x00, 0xa1, 0x1c, 0x30, 0x1a, 0x06, 0x09, 0x2a, 0x86, 0x48, 0x86, 0xf7,
    0x0d, 0x01, 0x01, 0x08, 0x30, 0x0d, 0x06, 0x09, 0x60, 0x86, 0x48, 0x01, 0x65, 0x03, 0x04, 0x02,
    0x01, 0x05, 0x00, 0xa2, 0x03, 0x02, 0x01, 0x20]"

definition RSA_PSS_SHA384 :: AlgorithmIdentifier where
  "RSA_PSS_SHA384 = AlgorithmIdentifier_new [0x06, 0x09, 0x2a, 0x86, 0x48, 0x86, 0xf7, 0x0d, 0x01,
    0x01, 0x0a, 0x30, 0x34, 0xa0, 0x0f, 0x30, 0x0d, 0x06, 0x09, 0x60, 0x86, 0x48, 0x01, 0x65, 0x03,
    0x04, 0x02, 0x02, 0x05, 0x00, 0xa1, 0x1c, 0x30, 0x1a, 0x06, 0x09, 0x2a, 0x86, 0x48, 0x86, 0xf7,
    0x0d, 0x01, 0x01, 0x08, 0x30, 0x0d, 0x06, 0x09, 0x60, 0x86, 0x48, 0x01, 0x65, 0x03, 0x04, 0x02,
    0x02, 0x05, 0x00, 0xa2, 0x03, 0x02, 0x01, 0x30]"

definition RSA_PSS_SHA512 :: AlgorithmIdentifier where
  "RSA_PSS_SHA512 = AlgorithmIdentifier_new [0x06, 0x09, 0x2a, 0x86, 0x48, 0x86, 0xf7, 0x0d, 0x01,
    0x01, 0x0a, 0x30, 0x34, 0xa0, 0x0f, 0x30, 0x0d, 0x06, 0x09, 0x60, 0x86, 0x48, 0x01, 0x65, 0x03,
    0x04, 0x02, 0x03, 0x05, 0x00, 0xa1, 0x1c, 0x30, 0x1a, 0x06, 0x09, 0x2a, 0x86, 0x48, 0x86, 0xf7,
    0x0d, 0x01, 0x01, 0x08, 0x30, 0x0d, 0x06, 0x09, 0x60, 0x86, 0x48, 0x01, 0x65, 0x03, 0x04, 0x02,
    0x03, 0x05, 0x00, 0xa2, 0x03, 0x02, 0x01, 0x40]"

definition ID_ED25519 :: AlgorithmIdentifier where
  "ID_ED25519 = AlgorithmIdentifier_new [0x06, 0x03, 0x2b, 0x65, 0x70]"

section \<open>Verification\<close>

text \<open>\<open>verify_fn key message signature\<close>: true for \<^verbatim>\<open>Ok(())\<close>, false for \<^verbatim>\<open>Err(InvalidSignature)\<close>.\<close>

record SignatureVerificationAlgorithm =
  public_key_alg_id :: AlgorithmIdentifier
  signature_alg_id :: AlgorithmIdentifier
  verify_fn :: "bytes \<Rightarrow> bytes \<Rightarrow> bytes \<Rightarrow> bool"

record SubjectPublicKeyInfo =
  algorithm_id_value :: bytes
  key_value :: bytes

definition spki_from_der :: "'r untrusted \<Rightarrow> ('r, SubjectPublicKeyInfo) parser" where
  "spki_from_der U =
    and_then (expect_tag U Tag_Sequence) (\<lambda>algorithm_id_value.
    and_then (bit_string_with_no_unused_bits U) (\<lambda>key_value.
      ok \<lparr>algorithm_id_value = algorithm_id_value, key_value = key_value\<rparr>))"

definition verify_signature ::
    "'r untrusted \<Rightarrow> SignatureVerificationAlgorithm \<Rightarrow> bytes \<Rightarrow> bytes \<Rightarrow> bytes \<Rightarrow> unit result" where
  "verify_signature U signature_alg spki_value msg sig =
    res_bind (der_read_all U TypeId_SubjectPublicKeyInfo (spki_from_der U) spki_value) (\<lambda>spki.
      if \<not> matches_algorithm_id_value (public_key_alg_id signature_alg) (algorithm_id_value spki)
      then Err UnsupportedSignatureAlgorithmForPublicKey
      else if verify_fn signature_alg (key_value spki) msg sig then Ok ()
      else Err InvalidSignatureForPublicKey)"

text \<open>The loop over the algorithms that passed the filter, with \<^verbatim>\<open>found_signature_alg_match\<close>.\<close>

fun verify_signed_data_loop ::
    "'r untrusted \<Rightarrow> bytes \<Rightarrow> SignedData \<Rightarrow> bool \<Rightarrow> SignatureVerificationAlgorithm list \<Rightarrow> unit result" where
  "verify_signed_data_loop U spki_value signed_data found_signature_alg_match [] =
    (if found_signature_alg_match then Err UnsupportedSignatureAlgorithmForPublicKey
     else Err UnsupportedSignatureAlgorithm)"
| "verify_signed_data_loop U spki_value signed_data found_signature_alg_match (supported_alg # algs) =
    (case verify_signature U supported_alg spki_value (data signed_data) (signature signed_data) of
       Err e \<Rightarrow>
         if e = UnsupportedSignatureAlgorithmForPublicKey
         then verify_signed_data_loop U spki_value signed_data True algs
         else Err e
     | result \<Rightarrow> result)"

definition verify_signed_data ::
    "'r untrusted \<Rightarrow> SignatureVerificationAlgorithm list \<Rightarrow> bytes \<Rightarrow> SignedData \<Rightarrow> unit result" where
  "verify_signed_data U supported_algorithms spki_value signed_data =
    verify_signed_data_loop U spki_value signed_data False
      (filter (\<lambda>alg. matches_algorithm_id_value (signature_alg_id alg) (algorithm signed_data))
        supported_algorithms)"

section \<open>The algorithms of ring\<close>

text \<open>The statics of \<^verbatim>\<open>ring::signature\<close> that \<^verbatim>\<open>ring_algs.rs\<close> names.\<close>

datatype ring_alg =
    ECDSA_P256_SHA256_ASN1
  | ECDSA_P256_SHA384_ASN1
  | ECDSA_P384_SHA256_ASN1
  | ECDSA_P384_SHA384_ASN1
  | Ring_RSA_PKCS1_2048_8192_SHA256
  | Ring_RSA_PKCS1_2048_8192_SHA384
  | Ring_RSA_PKCS1_2048_8192_SHA512
  | Ring_RSA_PKCS1_3072_8192_SHA384
  | RSA_PSS_2048_8192_SHA256
  | RSA_PSS_2048_8192_SHA384
  | RSA_PSS_2048_8192_SHA512
  | Ring_ED25519

definition RingAlgorithm ::
    "(ring_alg \<Rightarrow> bytes \<Rightarrow> bytes \<Rightarrow> bytes \<Rightarrow> bool) \<Rightarrow> AlgorithmIdentifier \<Rightarrow> AlgorithmIdentifier \<Rightarrow> ring_alg
     \<Rightarrow> SignatureVerificationAlgorithm" where
  "RingAlgorithm ring key_id sig_id verification_alg =
    \<lparr>public_key_alg_id = key_id, signature_alg_id = sig_id, verify_fn = ring verification_alg\<rparr>"

definition ECDSA_P256_SHA256 :: "(ring_alg \<Rightarrow> bytes \<Rightarrow> bytes \<Rightarrow> bytes \<Rightarrow> bool) \<Rightarrow> SignatureVerificationAlgorithm" where
  "ECDSA_P256_SHA256 ring = RingAlgorithm ring ECDSA_P256 ECDSA_SHA256 ECDSA_P256_SHA256_ASN1"

definition ECDSA_P256_SHA384 :: "(ring_alg \<Rightarrow> bytes \<Rightarrow> bytes \<Rightarrow> bytes \<Rightarrow> bool) \<Rightarrow> SignatureVerificationAlgorithm" where
  "ECDSA_P256_SHA384 ring = RingAlgorithm ring ECDSA_P256 ECDSA_SHA384 ECDSA_P256_SHA384_ASN1"

definition ECDSA_P384_SHA256 :: "(ring_alg \<Rightarrow> bytes \<Rightarrow> bytes \<Rightarrow> bytes \<Rightarrow> bool) \<Rightarrow> SignatureVerificationAlgorithm" where
  "ECDSA_P384_SHA256 ring = RingAlgorithm ring ECDSA_P384 ECDSA_SHA256 ECDSA_P384_SHA256_ASN1"

definition ECDSA_P384_SHA384 :: "(ring_alg \<Rightarrow> bytes \<Rightarrow> bytes \<Rightarrow> bytes \<Rightarrow> bool) \<Rightarrow> SignatureVerificationAlgorithm" where
  "ECDSA_P384_SHA384 ring = RingAlgorithm ring ECDSA_P384 ECDSA_SHA384 ECDSA_P384_SHA384_ASN1"

definition RSA_PKCS1_2048_8192_SHA256 :: "(ring_alg \<Rightarrow> bytes \<Rightarrow> bytes \<Rightarrow> bytes \<Rightarrow> bool) \<Rightarrow> SignatureVerificationAlgorithm" where
  "RSA_PKCS1_2048_8192_SHA256 ring = RingAlgorithm ring RSA_ENCRYPTION RSA_PKCS1_SHA256 Ring_RSA_PKCS1_2048_8192_SHA256"

definition RSA_PKCS1_2048_8192_SHA384 :: "(ring_alg \<Rightarrow> bytes \<Rightarrow> bytes \<Rightarrow> bytes \<Rightarrow> bool) \<Rightarrow> SignatureVerificationAlgorithm" where
  "RSA_PKCS1_2048_8192_SHA384 ring = RingAlgorithm ring RSA_ENCRYPTION RSA_PKCS1_SHA384 Ring_RSA_PKCS1_2048_8192_SHA384"

definition RSA_PKCS1_2048_8192_SHA512 :: "(ring_alg \<Rightarrow> bytes \<Rightarrow> bytes \<Rightarrow> bytes \<Rightarrow> bool) \<Rightarrow> SignatureVerificationAlgorithm" where
  "RSA_PKCS1_2048_8192_SHA512 ring = RingAlgorithm ring RSA_ENCRYPTION RSA_PKCS1_SHA512 Ring_RSA_PKCS1_2048_8192_SHA512"

definition RSA_PKCS1_3072_8192_SHA384 :: "(ring_alg \<Rightarrow> bytes \<Rightarrow> bytes \<Rightarrow> bytes \<Rightarrow> bool) \<Rightarrow> SignatureVerificationAlgorithm" where
  "RSA_PKCS1_3072_8192_SHA384 ring = RingAlgorithm ring RSA_ENCRYPTION RSA_PKCS1_SHA384 Ring_RSA_PKCS1_3072_8192_SHA384"

definition RSA_PSS_2048_8192_SHA256_LEGACY_KEY :: "(ring_alg \<Rightarrow> bytes \<Rightarrow> bytes \<Rightarrow> bytes \<Rightarrow> bool) \<Rightarrow> SignatureVerificationAlgorithm" where
  "RSA_PSS_2048_8192_SHA256_LEGACY_KEY ring = RingAlgorithm ring RSA_ENCRYPTION RSA_PSS_SHA256 RSA_PSS_2048_8192_SHA256"

definition RSA_PSS_2048_8192_SHA384_LEGACY_KEY :: "(ring_alg \<Rightarrow> bytes \<Rightarrow> bytes \<Rightarrow> bytes \<Rightarrow> bool) \<Rightarrow> SignatureVerificationAlgorithm" where
  "RSA_PSS_2048_8192_SHA384_LEGACY_KEY ring = RingAlgorithm ring RSA_ENCRYPTION RSA_PSS_SHA384 RSA_PSS_2048_8192_SHA384"

definition RSA_PSS_2048_8192_SHA512_LEGACY_KEY :: "(ring_alg \<Rightarrow> bytes \<Rightarrow> bytes \<Rightarrow> bytes \<Rightarrow> bool) \<Rightarrow> SignatureVerificationAlgorithm" where
  "RSA_PSS_2048_8192_SHA512_LEGACY_KEY ring = RingAlgorithm ring RSA_ENCRYPTION RSA_PSS_SHA512 RSA_PSS_2048_8192_SHA512"

definition ED25519 :: "(ring_alg \<Rightarrow> bytes \<Rightarrow> bytes \<Rightarrow> bytes \<Rightarrow> bool) \<Rightarrow> SignatureVerificationAlgorithm" where
  "ED25519 ring = RingAlgorithm ring ID_ED25519 ID_ED25519 Ring_ED25519"

section \<open>Independence of the reader\<close>

context untrusted_reader
begin

lemma signed_data_from_der_sim [sim_intros]:
  "follows (signed_data_from_der U n) (signed_data_from_der L n)"
  unfolding signed_data_from_der_def by (intro sim_intros refl)

lemma spki_from_der_sim [sim_intros]: "follows (spki_from_der U) (spki_from_der L)"
  unfolding spki_from_der_def by (intro sim_intros refl)

lemma verify_signature_indep: "verify_signature U = verify_signature L"
  unfolding verify_signature_def fun_eq_iff by (simp add: der_read_all_sim [OF spki_from_der_sim])

lemma verify_signed_data_indep: "verify_signed_data U = verify_signed_data L"
proof -
  have "verify_signed_data_loop U k d f algs = verify_signed_data_loop L k d f algs" for k d f algs
    by (induction algs arbitrary: f) (simp_all add: verify_signature_indep split: result.split)
  then show ?thesis by (simp add: verify_signed_data_def fun_eq_iff)
qed

end

section \<open>What is read\<close>

lemma signed_data_to_owned_borrow [simp]: "signed_data_borrow (signed_data_to_owned d) = d"
  by (simp add: signed_data_borrow_def signed_data_to_owned_def)

lemma total_signed_data_from_der [total_intros]: "total k (signed_data_from_der L n)"
  unfolding signed_data_from_der_def by (intro total_intros)

lemma total_spki_from_der [total_intros]: "total k (spki_from_der L)"
  unfolding spki_from_der_def by (intro total_intros)

text \<open>The octets of the key or signature in a bit string without unused bits.\<close>

abbreviation bit_string_octets :: "bytes \<Rightarrow> bytes" where
  "bit_string_octets v \<equiv> der_encode 3 (0 # v)"

lemma signed_data_from_der_iff:
  "signed_data_from_der L n r = (Ok (tbs, d), r') \<longleftrightarrow>
    length tbs < n \<and> length tbs < 2 ^ 32 \<and> length (algorithm d) < 65535 \<and> length (signature d) < 65534 \<and>
    data d = der_encode 0x30 tbs \<and>
    r = data d @ der_encode 0x30 (algorithm d) @ bit_string_octets (signature d) @ r'"
proof -
  have seq: "tag_u8 Tag_Sequence = 0x30" by (simp add: CONSTRUCTED_def)
  have "read_partial L (expect_tag_and_get_value_limited L Tag_Sequence n) r = (Ok (a, tbs), r1) \<longleftrightarrow>
      length tbs < n \<and> length tbs < 2 ^ 32 \<and> a = der_encode 0x30 tbs \<and> r = a @ r1" for a r1
    by (auto simp: read_partial_eq_Ok expect_tag_limited_iff seq)
  then show ?thesis
    unfolding signed_data_from_der_def
    by (cases d) (auto simp: run_Ok expect_tag_iff bit_string_with_no_unused_bits_iff seq)
qed

lemma spki_from_der_iff:
  "spki_from_der L r = (Ok k, r') \<longleftrightarrow>
    length (algorithm_id_value k) < 65535 \<and> length (key_value k) < 65534 \<and>
    r = der_encode 0x30 (algorithm_id_value k) @ bit_string_octets (key_value k) @ r'"
  unfolding spki_from_der_def
  by (cases k) (auto simp: run_Ok expect_tag_iff bit_string_with_no_unused_bits_iff CONSTRUCTED_def)

section \<open>Which algorithm verifies a signature\<close>

lemma raises_spki_from_der:
  "raises {BadDer, TrailingData TypeId_BitString} (spki_from_der L)"
  unfolding spki_from_der_def by (intro raises_intros) simp_all

lemma spki_error:
  "der_read_all L TypeId_SubjectPublicKeyInfo (spki_from_der L) bs \<noteq> Err UnsupportedSignatureAlgorithmForPublicKey"
  using read_all_raises [of "{BadDer, TrailingData TypeId_BitString, TrailingData TypeId_SubjectPublicKeyInfo}"
      "spki_from_der L" "TrailingData TypeId_SubjectPublicKeyInfo" bs] raises_spki_from_der
  by (fastforce simp: der_read_all_def raises_def)

lemma verify_signed_data_loop_spki:
  assumes "der_read_all L TypeId_SubjectPublicKeyInfo (spki_from_der L) spki = Ok k"
  shows "verify_signed_data_loop L spki d found algs =
    (case find (\<lambda>a. asn1_id_value (public_key_alg_id a) = algorithm_id_value k) algs of
       Some a \<Rightarrow> if verify_fn a (key_value k) (data d) (signature d) then Ok () else Err InvalidSignatureForPublicKey
     | None \<Rightarrow> if found \<or> algs \<noteq> [] then Err UnsupportedSignatureAlgorithmForPublicKey
         else Err UnsupportedSignatureAlgorithm)"
  using assms
  by (induction algs arbitrary: found)
    (auto simp: verify_signature_def matches_algorithm_id_value_def split: option.split)

lemma find_filter: "find P (filter Q xs) = find (\<lambda>x. Q x \<and> P x) xs"
  by (induction xs) auto

text \<open>
  The reference: the first algorithm whose two identifiers are those of the signature and of the key
  decides, whatever else the list holds.
\<close>

definition verify_signed_data_spec ::
    "SignatureVerificationAlgorithm list \<Rightarrow> SubjectPublicKeyInfo result \<Rightarrow> SignedData \<Rightarrow> unit result" where
  "verify_signed_data_spec algs spki d =
    (if \<forall>a \<in> set algs. asn1_id_value (signature_alg_id a) \<noteq> algorithm d then Err UnsupportedSignatureAlgorithm
     else res_bind spki (\<lambda>k.
       case find (\<lambda>a. asn1_id_value (signature_alg_id a) = algorithm d \<and>
                      asn1_id_value (public_key_alg_id a) = algorithm_id_value k) algs of
         None \<Rightarrow> Err UnsupportedSignatureAlgorithmForPublicKey
       | Some a \<Rightarrow> if verify_fn a (key_value k) (data d) (signature d) then Ok ()
                   else Err InvalidSignatureForPublicKey))"

lemma verify_signed_data_refines:
  "verify_signed_data L algs spki d =
    verify_signed_data_spec algs (der_read_all L TypeId_SubjectPublicKeyInfo (spki_from_der L) spki) d"
proof -
  define matching where "matching = filter (\<lambda>a. asn1_id_value (signature_alg_id a) = algorithm d) algs"
  have unf: "verify_signed_data L algs spki d = verify_signed_data_loop L spki d False matching"
    unfolding verify_signed_data_def matching_def matches_algorithm_id_value_def
    by (simp add: eq_commute)
  show ?thesis
  proof (cases matching)
    case Nil
    then have "\<forall>a \<in> set algs. asn1_id_value (signature_alg_id a) \<noteq> algorithm d"
      by (simp add: matching_def filter_empty_conv)
    with Nil unf show ?thesis by (simp add: verify_signed_data_spec_def)
  next
    case (Cons a rest)
    then have "a \<in> set matching" by simp
    then have some: "\<not> (\<forall>a \<in> set algs. asn1_id_value (signature_alg_id a) \<noteq> algorithm d)"
      by (auto simp: matching_def)
    show ?thesis
    proof (cases "der_read_all L TypeId_SubjectPublicKeyInfo (spki_from_der L) spki")
      case (Ok k)
      from verify_signed_data_loop_spki [OF this, of d False matching] Cons
      show ?thesis unfolding unf verify_signed_data_spec_def if_not_P [OF some]
        by (simp add: Ok matching_def find_filter)
    qed (use some Cons spki_error [of spki] in \<open>auto simp: unf verify_signed_data_spec_def verify_signature_def\<close>)
  qed
qed

lemma verify_signed_data_fine: "fine k (verify_signed_data L algs spki d)"
  unfolding verify_signed_data_refines verify_signed_data_spec_def der_read_all_def
  by (auto intro!: res_bind_fine total_intros split: option.split)

section \<open>Properties\<close>



end
