(* ===== verification/Trust_Anchor.thy ===== *)
theory Trust_Anchor
  imports Cert
begin

text \<open>
  Trust anchors (\<^verbatim>\<open>src/trust_anchor.rs\<close>). The struct \<^verbatim>\<open>TrustAnchor\<close> belongs to the crate \<^verbatim>\<open>pki_types\<close>; the
  record has the three fields this crate reads and writes.
\<close>

record TrustAnchor =
  ta_subject :: bytes
  ta_subject_public_key_info :: bytes
  ta_name_constraints :: "bytes option"

definition trust_anchor_from_cert :: "Cert \<Rightarrow> TrustAnchor" where
  "trust_anchor_from_cert cert =
    \<lparr>ta_subject = cert_subject (cert_body cert),
     ta_subject_public_key_info = cert_spki (cert_body cert),
     ta_name_constraints = cert_name_constraints (cert_body cert)\<rparr>"

definition skip :: "'r untrusted \<Rightarrow> tag \<Rightarrow> ('r, unit) parser" where
  "skip U tag = and_then (expect_tag U tag) (\<lambda>_. ok ())"

definition v1_tbs :: "'r untrusted \<Rightarrow> ('r, TrustAnchor) parser" where
  "v1_tbs U =
    and_then (lenient_certificate_serial_number U) (\<lambda>_.
    and_then (skip U Tag_Sequence) (\<lambda>_.
    and_then (skip U Tag_Sequence) (\<lambda>_.
    and_then (skip U Tag_Sequence) (\<lambda>_.
    and_then (expect_tag U Tag_Sequence) (\<lambda>subject.
    and_then (expect_tag U Tag_Sequence) (\<lambda>spki.
      ok \<lparr>ta_subject = subject, ta_subject_public_key_info = spki, ta_name_constraints = None\<rparr>))))))"

definition extract_trust_anchor_from_v1_cert_der :: "'r untrusted \<Rightarrow> bytes \<Rightarrow> TrustAnchor result" where
  "extract_trust_anchor_from_v1_cert_der U cert_der =
    read_all U BadDer
      (nested U Tag_Sequence (TrailingData TypeId_TrustAnchorV1)
        (and_then (reify (nested U Tag_Sequence (TrailingData TypeId_TrustAnchorV1TbsCertificate) (v1_tbs U))) (\<lambda>anchor.
         and_then (skip U Tag_Sequence) (\<lambda>_.
         and_then (skip U Tag_BitString) (\<lambda>_.
           of_result anchor)))))
      cert_der"

definition extract_trust_anchor :: "'r untrusted \<Rightarrow> bytes \<Rightarrow> TrustAnchor result" where
  "extract_trust_anchor U cert =
    (case cert_from_der U cert EndEntity of
       Ok cert \<Rightarrow> Ok (trust_anchor_from_cert cert)
     | Err err \<Rightarrow>
         if err = UnsupportedCertVersion
         then res_map_err (\<lambda>_. BadDer) (extract_trust_anchor_from_v1_cert_der U cert)
         else Err err
     | Panic \<Rightarrow> Panic
     | Diverge \<Rightarrow> Diverge)"

context untrusted_reader
begin

lemma skip_sim [sim_intros]: "follows (skip U t) (skip L t)"
  unfolding skip_def by (intro sim_intros refl)

lemma v1_tbs_sim [sim_intros]: "follows (v1_tbs U) (v1_tbs L)"
  unfolding v1_tbs_def by (intro sim_intros refl)

lemma extract_trust_anchor_indep: "extract_trust_anchor U = extract_trust_anchor L"
proof -
  have "extract_trust_anchor_from_v1_cert_der U c = extract_trust_anchor_from_v1_cert_der L c" for c
    unfolding extract_trust_anchor_from_v1_cert_der_def by (intro sim_intros refl)
  then show ?thesis
    unfolding extract_trust_anchor_def cert_from_der_indep by (simp add: fun_eq_iff split: result.split)
qed

end

end
