(* ===== verification/Once_Store.thy ===== *)
theory Once_Store
  imports Webpki_Error
begin

text \<open>
  Slots that are set at most once. Certificates and revocation lists keep one optional field for each
  extension they know and refuse a second extension of the same kind. The locale \<open>once_store\<close> is the
  contract of such a set of fields (what a lookup gives after an update); its lemmas say what a whole
  sequence of set-once updates does.
\<close>

definition put_once ::
    "('k \<Rightarrow> 's \<Rightarrow> 'v option) \<Rightarrow> ('k \<Rightarrow> 'v \<Rightarrow> 's \<Rightarrow> 's) \<Rightarrow> 'k \<Rightarrow> 'v result \<Rightarrow> 's \<Rightarrow> 's result" where
  "put_once get put k v s =
    (case get k s of Some _ \<Rightarrow> Err ExtensionValueInvalid | None \<Rightarrow> res_bind v (\<lambda>x. Ok (put k x s)))"

primrec put_all ::
    "('k \<Rightarrow> 's \<Rightarrow> 'v option) \<Rightarrow> ('k \<Rightarrow> 'v \<Rightarrow> 's \<Rightarrow> 's) \<Rightarrow> 's \<Rightarrow> ('k \<times> 'v result) list \<Rightarrow> 's result" where
  "put_all get put s [] = Ok s"
| "put_all get put s (kv # kvs) = res_bind (put_once get put (fst kv) (snd kv) s) (\<lambda>s'. put_all get put s' kvs)"

locale once_store =
  fixes get :: "'k \<Rightarrow> 's \<Rightarrow> 'v option"
    and put :: "'k \<Rightarrow> 'v \<Rightarrow> 's \<Rightarrow> 's"
    and keys :: "'k set"
  assumes get_put: "k \<in> keys \<Longrightarrow> j \<in> keys \<Longrightarrow> get j (put k v s) = (if j = k then Some v else get j s)"
begin

lemma put_once_Ok:
  "put_once get put k v s = Ok s' \<longleftrightarrow> get k s = None \<and> (\<exists>x. v = Ok x \<and> s' = put k x s)"
  by (auto simp: put_once_def split: option.splits)

lemma put_all_unchanged:
  assumes "put_all get put s kvs = Ok s'" "fst ` set kvs \<subseteq> keys" "j \<in> keys" "j \<notin> fst ` set kvs"
  shows "get j s' = get j s"
  using assms by (induction kvs arbitrary: s) (auto simp: put_once_Ok get_put)

lemma put_all_step:
  assumes "put_all get put s ((k, v) # kvs) = Ok s'"
  obtains x where "v = Ok x" "get k s = None" "put_all get put (put k x s) kvs = Ok s'"
  using assms by (auto simp: put_once_Ok)

lemma put_all_free:
  assumes "put_all get put s kvs = Ok s'" "fst ` set kvs \<subseteq> keys"
  shows "distinct (map fst kvs) \<and> (\<forall>k \<in> fst ` set kvs. get k s = None)"
  using assms
proof (induction kvs arbitrary: s)
  case (Cons kv kvs)
  obtain k v where kv: "kv = (k, v)" by force
  from Cons.prems(1) [unfolded kv] obtain x where "v = Ok x" and free: "get k s = None"
    and "put_all get put (put k x s) kvs = Ok s'"
    by (rule put_all_step)
  moreover from Cons.prems kv have keys: "k \<in> keys" "fst ` set kvs \<subseteq> keys" by auto
  ultimately have IH: "distinct (map fst kvs)" "\<forall>j \<in> fst ` set kvs. get j (put k x s) = None"
    using Cons.IH by auto
  have "j \<noteq> k \<and> get j s = None" if "j \<in> fst ` set kvs" for j
  proof -
    from IH(2) that have "get j (put k x s) = None" by (rule bspec)
    moreover from that keys have "j \<in> keys" by blast
    ultimately show ?thesis using keys by (auto simp: get_put split: if_splits)
  qed
  with IH(1) free show ?case by (auto simp: kv)
qed simp

lemma put_all_get:
  assumes "put_all get put s kvs = Ok s'" "fst ` set kvs \<subseteq> keys" "(k, v) \<in> set kvs"
  shows "\<exists>x. v = Ok x \<and> get k s' = Some x"
  using assms
proof (induction kvs arbitrary: s)
  case (Cons kv kvs)
  obtain j w where kv: "kv = (j, w)" by force
  from Cons.prems(1) [unfolded kv] obtain x where w: "w = Ok x"
    and rest: "put_all get put (put j x s) kvs = Ok s'"
    by (rule put_all_step)
  show ?case
  proof (cases "(k, v) \<in> set kvs")
    case True
    with Cons.IH [OF rest] Cons.prems(2) show ?thesis by auto
  next
    case False
    with Cons.prems(3) kv have "k = j" "v = w" by auto
    moreover from put_all_free [OF Cons.prems(1,2)] kv have "j \<notin> fst ` set kvs" by auto
    with rest Cons.prems(2) kv have "get j s' = get j (put j x s)"
      by (intro put_all_unchanged) auto
    ultimately show ?thesis using w Cons.prems(2) kv by (simp add: get_put)
  qed
qed simp

text \<open>Different slots that are still empty can all be set.\<close>

lemma put_all_succeeds:
  assumes "distinct (map fst kvs)" "fst ` set kvs \<subseteq> keys"
    and "\<forall>(k, v) \<in> set kvs. get k s = None \<and> (\<exists>x. v = Ok x)"
  shows "\<exists>s'. put_all get put s kvs = Ok s'"
  using assms
proof (induction kvs arbitrary: s)
  case (Cons kv kvs)
  then obtain k x where kv: "kv = (k, Ok x)" "get k s = None" by (cases kv) auto
  have "\<forall>(j, v) \<in> set kvs. get j (put k x s) = None \<and> (\<exists>x. v = Ok x)"
  proof (intro ballI, clarify)
    fix j v
    assume jv: "(j, v) \<in> set kvs"
    then have "j \<noteq> k" "k \<in> keys" "j \<in> keys" using Cons.prems(1,2) kv by force+
    with jv Cons.prems(3) show "get j (put k x s) = None \<and> (\<exists>x. v = Ok x)" by (auto simp: get_put)
  qed
  with Cons.IH [of "put k x s"] Cons.prems(1,2) kv show ?case by (simp add: put_once_def)
qed simp

end

end
