(* ===== verification/Cert_Format.thy ===== *)
theory Cert_Format
  imports Cert Once_Store
begin

text \<open>
  What a parsed certificate says about the octets it was parsed from. The extension fields of a certificate
  are slots that are set at most once (an instance of the contract \<open>once_store\<close>); a certificate is
  accepted exactly when the octets are those of its fields, with the list of extensions that
  fills the slots.
\<close>

section \<open>The extension fields as slots\<close>

definition cert_ids :: "u8 set" where
  "cert_ids = {15, 17, 19, 30, 31, 37}"

definition cert_ext_get :: "u8 \<Rightarrow> cert_fields \<Rightarrow> bytes option" where
  "cert_ext_get k c =
    (if k = 15 then cert_key_usage c else if k = 17 then cert_subject_alt_name c
     else if k = 19 then cert_basic_constraints c else if k = 30 then cert_name_constraints c
     else if k = 31 then cert_crl_distribution_points c else if k = 37 then cert_eku c else None)"

definition cert_ext_put :: "u8 \<Rightarrow> bytes \<Rightarrow> cert_fields \<Rightarrow> cert_fields" where
  "cert_ext_put k v c =
    (if k = 15 then c\<lparr>cert_key_usage := Some v\<rparr> else if k = 17 then c\<lparr>cert_subject_alt_name := Some v\<rparr>
     else if k = 19 then c\<lparr>cert_basic_constraints := Some v\<rparr> else if k = 30 then c\<lparr>cert_name_constraints := Some v\<rparr>
     else if k = 31 then c\<lparr>cert_crl_distribution_points := Some v\<rparr> else if k = 37 then c\<lparr>cert_eku := Some v\<rparr> else c)"

interpretation cert_slots: once_store cert_ext_get cert_ext_put cert_ids
  by unfold_locales (auto simp: cert_ids_def cert_ext_get_def cert_ext_put_def)

text \<open>The fields of a certificate without its extensions.\<close>

definition no_extensions :: "cert_fields \<Rightarrow> cert_fields" where
  "no_extensions c = c\<lparr>cert_basic_constraints := None, cert_key_usage := None, cert_eku := None,
     cert_name_constraints := None, cert_subject_alt_name := None, cert_crl_distribution_points := None\<rparr>"

lemma no_extensions_put [simp]: "no_extensions (cert_ext_put k v c) = no_extensions c"
  by (auto simp: no_extensions_def cert_ext_put_def)

lemma no_extensions_get [simp]: "cert_ext_get k (no_extensions c) = None"
  by (simp add: no_extensions_def cert_ext_get_def)

lemma no_extensions_signed [simp]:
  "cert_serial (no_extensions c) = cert_serial c" "cert_signed_data (no_extensions c) = cert_signed_data c"
  "cert_issuer (no_extensions c) = cert_issuer c" "cert_validity (no_extensions c) = cert_validity c"
  "cert_subject (no_extensions c) = cert_subject c" "cert_spki (no_extensions c) = cert_spki c"
  by (simp_all add: no_extensions_def)

lemma cert_fields_eqI:
  assumes "no_extensions c = no_extensions d" and "\<And>k. k \<in> cert_ids \<Longrightarrow> cert_ext_get k c = cert_ext_get k d"
  shows "c = d"
  using assms(1) assms(2) [of 15] assms(2) [of 17] assms(2) [of 19] assms(2) [of 30] assms(2) [of 31] assms(2) [of 37]
  by (cases c; cases d) (simp add: no_extensions_def cert_ids_def cert_ext_get_def)

section \<open>One extension\<close>

text \<open>The last octet of the identifier, for the extensions a certificate has a slot for.\<close>

definition slot_of :: "Extension \<Rightarrow> u8 option" where
  "slot_of e =
    (case ext_id e of
       [a, b, n] \<Rightarrow> if a = 0x55 \<and> b = 0x1d \<and> n \<in> cert_ids then Some n else None
     | _ \<Rightarrow> None)"

lemma slot_of_Some: "slot_of e = Some n \<longleftrightarrow> ext_id e = [0x55, 0x1d, n] \<and> n \<in> cert_ids"
  by (auto simp: slot_of_def split: list.splits)

definition slot_value :: "u8 \<Rightarrow> bytes \<Rightarrow> bytes result" where
  "slot_value n v =
    (if n = 15 then read_all L BadDer (read_bytes_to_end L) v else read_all L BadDer (expect_tag L Tag_Sequence) v)"

lemma slot_value_Ok:
  "slot_value n v = Ok x \<longleftrightarrow> (if n = 15 then x = v else length x < 65535 \<and> v = der_encode 0x30 x)"
  by (auto simp: slot_value_def read_all_eq_Ok read_bytes_to_end_run expect_tag_iff CONSTRUCTED_def)

lemma slot_value_fine: "fine k (slot_value n v)"
  by (auto simp: slot_value_def intro!: total_intros)

lemma set_once_put:
  "res_bind (set_extension_once d v) (\<lambda>x. Ok (f x)) =
    (case d of Some _ \<Rightarrow> Err ExtensionValueInvalid | None \<Rightarrow> res_bind v (\<lambda>x. Ok (f (Some x))))"
  by (cases d; cases v) (simp_all add: set_extension_once_def)

lemma remember_cert_extension_eq:
  "remember_cert_extension L c e =
    (case slot_of e of
       None \<Rightarrow> if critical e then Err UnsupportedCriticalExtension else Ok c
     | Some n \<Rightarrow> put_once cert_ext_get cert_ext_put n (slot_value n (ext_value e)) c)"
proof (cases "\<exists>n. ext_id e = [0x55, 0x1d, n]")
  case True
  then obtain n where n: "ext_id e = [0x55, 0x1d, n]" ..
  obtain cr v where e: "e = \<lparr>critical = cr, ext_id = [0x55, 0x1d, n], ext_value = v\<rparr>"
    using n by (cases e) auto
  show ?thesis
    unfolding remember_cert_extension_def e remember_extension_arc
    by (auto simp: slot_of_def cert_ids_def put_once_def slot_value_def set_once_put cert_ext_get_def cert_ext_put_def unsupported_def Let_def
        split: option.split)
next
  case False
  then have "slot_of e = None" by (metis not_None_eq slot_of_Some)
  with False show ?thesis
    unfolding remember_cert_extension_def by (simp add: remember_extension_other)
qed

section \<open>The list of extensions\<close>

primrec fold_extensions :: "('s \<Rightarrow> Extension \<Rightarrow> 's result) \<Rightarrow> 's \<Rightarrow> Extension list \<Rightarrow> 's result" where
  "fold_extensions f s [] = Ok s"
| "fold_extensions f s (e # es) = res_bind (f s e) (\<lambda>s'. fold_extensions f s' es)"

abbreviation remember_all :: "cert_fields \<Rightarrow> Extension list \<Rightarrow> cert_fields result" where
  "remember_all \<equiv> fold_extensions (remember_cert_extension L)"

text \<open>The slots that a list of extensions fills, in order.\<close>

definition slots :: "Extension list \<Rightarrow> (u8 \<times> bytes result) list" where
  "slots es = List.map_filter (\<lambda>e. map_option (\<lambda>n. (n, slot_value n (ext_value e))) (slot_of e)) es"

lemma slots_simps [simp]:
  "slots [] = []"
  "slots (e # es) = (case slot_of e of None \<Rightarrow> slots es | Some n \<Rightarrow> (n, slot_value n (ext_value e)) # slots es)"
  by (auto simp: slots_def List.map_filter_def split: option.split)

lemma slots_ids: "fst ` set (slots es) \<subseteq> cert_ids"
  by (induction es) (auto simp: slot_of_Some split: option.splits)

definition no_critical_unknown :: "Extension list \<Rightarrow> bool" where
  "no_critical_unknown es \<longleftrightarrow> (\<forall>e \<in> set es. slot_of e = None \<longrightarrow> \<not> critical e)"

lemma remember_all_Ok:
  "remember_all c es = Ok c' \<longleftrightarrow> no_critical_unknown es \<and> put_all cert_ext_get cert_ext_put c (slots es) = Ok c'"
proof (induction es arbitrary: c)
  case Nil
  then show ?case by (simp add: no_critical_unknown_def)
next
  case (Cons e es)
  then show ?case
    by (cases "slot_of e") (auto simp: remember_cert_extension_eq no_critical_unknown_def)
qed

lemma no_extensions_put_all:
  "put_all cert_ext_get cert_ext_put c kvs = Ok c' \<Longrightarrow> no_extensions c' = no_extensions c"
  by (induction kvs arbitrary: c) (auto simp: cert_slots.put_once_Ok)

text \<open>
  The reference: which fields a list of extensions gives. Each slot is filled by at most one
  extension, an extension without a slot is not critical, and a slot holds the value of its extension.
\<close>

definition extensions_taken :: "Extension list \<Rightarrow> cert_fields \<Rightarrow> bool" where
  "extensions_taken es c \<longleftrightarrow>
    no_critical_unknown es \<and> distinct (List.map_filter slot_of es) \<and>
    (\<forall>e \<in> set es. \<forall>n. slot_of e = Some n \<longrightarrow>
      (\<exists>x. slot_value n (ext_value e) = Ok x \<and> cert_ext_get n c = Some x)) \<and>
    (\<forall>n \<in> cert_ids. cert_ext_get n c \<noteq> None \<longrightarrow> (\<exists>e \<in> set es. slot_of e = Some n))"

lemma slots_fst: "map fst (slots es) = List.map_filter slot_of es"
  by (induction es) (auto simp: List.map_filter_def split: option.splits)

lemma slots_mem: "(n, v) \<in> set (slots es) \<longleftrightarrow> (\<exists>e \<in> set es. slot_of e = Some n \<and> v = slot_value n (ext_value e))"
  by (induction es) (auto split: option.splits)

lemma slots_fst_mem: "n \<in> fst ` set (slots es) \<longleftrightarrow> (\<exists>e \<in> set es. slot_of e = Some n)"
  using slots_mem by force

lemma remember_all_iff:
  "remember_all (no_extensions c) es = Ok c' \<longleftrightarrow> no_extensions c' = no_extensions c \<and> extensions_taken es c'"
proof
  assume "remember_all (no_extensions c) es = Ok c'"
  then have *: "no_critical_unknown es" "put_all cert_ext_get cert_ext_put (no_extensions c) (slots es) = Ok c'"
    by (auto simp: remember_all_Ok)
  have "distinct (List.map_filter slot_of es)"
    using cert_slots.put_all_free [OF *(2) slots_ids] by (simp add: slots_fst)
  moreover have "\<exists>x. slot_value n (ext_value e) = Ok x \<and> cert_ext_get n c' = Some x"
    if "e \<in> set es" "slot_of e = Some n" for e n
    using that by (intro cert_slots.put_all_get [OF *(2) slots_ids]) (auto simp: slots_mem)
  moreover have "\<exists>e \<in> set es. slot_of e = Some n" if "n \<in> cert_ids" "cert_ext_get n c' \<noteq> None" for n
  proof (rule ccontr)
    assume "\<not> ?thesis"
    then have "n \<notin> fst ` set (slots es)" by (simp add: slots_fst_mem)
    from cert_slots.put_all_unchanged [OF *(2) slots_ids that(1) this] that(2) show False
      by simp
  qed
  moreover have "no_extensions c' = no_extensions c"
    using no_extensions_put_all [OF *(2)] by (simp add: no_extensions_def)
  ultimately show "no_extensions c' = no_extensions c \<and> extensions_taken es c'"
    using *(1) unfolding extensions_taken_def by blast
next
  assume a: "no_extensions c' = no_extensions c \<and> extensions_taken es c'"
  have "\<exists>d. put_all cert_ext_get cert_ext_put (no_extensions c) (slots es) = Ok d"
  proof (rule cert_slots.put_all_succeeds)
    show "distinct (map fst (slots es))" using a by (simp add: slots_fst extensions_taken_def)
    show "\<forall>(k, v) \<in> set (slots es). cert_ext_get k (no_extensions c) = None \<and> (\<exists>x. v = Ok x)"
      using a unfolding extensions_taken_def by (auto simp: slots_mem, blast)
  qed (rule slots_ids)
  then obtain d where d: "put_all cert_ext_get cert_ext_put (no_extensions c) (slots es) = Ok d" ..
  have "d = c'"
  proof (rule cert_fields_eqI)
    show "no_extensions d = no_extensions c'"
      using no_extensions_put_all [OF d] a by (simp add: no_extensions_def)
    fix n assume n: "n \<in> cert_ids"
    show "cert_ext_get n d = cert_ext_get n c'"
    proof (cases "\<exists>e \<in> set es. slot_of e = Some n")
      case True
      then obtain e where e: "e \<in> set es" "slot_of e = Some n" by blast
      then have "(n, slot_value n (ext_value e)) \<in> set (slots es)" by (auto simp: slots_mem)
      from cert_slots.put_all_get [OF d slots_ids this] a e show ?thesis
        unfolding extensions_taken_def by fastforce
    next
      case False
      then have "n \<notin> fst ` set (slots es)" by (simp add: slots_fst_mem)
      from cert_slots.put_all_unchanged [OF d slots_ids n this] have "cert_ext_get n d = None"
        by simp
      moreover from a n False have "cert_ext_get n c' = None" unfolding extensions_taken_def by blast
      ultimately show ?thesis by simp
    qed
  qed
  with d a show "remember_all (no_extensions c) es = Ok c'" by (simp add: remember_all_Ok extensions_taken_def)
qed

section \<open>The octets of a certificate\<close>

definition extension_octets :: "Extension \<Rightarrow> bytes set" where
  "extension_octets e =
    (\<lambda>f. der_encode 6 (ext_id e) @ f @ der_encode 4 (ext_value e)) ` critical_octets (critical e)"

text \<open>A certificate without extensions leaves the whole field out: an empty list is not allowed.\<close>

definition extensions_octets :: "Extension list \<Rightarrow> bytes set" where
  "extensions_octets es =
    (if es = [] then {[]}
     else {der_encode 0xA3 (der_encode 0x30 (items_octets Tag_Sequence vs)) |vs.
       list_all2 (\<lambda>v e. v \<in> extension_octets e) vs es})"

definition tbs_octets :: "cert_fields \<Rightarrow> bytes \<Rightarrow> bytes" where
  "tbs_octets c extensions =
    der_encode 0xA0 (der_encode 2 [2]) @ der_encode 2 (cert_serial c) @
    der_encode 0x30 (algorithm (cert_signed_data c)) @ der_encode 0x30 (cert_issuer c) @
    der_encode 0x30 (cert_validity c) @ der_encode 0x30 (cert_subject c) @ der_encode 0x30 (cert_spki c) @ extensions"

definition signed_octets :: "SignedData \<Rightarrow> bytes" where
  "signed_octets d = data d @ der_encode 0x30 (algorithm d) @ bit_string_octets (signature d)"

definition cert_encodes :: "bytes \<Rightarrow> cert_fields \<Rightarrow> Extension list \<Rightarrow> bool" where
  "cert_encodes der c es \<longleftrightarrow>
    (\<exists>x \<in> extensions_octets es. data (cert_signed_data c) = der_encode 0x30 (tbs_octets c x)) \<and>
    length (signed_octets (cert_signed_data c)) < 65535 \<and>
    der = der_encode 0x30 (signed_octets (cert_signed_data c))"

lemma der_encode_shorter: "length (der_encode t v) \<le> n \<Longrightarrow> length v < n"
  using length_der_encode [of v t] by linarith

lemma extension_octets_iff:
  assumes "length v < 65535"
  shows "extension_from_der L v = (Ok e, []) \<longleftrightarrow> v \<in> extension_octets e"
proof -
  have "length (ext_id e) < 65535 \<and> length (ext_value e) < 65535" if "v \<in> extension_octets e"
    using that assms length_der_encode [of "ext_id e" 6] length_der_encode [of "ext_value e" 4]
    by (auto simp: extension_octets_def)
  then show ?thesis unfolding extension_from_der_iff by (auto simp: extension_octets_def)
qed

lemma decode_extensions:
  assumes "\<forall>v \<in> set vs. length v < 65535"
  shows "decode_items (\<lambda>c. and_then (extension_from_der L) (\<lambda>e. of_result (f c e))) c vs = Some y \<longleftrightarrow>
    (\<exists>es. list_all2 (\<lambda>v e. v \<in> extension_octets e) vs es \<and> fold_extensions f c es = Ok y)"
  using assms
proof (induction vs arbitrary: c)
  case (Cons v vs)
  have "and_then (extension_from_der L) (\<lambda>e. of_result (f c e)) v = (Ok c', []) \<longleftrightarrow>
      (\<exists>e. v \<in> extension_octets e \<and> f c e = Ok c')" for c'
    unfolding and_then_eq_Ok of_result_eq_Ok using Cons.prems by (auto simp: extension_octets_iff)
  with Cons show ?case
    unfolding decode_items_Cons list_all2_Cons1 by (auto; fastforce)
qed simp

lemma items_octets_longer: "v \<in> set vs \<Longrightarrow> length v < length (items_octets t vs)"
proof (induction vs)
  case (Cons w vs)
  then show ?case using length_der_encode [of w "tag_u8 t"] by (auto simp: items_octets_def)
qed simp

lemma extensions_octets_some:
  "es \<noteq> [] \<and> r \<in> extensions_octets es \<longleftrightarrow>
    (\<exists>vs. vs \<noteq> [] \<and> r = der_encode 0xA3 (der_encode 0x30 (items_octets Tag_Sequence vs)) \<and>
      list_all2 (\<lambda>v e. v \<in> extension_octets e) vs es)"
  by (simp add: extensions_octets_def) (metis list_all2_Nil list_all2_Nil2)

lemma cert_extensions_iff:
  assumes "length r < 65535"
  shows "cert_extensions L (no_extensions c) r = (Ok c', []) \<longleftrightarrow>
    (\<exists>es. es \<noteq> [] \<and> r \<in> extensions_octets es \<and> no_extensions c' = no_extensions c \<and> extensions_taken es c')"
proof -
  have tags: "tag_u8 Tag_ContextSpecificConstructed3 = 0xA3" "tag_u8 Tag_Sequence = 0x30"
    by (simp_all add: CONSTRUCTED_def CONTEXT_SPECIFIC_def)
  have small: "length v < 65535" if "r = der_encode 0xA3 (der_encode 0x30 (items_octets Tag_Sequence vs))" "v \<in> set vs" for v vs
    using that(1) assms items_octets_longer [OF that(2), of Tag_Sequence] length_der_encode [of "items_octets Tag_Sequence vs" "0x30"]
      length_der_encode [of "der_encode 0x30 (items_octets Tag_Sequence vs)" "0xA3"] by simp
  have "cert_extensions L (no_extensions c) r = (Ok c', []) \<longleftrightarrow>
      (\<exists>vs. vs \<noteq> [] \<and> r = der_encode 0xA3 (der_encode 0x30 (items_octets Tag_Sequence vs)) \<and>
        (\<exists>es. list_all2 (\<lambda>v e. v \<in> extension_octets e) vs es \<and> remember_all (no_extensions c) es = Ok c'))"
    (is "_ \<longleftrightarrow> ?r")
  proof
    assume "cert_extensions L (no_extensions c) r = (Ok c', [])"
    then show ?r
      unfolding cert_extensions_def nested_iff nested_of_mut_iff tags by (auto simp: decode_extensions)
  next
    assume ?r
    then obtain vs where vs: "vs \<noteq> []" "r = der_encode 0xA3 (der_encode 0x30 (items_octets Tag_Sequence vs))"
      "\<exists>es. list_all2 (\<lambda>v e. v \<in> extension_octets e) vs es \<and> remember_all (no_extensions c) es = Ok c'" by blast
    from vs(2) assms have "length (der_encode 0x30 (items_octets Tag_Sequence vs)) < 65535"
      "length (items_octets Tag_Sequence vs) < 65535"
      using length_der_encode [of "items_octets Tag_Sequence vs" "0x30"]
        length_der_encode [of "der_encode 0x30 (items_octets Tag_Sequence vs)" "0xA3"] by simp_all
    with vs small show "cert_extensions L (no_extensions c) r = (Ok c', [])"
      unfolding cert_extensions_def nested_iff nested_of_mut_iff tags
      by (intro exI [of _ "der_encode 0x30 (items_octets Tag_Sequence vs)"] conjI exI [of _ vs])
        (auto simp: decode_extensions)
  qed
  also have "\<dots> \<longleftrightarrow> (\<exists>es. es \<noteq> [] \<and> r \<in> extensions_octets es \<and> no_extensions c' = no_extensions c \<and> extensions_taken es c')"
    unfolding remember_all_iff using extensions_octets_some by blast
  finally show ?thesis .
qed

lemma version3_iff: "version3 L r = (Ok x, r') \<longleftrightarrow> r = der_encode 0xA0 (der_encode 2 [2]) @ r'"
proof -
  have "and_then (u8_from_der L) (\<lambda>version. if version \<noteq> 2 then of_result (Err UnsupportedCertVersion) else ok ()) v
      = (Ok x, []) \<longleftrightarrow> v = der_encode 2 [2]" for v
    unfolding run_Ok u8_from_der_iff by (auto simp: der_encode_short split: if_splits)
  then show ?thesis unfolding version3_def nested_iff
    by (auto simp: CONSTRUCTED_def CONTEXT_SPECIFIC_def der_encode_short)
qed

lemma no_extension_taken: "extensions_taken [] c \<longleftrightarrow> no_extensions c = c"
proof -
  have "extensions_taken [] c \<longleftrightarrow> (\<forall>n \<in> cert_ids. cert_ext_get n c = None)"
    by (auto simp: extensions_taken_def no_critical_unknown_def List.map_filter_def)
  moreover have "no_extensions c = c" if "\<forall>n \<in> cert_ids. cert_ext_get n c = None"
  proof (rule cert_fields_eqI)
    show "no_extensions (no_extensions c) = no_extensions c" by (simp add: no_extensions_def)
  qed (use that in simp)
  moreover have "cert_ext_get n c = None" if "no_extensions c = c" for n
    using no_extensions_get [of n c] unfolding that .
  ultimately show ?thesis by blast
qed

lemma optional_extensions_iff:
  assumes "length r < 65535" "no_extensions b = b"
  shows "and_then (at_end L) (\<lambda>e. if e then ok b else cert_extensions L b) r = (Ok c, []) \<longleftrightarrow>
    (\<exists>es. r \<in> extensions_octets es \<and> no_extensions c = b \<and> extensions_taken es c)"
proof (cases "r = []")
  case True
  have "[] \<in> extensions_octets es \<longleftrightarrow> es = []" for es
    by (auto simp: extensions_octets_def der_encode_def)
  then have "(\<exists>es. r \<in> extensions_octets es \<and> no_extensions c = b \<and> extensions_taken es c) \<longleftrightarrow> c = b"
    using True assms(2) no_extension_taken by metis
  with True show ?thesis by (auto simp: and_then_run at_end_run ok_run)
next
  case False
  then have "r \<in> extensions_octets es \<longleftrightarrow> es \<noteq> [] \<and> r \<in> extensions_octets es" for es
    by (auto simp: extensions_octets_def)
  moreover have "and_then (at_end L) (\<lambda>e. if e then ok b else cert_extensions L b) r = cert_extensions L b r"
    using False by (simp add: and_then_run at_end_run)
  ultimately show ?thesis using cert_extensions_iff [OF assms(1), of b c] assms(2) by metis
qed

lemma length_tbs_octets:
  "length (cert_serial c) < length (tbs_octets c x)" "length (algorithm (cert_signed_data c)) < length (tbs_octets c x)"
  "length (cert_issuer c) < length (tbs_octets c x)" "length (cert_validity c) < length (tbs_octets c x)"
  "length (cert_subject c) < length (tbs_octets c x)" "length (cert_spki c) < length (tbs_octets c x)"
  "length x < length (tbs_octets c x)"
  using length_der_encode [of "cert_serial c" 2] length_der_encode [of "algorithm (cert_signed_data c)" "0x30"]
    length_der_encode [of "cert_issuer c" "0x30"] length_der_encode [of "cert_validity c" "0x30"]
    length_der_encode [of "cert_subject c" "0x30"] length_der_encode [of "cert_spki c" "0x30"]
  by (simp_all add: tbs_octets_def) (simp add: der_encode_def)

lemma tbs_octets_cong:
  "no_extensions c = no_extensions d \<Longrightarrow> tbs_octets c x = tbs_octets d x"
  unfolding tbs_octets_def by (metis no_extensions_signed)

lemma cert_tbs_iff:
  assumes "length r < 65535"
  shows "cert_tbs L d r = (Ok c, []) \<longleftrightarrow>
    cert_signed_data c = d \<and> (\<exists>es. \<exists>x \<in> extensions_octets es. r = tbs_octets c x \<and> extensions_taken es c)"
    (is "?l \<longleftrightarrow> ?r")
proof -
  define base where "base s i v n k = \<lparr>cert_serial = s, cert_signed_data = d, cert_issuer = i,
      cert_validity = v, cert_subject = n, cert_spki = k, cert_basic_constraints = None, cert_key_usage = None,
      cert_eku = None, cert_name_constraints = None, cert_subject_alt_name = None,
      cert_crl_distribution_points = None\<rparr>" for s i v n k
  have base: "no_extensions (base s i v n k) = base s i v n k"
    "tbs_octets (base s i v n k) x = der_encode 0xA0 (der_encode 2 [2]) @ der_encode 2 s @ der_encode 0x30 (algorithm d) @
      der_encode 0x30 i @ der_encode 0x30 v @ der_encode 0x30 n @ der_encode 0x30 k @ x" for s i v n k x
    by (simp_all add: base_def no_extensions_def tbs_octets_def)
  have tags: "tag_u8 Tag_Integer = 2" "tag_u8 Tag_Sequence = 0x30" by (simp_all add: CONSTRUCTED_def)
  have tag: "and_then (expect_tag L t) f q = (Ok c, []) \<longleftrightarrow>
      (\<exists>v x. q = der_encode (tag_u8 t) v @ x \<and> length v < 65535 \<and> f v x = (Ok c, []))" for t and f :: "bytes \<Rightarrow> (bytes, cert_fields) parser" and q
    unfolding and_then_eq_Ok expect_tag_iff by blast
  have version: "and_then (version3 L) f r = (Ok c, []) \<longleftrightarrow>
      (\<exists>x. r = der_encode 0xA0 (der_encode 2 [2]) @ x \<and> f () x = (Ok c, []))" for f :: "unit \<Rightarrow> (bytes, cert_fields) parser"
    unfolding and_then_eq_Ok version3_iff by simp
  have "?l \<longleftrightarrow> (\<exists>s i v n k x. r = tbs_octets (base s i v n k) x \<and> length s < 65535 \<and> length (algorithm d) < 65535 \<and>
      length i < 65535 \<and> length v < 65535 \<and> length n < 65535 \<and> length k < 65535 \<and>
      and_then (at_end L) (\<lambda>e. if e then ok (base s i v n k) else cert_extensions L (base s i v n k)) x = (Ok c, []))"
    (is "_ \<longleftrightarrow> ?m")
  proof
    assume ?l
    then show ?m
      unfolding cert_tbs_def Let_def base_def [symmetric] base(2) version lenient_certificate_serial_number_def tag guard_eq_Ok tags
      by - (elim exE conjE, unfold not_not, intro exI conjI, hypsubst, rule refl, assumption, simp, assumption+)
  next
    assume ?m
    then show ?l
      unfolding cert_tbs_def Let_def base_def [symmetric] base(2) version lenient_certificate_serial_number_def tag guard_eq_Ok tags
      by (elim exE conjE) (intro exI conjI, assumption, rule refl, assumption, rule refl, assumption, simp, rule refl,
        assumption, rule refl, assumption, rule refl, assumption, rule refl, assumption+)
  qed
  also have "\<dots> \<longleftrightarrow> (\<exists>s i v n k x. r = tbs_octets (base s i v n k) x \<and>
      (\<exists>es. x \<in> extensions_octets es \<and> no_extensions c = base s i v n k \<and> extensions_taken es c))"
    (is "?m \<longleftrightarrow> ?m'")
  proof -
    have small: "length s < 65535 \<and> length (algorithm d) < 65535 \<and> length i < 65535 \<and> length v < 65535 \<and>
      length n < 65535 \<and> length k < 65535 \<and> length x < 65535" if "r = tbs_octets (base s i v n k) x" for s i v n k x
      using length_tbs_octets [where c = "base s i v n k" and x = x] assms that by (simp add: base_def)
    show ?thesis
    proof (intro ex_cong1 conj_cong refl)
      fix s i v n k x
      assume "r = tbs_octets (base s i v n k) x"
      note this [THEN small]
      moreover from this have "and_then (at_end L) (\<lambda>e. if e then ok (base s i v n k) else cert_extensions L (base s i v n k)) x =
          (Ok c, []) \<longleftrightarrow> (\<exists>es. x \<in> extensions_octets es \<and> no_extensions c = base s i v n k \<and> extensions_taken es c)"
        by (intro optional_extensions_iff base(1)) simp
      ultimately show "(length s < 65535 \<and> length (algorithm d) < 65535 \<and> length i < 65535 \<and> length v < 65535 \<and>
          length n < 65535 \<and> length k < 65535 \<and>
          and_then (at_end L) (\<lambda>e. if e then ok (base s i v n k) else cert_extensions L (base s i v n k)) x = (Ok c, [])) \<longleftrightarrow>
        (\<exists>es. x \<in> extensions_octets es \<and> no_extensions c = base s i v n k \<and> extensions_taken es c)"
        by blast
    qed
  qed
  also have "\<dots> \<longleftrightarrow> ?r"
  proof
    assume ?m'
    then obtain s i v n k x es where m: "r = tbs_octets (base s i v n k) x" "x \<in> extensions_octets es"
      "no_extensions c = base s i v n k" "extensions_taken es c" by blast
    from m(3) have "cert_signed_data c = d" by (metis no_extensions_signed(2) base_def cert_fields.select_convs(2))
    moreover from m(3) base(1) have "tbs_octets c x = tbs_octets (base s i v n k) x" by (intro tbs_octets_cong) simp
    ultimately show ?r using m by metis
  next
    assume ?r
    then obtain x es where m: "cert_signed_data c = d" "x \<in> extensions_octets es" "r = tbs_octets c x" "extensions_taken es c"
      by blast
    have "no_extensions c = base (cert_serial c) (cert_issuer c) (cert_validity c) (cert_subject c) (cert_spki c)"
      using m(1) by (cases c) (simp add: base_def no_extensions_def)
    moreover from this base(1) have
      "tbs_octets c x = tbs_octets (base (cert_serial c) (cert_issuer c) (cert_validity c) (cert_subject c) (cert_spki c)) x"
      by (intro tbs_octets_cong) simp
    ultimately show ?m' using m by blast
  qed
  finally show ?thesis .
qed

lemma total_cert_tbs [total_intros]: "total k (cert_tbs L d)"
proof -
  have "fine k (remember_cert_extension L c e)" for c e
    unfolding remember_cert_extension_eq put_once_def
    by (auto intro!: res_bind_fine slot_value_fine split: option.split)
  then show ?thesis
    unfolding cert_tbs_def version3_def lenient_certificate_serial_number_def cert_extensions_def Let_def
    by (intro total_intros)
qed

lemma cert_from_der_fine: "fine k (cert_from_der L der role)"
  unfolding cert_from_der_def by (intro res_bind_fine total_intros) (auto intro!: res_bind_fine total_intros)

lemma cert_from_der_iff:
  "cert_from_der L der role = Ok c \<longleftrightarrow>
    ee_or_ca c = role \<and> (\<exists>es. cert_encodes der (cert_body c) es \<and> extensions_taken es (cert_body c))"
proof -
  have seq: "tag_u8 Tag_Sequence = 0x30" by (simp add: CONSTRUCTED_def)
  have signed: "read_all L e (nested L Tag_Sequence e' (signed_data_from_der L TWO_BYTE_DER_SIZE)) der = Ok (tbs, d) \<longleftrightarrow>
      der = der_encode 0x30 (signed_octets d) \<and> length (signed_octets d) < 65535 \<and> data d = der_encode 0x30 tbs" for e e' tbs d
    unfolding read_all_eq_Ok nested_iff signed_data_from_der_iff seq
    using length_der_encode [of tbs "0x30"] length_der_encode [of "algorithm d" "0x30"] length_der_encode [of "0 # signature d" 3]
    by (auto simp: signed_octets_def der_limits)
  have tbs: "read_all L e (cert_tbs L d) tbs = Ok b \<longleftrightarrow>
      cert_signed_data b = d \<and> (\<exists>es. \<exists>x \<in> extensions_octets es. tbs = tbs_octets b x \<and> extensions_taken es b)"
    if "length (signed_octets d) < 65535" "data d = der_encode 0x30 tbs" for e tbs d b
    unfolding read_all_eq_Ok using that length_der_encode [of tbs "0x30"]
    by (intro cert_tbs_iff) (simp add: signed_octets_def)
  have "cert_from_der L der role = Ok c \<longleftrightarrow> ee_or_ca c = role \<and>
      (\<exists>tbs. der = der_encode 0x30 (signed_octets (cert_signed_data (cert_body c))) \<and>
        length (signed_octets (cert_signed_data (cert_body c))) < 65535 \<and>
        data (cert_signed_data (cert_body c)) = der_encode 0x30 tbs \<and>
        (\<exists>es. \<exists>x \<in> extensions_octets es. tbs = tbs_octets (cert_body c) x \<and> extensions_taken es (cert_body c)))"
    unfolding cert_from_der_def
    apply (cases c)
    apply (auto simp: signed tbs)
    subgoal for b es x
      by (intro exI [of _ "tbs_octets b x"] exI [of _ "cert_signed_data b"]) (auto simp: tbs)
    done
  also have "\<dots> \<longleftrightarrow> ee_or_ca c = role \<and> (\<exists>es. cert_encodes der (cert_body c) es \<and> extensions_taken es (cert_body c))"
    unfolding cert_encodes_def by auto
  finally show ?thesis .
qed

section \<open>Properties\<close>

text \<open>C7: a certificate is accepted exactly when the octets are those of the parsed fields: version 3, the algorithm of
  the signature twice, the fields in order, a list of extensions that fills the extension fields, each
  at most once and with no unknown critical one, and nothing else. The signed octets kept for the
  signature check are exactly those of the fields. The role given to the certificate is kept.\<close>

theorem cert_from_der_exact:
  assumes "untrusted_reader U rest later"
  shows "cert_from_der U der role = Ok c \<longleftrightarrow>
    ee_or_ca c = role \<and> (\<exists>es. cert_encodes der (cert_body c) es \<and> extensions_taken es (cert_body c))"
  unfolding untrusted_reader.cert_from_der_indep [OF assms] by (rule cert_from_der_iff)

definition small_extension :: Extension where
  "small_extension = \<lparr>critical = True, ext_id = [0x55, 0x1d, 15], ext_value = [3, 2, 5, 0xA0]\<rparr>"

definition small_extensions :: bytes where
  "small_extensions = [0xA3, 18, 0x30, 16, 0x30, 14, 6, 3, 0x55, 0x1d, 15, 1, 1, 0xff, 4, 4, 3, 2, 5, 0xA0]"

text \<open>From 1970-01-01 00:00:00 to the same second.\<close>

definition small_validity :: bytes where
  "small_validity = concat (replicate 2 [0x17, 13, 0x37, 0x30, 0x30, 0x31, 0x30, 0x31, 0x30, 0x30, 0x30, 0x30, 0x30, 0x30, 0x5A])"

definition small_tbs :: bytes where
  "small_tbs = [0xA0, 3, 2, 1, 2, 2, 1, 7, 0x30, 1, 9, 0x30, 0, 0x30, 30] @ small_validity @ [0x30, 0, 0x30, 1, 4] @ small_extensions"

definition small_fields :: cert_fields where
  "small_fields = \<lparr>cert_serial = [7],
     cert_signed_data = \<lparr>data = 0x30 # 70 # small_tbs, algorithm = [9], signature = [8]\<rparr>,
     cert_issuer = [], cert_validity = small_validity, cert_subject = [], cert_spki = [4],
     cert_basic_constraints = None, cert_key_usage = Some [3, 2, 5, 0xA0], cert_eku = None,
     cert_name_constraints = None, cert_subject_alt_name = None, cert_crl_distribution_points = None\<rparr>"

lemma small_extensions_octets: "small_extensions \<in> extensions_octets [small_extension]"
proof -
  define v :: bytes where "v = [6, 3, 0x55, 0x1d, 15, 1, 1, 0xff, 4, 4, 3, 2, 5, 0xA0]"
  have "v \<in> extension_octets small_extension"
    by (simp add: v_def extension_octets_def small_extension_def critical_octets_def der_encode_short)
  moreover have "small_extensions = der_encode 0xA3 (der_encode 0x30 (items_octets Tag_Sequence [v]))"
    by (simp add: small_extensions_def v_def items_octets_def der_encode_short CONSTRUCTED_def)
  ultimately show ?thesis by (auto simp: extensions_octets_def intro!: exI [of _ "[v]"])
qed

definition small_cert :: bytes where
  "small_cert = 0x30 # 79 # 0x30 # 70 # small_tbs @ [0x30, 1, 9, 3, 2, 0, 8]"

lemma small_cert_fields: "cert_encodes small_cert small_fields [small_extension]" "extensions_taken [small_extension] small_fields"
proof -
  show "cert_encodes small_cert small_fields [small_extension]"
    unfolding cert_encodes_def using small_extensions_octets
    by (auto simp: small_cert_def small_fields_def small_tbs_def tbs_octets_def signed_octets_def der_encode_short
      small_extensions_def small_validity_def numeral_2_eq_2 intro!: bexI [of _ small_extensions])
  show "extensions_taken [small_extension] small_fields"
    by (auto simp: extensions_taken_def no_critical_unknown_def small_extension_def small_fields_def slot_of_def
      cert_ids_def List.map_filter_def slot_value_Ok cert_ext_get_def)
qed

theorem cert_from_der_exact_witness:
  "cert_from_der list_reader small_cert EndEntity = Ok (Cert EndEntity small_fields)"
  using small_cert_fields cert_from_der_exact [OF lr.untrusted_reader_axioms, of small_cert EndEntity "Cert EndEntity small_fields"]
  by auto

end
