(* ===== verification/Anchor_Format.thy ===== *)
theory Anchor_Format
  imports Trust_Anchor Cert_Format
begin

text \<open>
  Which octets give a trust anchor: those of a certificate of version 3, and those of a certificate of version 1, which has
  neither a version field nor extensions.
\<close>

definition v1_octets :: "bytes \<Rightarrow> bytes \<Rightarrow> bytes \<Rightarrow> bytes \<Rightarrow> TrustAnchor \<Rightarrow> bytes" where
  "v1_octets sn alg iss val a =
    der_encode 2 sn @ der_encode 0x30 alg @ der_encode 0x30 iss @ der_encode 0x30 val @
    der_encode 0x30 (ta_subject a) @ der_encode 0x30 (ta_subject_public_key_info a)"

definition v1_encodes :: "bytes \<Rightarrow> TrustAnchor \<Rightarrow> bool" where
  "v1_encodes der a \<longleftrightarrow> ta_name_constraints a = None \<and>
    (\<exists>sn alg iss val d. data d = der_encode 0x30 (v1_octets sn alg iss val a) \<and>
      length (signed_octets d) < 65535 \<and> der = der_encode 0x30 (signed_octets d))"

lemma skip_iff: "skip L t r = (Ok u, r') \<longleftrightarrow> (\<exists>v. length v < 65535 \<and> r = der_encode (tag_u8 t) v @ r')"
  by (auto simp: skip_def and_then_eq_Ok expect_tag_iff ok_eq_Ok)

lemma v1_tbs_iff:
  assumes "length r < 65535"
  shows "v1_tbs L r = (Ok a, []) \<longleftrightarrow> ta_name_constraints a = None \<and> (\<exists>sn alg iss val. r = v1_octets sn alg iss val a)"
proof -
  have seq: "tag_u8 Tag_Sequence = 0x30" by (simp add: CONSTRUCTED_def)
  have "v1_tbs L r = (Ok a, []) \<longleftrightarrow> ta_name_constraints a = None \<and>
      (\<exists>sn alg iss val. length sn < 65535 \<and> length alg < 65535 \<and> length iss < 65535 \<and> length val < 65535 \<and>
        length (ta_subject a) < 65535 \<and> length (ta_subject_public_key_info a) < 65535 \<and> r = v1_octets sn alg iss val a)"
    unfolding v1_tbs_def lenient_certificate_serial_number_def and_then_eq_Ok expect_tag_iff skip_iff ok_eq_Ok seq v1_octets_def
    by (cases a) (auto, blast)
  moreover have "length sn < 65535 \<and> length alg < 65535 \<and> length iss < 65535 \<and> length val < 65535 \<and>
      length (ta_subject a) < 65535 \<and> length (ta_subject_public_key_info a) < 65535" if "r = v1_octets sn alg iss val a" for sn alg iss val
    using that assms length_der_encode [of sn 2] length_der_encode [of alg "0x30"] length_der_encode [of iss "0x30"]
      length_der_encode [of val "0x30"] length_der_encode [of "ta_subject a" "0x30"]
      length_der_encode [of "ta_subject_public_key_info a" "0x30"] by (simp add: v1_octets_def)
  ultimately show ?thesis by blast
qed

lemma v1_cert_iff:
  "extract_trust_anchor_from_v1_cert_der L der = Ok a \<longleftrightarrow>
    ta_name_constraints a = None \<and>
    (\<exists>sn alg iss val alg2 sig. let body = der_encode 0x30 (v1_octets sn alg iss val a) @ der_encode 0x30 alg2 @ der_encode 3 sig in
      length body < 65535 \<and> der = der_encode 0x30 body)"
proof -
  have seq: "tag_u8 Tag_Sequence = 0x30" by (simp add: CONSTRUCTED_def)
  have reify: "reify p r = (Ok x, r') \<and> x = Ok a \<longleftrightarrow> x = Ok a \<and> p r = (Ok a, r')" for p :: "(bytes, TrustAnchor) parser" and r x r'
    by (auto simp: reify_def split: prod.splits result.splits)
  have "extract_trust_anchor_from_v1_cert_der L der = Ok a \<longleftrightarrow>
      (\<exists>body. length body < 65535 \<and> der = der_encode 0x30 body \<and>
        (\<exists>tbs alg2 sig. length tbs < 65535 \<and> length alg2 < 65535 \<and> length sig < 65535 \<and>
          body = der_encode 0x30 tbs @ der_encode 0x30 alg2 @ der_encode 3 sig \<and> v1_tbs L tbs = (Ok a, [])))"
    unfolding extract_trust_anchor_from_v1_cert_der_def read_all_eq_Ok nested_iff seq append_Nil2
  proof (intro ex_cong1 conj_cong refl, goal_cases)
    case (1 body)
    have "and_then (reify q) (\<lambda>anchor. and_then (skip L Tag_Sequence) (\<lambda>_. and_then (skip L Tag_BitString) (\<lambda>_. of_result anchor))) body = (Ok a, []) \<longleftrightarrow>
        (\<exists>r1 r2. q body = (Ok a, r1) \<and> (\<exists>v. length v < 65535 \<and> r1 = der_encode 0x30 v @ r2) \<and> (\<exists>v. length v < 65535 \<and> r2 = der_encode 3 v @ []))" for q
      unfolding and_then_eq_Ok of_result_eq_Ok skip_iff seq tag_u8.simps using reify [of q body] by blast
    note this [of "nested L Tag_Sequence (TrailingData TypeId_TrustAnchorV1TbsCertificate) (v1_tbs L)", unfolded nested_iff seq append_Nil2]
    then show ?case by (auto simp: nested_iff seq; blast)
  qed
  also have "\<dots> \<longleftrightarrow> ta_name_constraints a = None \<and>
    (\<exists>sn alg iss val alg2 sig. let body = der_encode 0x30 (v1_octets sn alg iss val a) @ der_encode 0x30 alg2 @ der_encode 3 sig in
      length body < 65535 \<and> der = der_encode 0x30 body)" (is "?l \<longleftrightarrow> ?r")
  proof -
    let ?body = "\<lambda>tbs alg2 sig. der_encode 0x30 tbs @ der_encode 0x30 alg2 @ der_encode 3 sig"
    have small: "length tbs < 65535 \<and> length alg2 < 65535 \<and> length sig < 65535" if "length (?body tbs alg2 sig) < 65535" for tbs alg2 sig
      using that length_der_encode [of tbs "0x30"] length_der_encode [of alg2 "0x30"] length_der_encode [of sig 3] by simp
    have "?l \<longleftrightarrow> (\<exists>tbs alg2 sig. length (?body tbs alg2 sig) < 65535 \<and> der = der_encode 0x30 (?body tbs alg2 sig) \<and> v1_tbs L tbs = (Ok a, []))"
      using small by blast
    also have "\<dots> \<longleftrightarrow> (\<exists>tbs alg2 sig. length (?body tbs alg2 sig) < 65535 \<and> der = der_encode 0x30 (?body tbs alg2 sig) \<and>
        ta_name_constraints a = None \<and> (\<exists>sn alg iss val. tbs = v1_octets sn alg iss val a))"
      by (intro ex_cong1 conj_cong refl v1_tbs_iff) (use small in blast)
    also have "\<dots> \<longleftrightarrow> ?r" unfolding Let_def by blast
    finally show ?thesis .
  qed
  finally show ?thesis .
qed

text \<open>Only the version field is read before a certificate of version 1 is recognised, behind the outer structure.\<close>

lemma cert_version_error:
  assumes "cert_from_der L der role = Err UnsupportedCertVersion"
  obtains tbs d where "data d = der_encode 0x30 tbs" "der = der_encode 0x30 (signed_octets d)" "length (signed_octets d) < 65535"
proof -
  let ?outer = "read_all L (TrailingData TypeId_Certificate)
        (nested L Tag_Sequence (TrailingData TypeId_SignedData) (signed_data_from_der L TWO_BYTE_DER_SIZE)) der"
  have "raises (- {UnsupportedCertVersion}) (nested L Tag_Sequence (TrailingData TypeId_SignedData) (signed_data_from_der L TWO_BYTE_DER_SIZE))"
    unfolding signed_data_from_der_def by (intro raises_intros) simp_all
  from read_all_raises [OF this] have "?outer \<noteq> Err UnsupportedCertVersion" by auto
  with assms obtain tbs d where "?outer = Ok (tbs, d)"
    unfolding cert_from_der_def by (cases ?outer) auto
  then have "data d = der_encode 0x30 tbs \<and> der = der_encode 0x30 (signed_octets d) \<and> length (signed_octets d) < 65535"
    unfolding read_all_eq_Ok nested_iff signed_data_from_der_iff by (auto simp: signed_octets_def CONSTRUCTED_def)
  with that show thesis by blast
qed

lemma no_version: "b \<noteq> 0xA0 \<Longrightarrow> fst (version3 L (b # r)) = Err UnsupportedCertVersion"
proof -
  assume b: "b \<noteq> 0xA0"
  let ?p = "expect_tag_and_get_value_limited L Tag_ContextSpecificConstructed0 TWO_BYTE_DER_SIZE"
  obtain x r' where x: "?p (b # r) = (x, r')" by force
  have "total True ?p" by (intro total_intros)
  from totalD [OF this x] have "fine True x" .
  moreover have "x \<noteq> Ok v" for v
    using x b by (auto simp: expect_tag_limited_iff der_encode_def CONSTRUCTED_def CONTEXT_SPECIFIC_def)
  ultimately obtain e where "x = Err e" by (cases x) (auto simp: fine_def)
  with x show ?thesis by (simp add: version3_def nested_def nested_limited_def and_then_run map_err_run)
qed

lemma v1_cert_version:
  assumes "v1_encodes der a"
  shows "cert_from_der L der role = Err UnsupportedCertVersion"
proof -
  from assms obtain sn alg iss val d where d: "data d = der_encode 0x30 (v1_octets sn alg iss val a)"
    "length (signed_octets d) < 65535" "der = der_encode 0x30 (signed_octets d)" by (auto simp: v1_encodes_def)
  have "read_all L e (nested L Tag_Sequence e' (signed_data_from_der L TWO_BYTE_DER_SIZE)) der = Ok (v1_octets sn alg iss val a, d)" for e e'
    unfolding read_all_eq_Ok nested_iff signed_data_from_der_iff
    using d length_der_encode [of "v1_octets sn alg iss val a" "0x30"] length_der_encode [of "algorithm d" "0x30"]
      length_der_encode [of "0 # signature d" 3]
    by (auto simp: signed_octets_def CONSTRUCTED_def der_limits intro!: exI [of _ "signed_octets d"])
  moreover have "fst (version3 L (v1_octets sn alg iss val a)) = Err UnsupportedCertVersion"
    by (simp add: v1_octets_def der_encode_def no_version)
  then obtain r' where "version3 L (v1_octets sn alg iss val a) = (Err UnsupportedCertVersion, r')"
    by (cases "version3 L (v1_octets sn alg iss val a)") auto
  then have "read_all L e (cert_tbs L d) (v1_octets sn alg iss val a) = Err UnsupportedCertVersion" for e
    by (simp add: cert_tbs_def read_all_run and_then_def)
  ultimately show ?thesis unfolding cert_from_der_def by simp
qed

lemma extract_trust_anchor_iff:
  "extract_trust_anchor L der = Ok a \<longleftrightarrow>
    (\<exists>c es. cert_encodes der c es \<and> extensions_taken es c \<and> a = trust_anchor_from_cert (Cert EndEntity c)) \<or> v1_encodes der a"
proof -
  have v1: "extract_trust_anchor_from_v1_cert_der L der = Ok a" if "v1_encodes der a"
  proof -
    from that obtain sn alg iss val d where d: "data d = der_encode 0x30 (v1_octets sn alg iss val a)" "ta_name_constraints a = None"
      "length (signed_octets d) < 65535" "der = der_encode 0x30 (signed_octets d)" unfolding v1_encodes_def by blast
    then show ?thesis unfolding v1_cert_iff Let_def signed_octets_def by (intro conjI exI) simp_all
  qed
  have converse: "v1_encodes der a" if "cert_from_der L der EndEntity = Err UnsupportedCertVersion" "extract_trust_anchor_from_v1_cert_der L der = Ok a"
  proof -
    from that(1) obtain tbs d where d: "data d = der_encode 0x30 tbs" "der = der_encode 0x30 (signed_octets d)"
      "length (signed_octets d) < 65535" by (rule cert_version_error)
    from that(2) obtain sn alg iss val alg2 sig where v: "ta_name_constraints a = None"
      "length (der_encode 0x30 (v1_octets sn alg iss val a) @ der_encode 0x30 alg2 @ der_encode 3 sig) < 65535"
      "der = der_encode 0x30 (der_encode 0x30 (v1_octets sn alg iss val a) @ der_encode 0x30 alg2 @ der_encode 3 sig)"
      unfolding v1_cert_iff Let_def by blast
    have "der_encode 0x30 (signed_octets d) @ [] = der_encode 0x30 (der_encode 0x30 (v1_octets sn alg iss val a) @ der_encode 0x30 alg2 @ der_encode 3 sig) @ []"
      using d(2) v(3) by simp
    from der_encode_inj [OF this] d(3) v(2)
    have "signed_octets d = der_encode 0x30 (v1_octets sn alg iss val a) @ der_encode 0x30 alg2 @ der_encode 3 sig" by simp
    then have "der_encode 0x30 tbs @ der_encode 0x30 (algorithm d) @ bit_string_octets (signature d) =
        der_encode 0x30 (v1_octets sn alg iss val a) @ der_encode 0x30 alg2 @ der_encode 3 sig" using d(1) by (simp add: signed_octets_def)
    from der_encode_inj [OF this] d(1,3) v(2) length_der_encode [of tbs "0x30"] length_der_encode [of "v1_octets sn alg iss val a" "0x30"]
    have "tbs = v1_octets sn alg iss val a" by (simp add: signed_octets_def)
    with d v(1) show ?thesis unfolding v1_encodes_def by blast
  qed
  show ?thesis
  proof (cases "cert_from_der L der EndEntity")
    case (Ok c)
    then have c: "ee_or_ca c = EndEntity" "\<exists>es. cert_encodes der (cert_body c) es \<and> extensions_taken es (cert_body c)"
      by (simp_all add: cert_from_der_iff)
    have same: "Cert EndEntity x = c" if "cert_encodes der x es" "extensions_taken es x" for x es
    proof -
      from that have "cert_from_der L der EndEntity = Ok (Cert EndEntity x)" by (auto simp: cert_from_der_iff)
      with Ok show ?thesis by simp
    qed
    have "(\<exists>c es. cert_encodes der c es \<and> extensions_taken es c \<and> a = trust_anchor_from_cert (Cert EndEntity c)) \<longleftrightarrow> a = trust_anchor_from_cert c"
    proof
      assume "\<exists>c es. cert_encodes der c es \<and> extensions_taken es c \<and> a = trust_anchor_from_cert (Cert EndEntity c)"
      then show "a = trust_anchor_from_cert c" using same by auto
    next
      obtain es where es: "cert_encodes der (cert_body c) es" "extensions_taken es (cert_body c)" using c(2) by blast
      assume "a = trust_anchor_from_cert c"
      with es same [OF es] show "\<exists>c es. cert_encodes der c es \<and> extensions_taken es c \<and> a = trust_anchor_from_cert (Cert EndEntity c)" by metis
    qed
    moreover have "\<not> v1_encodes der a" using Ok v1_cert_version [of der a EndEntity] by auto
    ultimately show ?thesis using Ok by (auto simp: extract_trust_anchor_def)
  next
    case (Err e)
    then have "\<not> (cert_encodes der x es \<and> extensions_taken es x)" for x es
      using cert_from_der_iff [of der EndEntity "Cert EndEntity x"] by auto
    moreover have "extract_trust_anchor L der = Ok a \<longleftrightarrow> e = UnsupportedCertVersion \<and> extract_trust_anchor_from_v1_cert_der L der = Ok a"
      using Err by (simp add: extract_trust_anchor_def)
    ultimately show ?thesis using Err v1 v1_cert_version [of der a EndEntity] converse by auto
  qed (use cert_from_der_fine [of True der EndEntity] in \<open>auto simp: fine_def extract_trust_anchor_def\<close>)
qed

section \<open>Properties\<close>

text \<open>C21: a trust anchor is taken from a certificate exactly when it is an acceptable certificate of version 3, or one of version 1 with
  the fields of its version and nothing else. The anchor has the subject and the public key of the certificate, and the
  name constraints of the extension, none for version 1.\<close>

theorem trust_anchor_exact:
  assumes "untrusted_reader U rest later"
  shows "extract_trust_anchor U der = Ok a \<longleftrightarrow>
    (\<exists>c es. cert_encodes der c es \<and> extensions_taken es c \<and> ta_subject a = cert_subject c \<and>
      ta_subject_public_key_info a = cert_spki c \<and> ta_name_constraints a = cert_name_constraints c) \<or> v1_encodes der a"
  unfolding untrusted_reader.extract_trust_anchor_indep [OF assms] extract_trust_anchor_iff
  by (cases a) (auto simp: trust_anchor_from_cert_def)

definition v1_cert :: bytes where
  "v1_cert = [0x30, 24, 0x30, 15, 2, 1, 7, 0x30, 1, 9, 0x30, 0, 0x30, 0, 0x30, 0, 0x30, 1, 4, 0x30, 1, 9, 3, 2, 0, 8]"

theorem trust_anchor_exact_witness:
  "extract_trust_anchor list_reader v1_cert = Ok \<lparr>ta_subject = [], ta_subject_public_key_info = [4], ta_name_constraints = None\<rparr>"
proof -
  define d where "d = \<lparr>data = [0x30, 15, 2, 1, 7, 0x30, 1, 9, 0x30, 0, 0x30, 0, 0x30, 0, 0x30, 1, 4], algorithm = [9], signature = [8]\<rparr>"
  have "v1_encodes v1_cert \<lparr>ta_subject = [], ta_subject_public_key_info = [4], ta_name_constraints = None\<rparr>"
    unfolding v1_encodes_def
    by (intro conjI exI [of _ "[7]"] exI [of _ "[9]"] exI [of _ "[]"] exI [of _ d])
      (simp_all add: d_def v1_octets_def signed_octets_def v1_cert_def der_encode_short)
  with trust_anchor_exact [OF lr.untrusted_reader_axioms] show ?thesis by blast
qed

end
