(* ===== verification/Dns_Name.thy ===== *)
theory Dns_Name
  imports Der
begin

text \<open>
  DNS names (\<^verbatim>\<open>src/subject_name/dns_name.rs\<close>): the syntax check, the types whose values have passed it,
  and the comparison of a presented identifier with a reference identifier or a name constraint. The
  comparison works on two readers at once; the second one is the state of the loop over the first.
\<close>

section \<open>The syntax check\<close>

datatype AllowWildcards = WildcardsNo | WildcardsYes

datatype IdRole = Reference | Presented | NameConstraint

text \<open>The local variables of \<^verbatim>\<open>is_valid_dns_id\<close>.\<close>

record dns_state =
  dot_count :: nat
  label_length :: nat
  label_is_all_numeric :: bool
  label_ends_with_hyphen :: bool
  is_first_byte :: bool

definition MAX_LABEL_LENGTH :: nat where "MAX_LABEL_LENGTH = 63"

text \<open>The \<^verbatim>\<open>match input.read_byte()\<close> of the loop; \<open>None\<close> is \<^verbatim>\<open>return false\<close>.\<close>

definition dns_step :: "IdRole \<Rightarrow> u8 option \<Rightarrow> dns_state \<Rightarrow> dns_state option" where
  "dns_step id_role byte s =
    (case byte of
       None \<Rightarrow> None
     | Some b \<Rightarrow>
         if b = 0x2D then
           (if label_length s = 0 then None
            else
              let s = s\<lparr>label_is_all_numeric := False, label_ends_with_hyphen := True,
                        label_length := label_length s + 1\<rparr> in
              if label_length s > MAX_LABEL_LENGTH then None else Some (s\<lparr>is_first_byte := False\<rparr>))
         else if 0x30 \<le> b \<and> b \<le> 0x39 then
           (let s = s\<lparr>label_is_all_numeric := (if label_length s = 0 then True else label_is_all_numeric s),
                      label_ends_with_hyphen := False, label_length := label_length s + 1\<rparr> in
            if label_length s > MAX_LABEL_LENGTH then None else Some (s\<lparr>is_first_byte := False\<rparr>))
         else if (0x61 \<le> b \<and> b \<le> 0x7A) \<or> (0x41 \<le> b \<and> b \<le> 0x5A) \<or> b = 0x5F then
           (let s = s\<lparr>label_is_all_numeric := False, label_ends_with_hyphen := False,
                      label_length := label_length s + 1\<rparr> in
            if label_length s > MAX_LABEL_LENGTH then None else Some (s\<lparr>is_first_byte := False\<rparr>))
         else if b = 0x2E then
           (let s = s\<lparr>dot_count := dot_count s + 1\<rparr> in
            if label_length s = 0 \<and> (id_role \<noteq> NameConstraint \<or> \<not> is_first_byte s) then None
            else if label_ends_with_hyphen s then None
            else Some (s\<lparr>label_length := 0, is_first_byte := False\<rparr>))
         else None)"

text \<open>The checks after the loop.\<close>

definition dns_end :: "IdRole \<Rightarrow> bool \<Rightarrow> dns_state \<Rightarrow> bool" where
  "dns_end id_role is_wildcard s =
    (if label_length s = 0 \<and> id_role \<noteq> Reference then False
     else if label_ends_with_hyphen s then False
     else if label_is_all_numeric s then False
     else if is_wildcard then
       (let label_count = (if label_length s = 0 then dot_count s else dot_count s + 1) in
        \<not> label_count < 3)
     else True)"

definition dns_loop :: "'r untrusted \<Rightarrow> IdRole \<Rightarrow> dns_state \<Rightarrow> ('r, dns_state option) parser" where
  "dns_loop U id_role =
    loop U (\<lambda>s.
      and_then (try_read_byte U) (\<lambda>byte.
        case dns_step id_role byte s of
          None \<Rightarrow> ok (Inr None)
        | Some s' \<Rightarrow> and_then (at_end U) (\<lambda>e. ok (if e then Inr (Some s') else Inl s'))))"

definition is_valid_dns_id :: "'r untrusted \<Rightarrow> bytes \<Rightarrow> IdRole \<Rightarrow> AllowWildcards \<Rightarrow> bool result" where
  "is_valid_dns_id U hostname id_role allow_wildcards =
    (if length hostname > 253 then Ok False
     else fst (and_then (at_end U) (\<lambda>empty.
       if id_role = NameConstraint \<and> empty then ok True
       else
         and_then (peek U 0x2A) (\<lambda>star.
           let is_wildcard = allow_wildcards = WildcardsYes \<and> star;
               s0 = \<lparr>dot_count = 0, label_length = 0, label_is_all_numeric = False,
                     label_ends_with_hyphen = False, is_first_byte = \<not> is_wildcard\<rparr>;
               check = (\<lambda>s. and_then (dns_loop U id_role s) (\<lambda>end_state.
                 case end_state of None \<Rightarrow> ok False | Some s' \<Rightarrow> ok (dns_end id_role is_wildcard s'))) in
           if is_wildcard then
             and_then (try_read_byte U) (\<lambda>b1.
               if b1 \<noteq> Some 0x2A then ok False
               else and_then (try_read_byte U) (\<lambda>b2.
                 if b2 \<noteq> Some 0x2E then ok False else check (s0\<lparr>dot_count := 1\<rparr>)))
           else check s0)) (u_new U hostname)))"

section \<open>Types of valid names\<close>

text \<open>\<^verbatim>\<open>core::str::from_utf8\<close>: the well-formed UTF-8 byte sequences of the Unicode standard.\<close>

fun utf8_valid :: "bytes \<Rightarrow> bool" where
  "utf8_valid [] = True"
| "utf8_valid (a # r) =
    (if a < 0x80 then utf8_valid r
     else if 0xC2 \<le> a \<and> a \<le> 0xDF then
       (case r of b # r' \<Rightarrow> 0x80 \<le> b \<and> b \<le> 0xBF \<and> utf8_valid r' | _ \<Rightarrow> False)
     else if 0xE0 \<le> a \<and> a \<le> 0xEF then
       (case r of b # c # r' \<Rightarrow>
          (if a = 0xE0 then 0xA0 \<le> b \<and> b \<le> 0xBF
           else if a = 0xED then 0x80 \<le> b \<and> b \<le> 0x9F else 0x80 \<le> b \<and> b \<le> 0xBF) \<and>
          0x80 \<le> c \<and> c \<le> 0xBF \<and> utf8_valid r'
        | _ \<Rightarrow> False)
     else if 0xF0 \<le> a \<and> a \<le> 0xF4 then
       (case r of b # c # d # r' \<Rightarrow>
          (if a = 0xF0 then 0x90 \<le> b \<and> b \<le> 0xBF
           else if a = 0xF4 then 0x80 \<le> b \<and> b \<le> 0x8F else 0x80 \<le> b \<and> b \<le> 0xBF) \<and>
          0x80 \<le> c \<and> c \<le> 0xBF \<and> 0x80 \<le> d \<and> d \<le> 0xBF \<and> utf8_valid r'
        | _ \<Rightarrow> False)
     else False)"

text \<open>A \<^verbatim>\<open>&str\<close> is its bytes; \<open>unwrap\<close> of a failed conversion is a panic.\<close>

definition str_from_utf8_unwrap :: "bytes \<Rightarrow> bytes result" where
  "str_from_utf8_unwrap d = (if utf8_valid d then Ok d else Panic)"

definition ascii_lower :: "u8 \<Rightarrow> u8" where
  "ascii_lower b = (if 0x41 \<le> b \<and> b \<le> 0x5A then b + 0x61 - 0x41 else b)"

text \<open>\<^verbatim>\<open>to_ascii_lowercase\<close> of the standard library maps the same letters.\<close>

definition to_ascii_lowercase :: "bytes \<Rightarrow> bytes" where
  "to_ascii_lowercase s = map ascii_lower s"

datatype DnsName = DnsName bytes
datatype DnsNameRef = DnsNameRef bytes
datatype WildcardDnsNameRef = WildcardDnsNameRef bytes
datatype GeneralDnsNameRef = General_DnsName DnsNameRef | General_Wildcard WildcardDnsNameRef

text \<open>\<open>None\<close> is \<^verbatim>\<open>Err(InvalidDnsNameError)\<close>.\<close>

definition dns_name_ref_try_from_ascii :: "'r untrusted \<Rightarrow> bytes \<Rightarrow> DnsNameRef option result" where
  "dns_name_ref_try_from_ascii U dns_name =
    res_bind (is_valid_dns_id U dns_name Reference WildcardsNo) (\<lambda>valid.
      Ok (if \<not> valid then None else Some (DnsNameRef dns_name)))"

definition dns_name_ref_try_from_ascii_str :: "'r untrusted \<Rightarrow> bytes \<Rightarrow> DnsNameRef option result" where
  "dns_name_ref_try_from_ascii_str U dns_name = dns_name_ref_try_from_ascii U dns_name"

definition wildcard_try_from_ascii :: "'r untrusted \<Rightarrow> bytes \<Rightarrow> WildcardDnsNameRef option result" where
  "wildcard_try_from_ascii U dns_name =
    res_bind (is_valid_dns_id U dns_name Reference WildcardsYes) (\<lambda>valid.
      Ok (if \<not> valid then None else Some (WildcardDnsNameRef dns_name)))"

definition wildcard_try_from_ascii_str :: "'r untrusted \<Rightarrow> bytes \<Rightarrow> WildcardDnsNameRef option result" where
  "wildcard_try_from_ascii_str U dns_name = wildcard_try_from_ascii U dns_name"

fun dns_name_ref_into_str :: "DnsNameRef \<Rightarrow> bytes result" where
  "dns_name_ref_into_str (DnsNameRef d) = str_from_utf8_unwrap d"

fun wildcard_into_str :: "WildcardDnsNameRef \<Rightarrow> bytes result" where
  "wildcard_into_str (WildcardDnsNameRef d) = str_from_utf8_unwrap d"

fun general_into_str :: "GeneralDnsNameRef \<Rightarrow> bytes result" where
  "general_into_str (General_DnsName name) = dns_name_ref_into_str name"
| "general_into_str (General_Wildcard name) = wildcard_into_str name"

fun dns_name_as_ref :: "DnsName \<Rightarrow> DnsNameRef" where
  "dns_name_as_ref (DnsName s) = DnsNameRef s"

definition dns_name_ref_to_owned :: "DnsNameRef \<Rightarrow> DnsName result" where
  "dns_name_ref_to_owned self = res_bind (dns_name_ref_into_str self) (\<lambda>s. Ok (DnsName (to_ascii_lowercase s)))"

text \<open>The \<^verbatim>\<open>Debug\<close> output: what is written to the formatter, one byte of the name a character.\<close>

definition debug_chars :: "bytes \<Rightarrow> string" where
  "debug_chars d = map (\<lambda>ch. char_of (unat (ascii_lower ch))) d"

fun dns_name_ref_fmt :: "DnsNameRef \<Rightarrow> string" where
  "dns_name_ref_fmt (DnsNameRef d) = ''DnsNameRef('' @ [CHR 0x22] @ debug_chars d @ [CHR 0x22] @ '')''"

fun wildcard_fmt :: "WildcardDnsNameRef \<Rightarrow> string" where
  "wildcard_fmt (WildcardDnsNameRef d) = ''WildcardDnsNameRef('' @ [CHR 0x22] @ debug_chars d @ [CHR 0x22] @ '')''"

section \<open>Matching\<close>

text \<open>
  The first \<^verbatim>\<open>match\<close>: skip the part of a presented identifier in front of a name constraint.
  \<open>Inl b\<close> is \<^verbatim>\<open>return Ok(b)\<close>; \<open>Inr p\<close> goes on with the reader \<open>p\<close>.
\<close>

definition skip_prefix :: "'r untrusted \<Rightarrow> bytes \<Rightarrow> IdRole \<Rightarrow> bytes \<Rightarrow> (bool + 'r) result" where
  "skip_prefix U presented_dns_id role reference_dns_id =
    (let presented = u_new U presented_dns_id; reference = u_new U reference_dns_id in
     case role of
       Reference \<Rightarrow> Ok (Inr presented)
     | NameConstraint \<Rightarrow>
         if length presented_dns_id > length reference_dns_id then
           (if reference_dns_id = [] then Ok (Inl True)
            else if u_peek U 0x2E reference then
              (case u_skip U (length presented_dns_id - length reference_dns_id) presented of
                 (None, _) \<Rightarrow> Panic
               | (Some _, p) \<Rightarrow> Ok (Inr p))
            else
              (case u_skip U (length presented_dns_id - length reference_dns_id - 1) presented of
                 (None, _) \<Rightarrow> Panic
               | (Some _, p) \<Rightarrow>
                   (case u_read_byte U p of
                      (b, p') \<Rightarrow> if b \<noteq> Some 0x2E then Ok (Inl False) else Ok (Inr p'))))
         else Ok (Inr presented)
     | Presented \<Rightarrow> Panic)"

text \<open>The wildcard loop over the reference: false is \<^verbatim>\<open>return Ok(false)\<close>.\<close>

definition skip_label :: "'r untrusted \<Rightarrow> ('r, bool) parser" where
  "skip_label U =
    loop U (\<lambda>_.
      and_then (try_read_byte U) (\<lambda>b.
        case b of
          None \<Rightarrow> ok (Inr False)
        | Some _ \<Rightarrow> and_then (peek U 0x2E) (\<lambda>dot. ok (if dot then Inr True else Inl ())))) ()"

definition skip_wildcard :: "'r untrusted \<Rightarrow> 'r \<Rightarrow> 'r \<Rightarrow> (bool + 'r \<times> 'r) result" where
  "skip_wildcard U presented reference =
    (if u_peek U 0x2A presented then
       (case u_skip U 1 presented of
          (None, _) \<Rightarrow> Panic
        | (Some _, p) \<Rightarrow>
            (case skip_label U reference of
               (x, ref) \<Rightarrow> res_bind x (\<lambda>found. Ok (if found then Inr (p, ref) else Inl False))))
     else Ok (Inr (presented, reference)))"

text \<open>One turn of the comparison loop over the presented identifier, with the reader of the reference.\<close>

definition compare_byte :: "'r untrusted \<Rightarrow> 'r \<Rightarrow> ('r, 'r + 'r option) parser" where
  "compare_byte U reference =
    and_then (try_read_byte U) (\<lambda>p.
      case u_read_byte U reference of
        (r, reference') \<Rightarrow>
          (case p of
             None \<Rightarrow> ok (Inr None)
           | Some presented_byte \<Rightarrow>
               (case r of
                  None \<Rightarrow> ok (Inr None)
                | Some reference_byte \<Rightarrow>
                    if ascii_lower presented_byte = ascii_lower reference_byte then
                      and_then (at_end U) (\<lambda>e.
                        if e then
                          (if presented_byte = 0x2E then of_result (Err MalformedDnsIdentifier)
                           else ok (Inr (Some reference')))
                        else ok (Inl reference'))
                    else ok (Inr None))))"

definition compare_bytes :: "'r untrusted \<Rightarrow> 'r \<Rightarrow> ('r, 'r option) parser" where
  "compare_bytes U = loop U (compare_byte U)"

definition compare_tail :: "'r untrusted \<Rightarrow> IdRole \<Rightarrow> 'r \<Rightarrow> 'r \<Rightarrow> bool result" where
  "compare_tail U role presented reference =
    (let finish = (\<lambda>reference.
           if \<not> u_at_end U presented then Panic
           else if \<not> u_at_end U reference then Panic
           else Ok True) in
     if \<not> u_at_end U reference then
       (if role \<noteq> NameConstraint then
          (case u_read_byte U reference of
             (b, reference') \<Rightarrow>
               if b = Some 0x2E then
                 (if \<not> u_at_end U reference' then Ok False else finish reference')
               else Ok False)
        else if \<not> u_at_end U reference then Ok False
        else finish reference)
     else finish reference)"

definition presented_id_matches_reference_id_internal ::
    "'r untrusted \<Rightarrow> bytes \<Rightarrow> IdRole \<Rightarrow> bytes \<Rightarrow> bool result" where
  "presented_id_matches_reference_id_internal U presented_dns_id role reference_dns_id =
    res_bind (is_valid_dns_id U presented_dns_id Presented WildcardsYes) (\<lambda>presented_ok.
      if \<not> presented_ok then Err MalformedDnsIdentifier
      else res_bind (is_valid_dns_id U reference_dns_id role WildcardsNo) (\<lambda>reference_ok.
        if \<not> reference_ok then
          Err (case role of NameConstraint \<Rightarrow> MalformedNameConstraint | _ \<Rightarrow> MalformedDnsIdentifier)
        else res_bind (skip_prefix U presented_dns_id role reference_dns_id) (\<lambda>prefix.
          case prefix of
            Inl b \<Rightarrow> Ok b
          | Inr presented \<Rightarrow>
              res_bind (skip_wildcard U presented (u_new U reference_dns_id)) (\<lambda>wildcard.
                case wildcard of
                  Inl b \<Rightarrow> Ok b
                | Inr (presented, reference) \<Rightarrow>
                    (case compare_bytes U reference presented of
                       (x, presented') \<Rightarrow>
                         res_bind x (\<lambda>compared.
                           case compared of
                             None \<Rightarrow> Ok False
                           | Some reference' \<Rightarrow> compare_tail U role presented' reference'))))))"

definition presented_id_matches_reference_id :: "'r untrusted \<Rightarrow> bytes \<Rightarrow> bytes \<Rightarrow> bool result" where
  "presented_id_matches_reference_id U presented_dns_id reference_dns_id =
    presented_id_matches_reference_id_internal U presented_dns_id Reference reference_dns_id"

definition presented_id_matches_constraint :: "'r untrusted \<Rightarrow> bytes \<Rightarrow> bytes \<Rightarrow> bool result" where
  "presented_id_matches_constraint U presented_dns_id reference_dns_id =
    presented_id_matches_reference_id_internal U presented_dns_id NameConstraint reference_dns_id"

section \<open>Independence of the reader\<close>

context untrusted_reader
begin

lemma dns_loop_sim [sim_intros]: "follows (dns_loop U i s) (dns_loop L i s)"
  unfolding dns_loop_def by (intro sim_intros refl)

lemma is_valid_dns_id_indep: "is_valid_dns_id U = is_valid_dns_id L"
proof -
  have run: "fst (p (u_new U h)) = fst (q (u_new L h))" if "follows p q" for p q and h
    using follows_fst [OF that, of "u_new U h"] by (simp add: rest_new list_reader_def)
  show ?thesis
    unfolding is_valid_dns_id_def fun_eq_iff Let_def
    by (intro allI if_cong refl run) (intro sim_intros refl)
qed

lemma skip_label_sim [sim_intros]: "follows (skip_label U) (skip_label L)"
  unfolding skip_label_def by (intro sim_intros refl)

lemma skip_prefix_sim:
  "rel_result (rel_sum (=) (\<lambda>p q. rest p = q)) (skip_prefix U i role j) (skip_prefix L i role j)"
proof -
  have s: "u_skip U n r = (if n \<le> length (rest r) then (Some (), snd (u_skip U n r)) else (None, snd (u_skip U n r)))"
    for n r using skip_fst [of n r] by (metis prod.collapse)
  have b: "u_read_byte U r = ((case rest r of [] \<Rightarrow> None | b # _ \<Rightarrow> Some b), snd (u_read_byte U r))" for r
    using read_byte_fst [of r] by (metis prod.collapse)
  show ?thesis
    unfolding skip_prefix_def Let_def
    by (subst s, subst s, subst b)
      (auto simp: peek_law rest_new skip_snd read_byte_snd list_reader_def split: IdRole.split list.split)
qed

lemma read_byte_both:
  "u_read_byte U r = (fst (u_read_byte L (rest r)), snd (u_read_byte U r))"
  "rest (snd (u_read_byte U r)) = snd (u_read_byte L (rest r))"
proof -
  show "u_read_byte U r = (fst (u_read_byte L (rest r)), snd (u_read_byte U r))"
    using read_byte_fst [of r] lr.read_byte_fst [of "rest r"] by (metis prod.collapse)
  show "rest (snd (u_read_byte U r)) = snd (u_read_byte L (rest r))"
    using read_byte_snd [of r] lr.read_byte_snd [of "rest r"] by simp
qed

lemma skip_wildcard_sim:
  "rel_result (rel_sum (=) (rel_prod (\<lambda>p q. rest p = q) (\<lambda>p q. rest p = q)))
     (skip_wildcard U p r) (skip_wildcard L (rest p) (rest r))"
proof -
  obtain x r' where x: "skip_label U r = (x, r')" by force
  then have x': "skip_label L (rest r) = (x, rest r')" by (rule follows_run [OF skip_label_sim])
  obtain y p' where y: "u_skip U 1 p = (y, p')" by force
  then have y': "u_skip L 1 (rest p) = (y, rest p')"
    using skip_fst [of 1 p] skip_snd [of 1 p] by (auto simp: list_reader_def)
  have "u_peek U 0x2A p = u_peek L 0x2A (rest p)"
    by (simp add: peek_law lr.peek_law)
  then show ?thesis
    unfolding skip_wildcard_def x x' y y' by (cases x) (auto split: option.split)
qed

lemma compare_byte_sim:
  assumes "rest s = t"
  shows "sim rest later (rel_sum (\<lambda>p q. rest p = q) (rel_option (\<lambda>p q. rest p = q)))
    (compare_byte U s) (compare_byte L t)"
proof -
  obtain b s' where b: "u_read_byte U s = (b, s')" by force
  with assms have b': "u_read_byte L t = (b, rest s')"
    using read_byte_both [of s] by (metis fst_conv prod.collapse snd_conv)
  show ?thesis unfolding compare_byte_def b b' prod.case by (intro sim_intros) auto
qed

lemma compare_bytes_sim:
  assumes "rest s = t"
  shows "sim rest later (rel_option (\<lambda>p q. rest p = q)) (compare_bytes U s) (compare_bytes L t)"
  unfolding compare_bytes_def by (rule loop_sim [where S = "\<lambda>p q. rest p = q", OF compare_byte_sim assms])

lemma compare_tail_sim: "compare_tail U role p r = compare_tail L role (rest p) (rest r)"
proof -
  obtain b r' where b: "u_read_byte U r = (b, r')" by force
  then have b': "u_read_byte L (rest r) = (b, rest r')"
    using read_byte_both [of r] by (metis fst_conv prod.collapse snd_conv)
  show ?thesis
    unfolding compare_tail_def b b' by (simp add: at_end_law lr.at_end_law)
qed

lemma presented_id_matches_internal_indep:
  "presented_id_matches_reference_id_internal U i role j = presented_id_matches_reference_id_internal L i role j"
proof -
  have tail: "(case compare_bytes U r p of (x, p') \<Rightarrow> res_bind x (\<lambda>c. case c of None \<Rightarrow> Ok False
        | Some r' \<Rightarrow> compare_tail U role p' r')) =
      (case compare_bytes L (rest r) (rest p) of (x, p') \<Rightarrow> res_bind x (\<lambda>c. case c of None \<Rightarrow> Ok False
        | Some r' \<Rightarrow> compare_tail L role p' r'))" for p r
  proof -
    obtain x p' where x: "compare_bytes U r p = (x, p')" by force
    with compare_bytes_sim [OF refl] obtain y where "compare_bytes L (rest r) (rest p) = (y, rest p')"
      and "rel_result (rel_option (\<lambda>p q. rest p = q)) x y"
      by (rule simE)
    then show ?thesis
      by (simp add: x) (rule res_bind_rel, assumption, auto simp: compare_tail_sim split: option.splits)
  qed
  have new: "rest (u_new U j) = u_new L j" by (simp add: rest_new list_reader_def)
  have wild: "rel_result (rel_sum (=) (rel_prod (\<lambda>p q. rest p = q) (\<lambda>p q. rest p = q)))
     (skip_wildcard U p (u_new U j)) (skip_wildcard L (rest p) (u_new L j))" for p
    using skip_wildcard_sim [of p "u_new U j"] by (simp add: new)
  show ?thesis
    unfolding presented_id_matches_reference_id_internal_def is_valid_dns_id_indep
    apply (rule res_bind_cong [OF refl], rule if_cong [OF refl refl])
    apply (rule res_bind_cong [OF refl], rule if_cong [OF refl refl])
    apply (rule res_bind_rel [OF skip_prefix_sim])
    apply (erule rel_sum.cases; simp)
    apply (hypsubst, rule res_bind_rel [OF wild])
    apply (auto elim!: rel_sum.cases simp: tail)
    done
qed

lemma presented_id_matches_indep:
  "presented_id_matches_reference_id U = presented_id_matches_reference_id L"
  "presented_id_matches_constraint U = presented_id_matches_constraint L"
  by (simp_all add: fun_eq_iff presented_id_matches_reference_id_def presented_id_matches_constraint_def
      presented_id_matches_internal_indep)

end

end
