(* ===== verification/Dns_Match.thy ===== *)
theory Dns_Match
  imports Dns_Name
begin

text \<open>
  What the functions of \<^verbatim>\<open>src/subject_name/dns_name.rs\<close> decide: a grammar of DNS identifiers by labels and two
  relations between names, and the proofs that the byte-by-byte loops of the code implement them.
\<close>

section \<open>The grammar of DNS identifiers\<close>

text \<open>The reference: a name is split into its labels, and every label is checked as a whole.\<close>

abbreviation dot :: u8 where "dot \<equiv> 0x2E"

definition ldh :: "u8 \<Rightarrow> bool" where
  "ldh b \<longleftrightarrow> b = 0x2D \<or> b = 0x5F \<or> (0x30 \<le> b \<and> b \<le> 0x39) \<or> (0x41 \<le> b \<and> b \<le> 0x5A) \<or> (0x61 \<le> b \<and> b \<le> 0x7A)"

definition dns_digit :: "u8 \<Rightarrow> bool" where
  "dns_digit b \<longleftrightarrow> 0x30 \<le> b \<and> b \<le> 0x39"

definition label_ok :: "bytes \<Rightarrow> bool" where
  "label_ok l \<longleftrightarrow> l \<noteq> [] \<and> length l \<le> 63 \<and> list_all ldh l \<and> hd l \<noteq> 0x2D \<and> last l \<noteq> 0x2D"

function dns_labels :: "bytes \<Rightarrow> bytes list" where
  "dns_labels s =
    (case dropWhile (\<lambda>b. b \<noteq> dot) s of
       [] \<Rightarrow> [s]
     | _ # r \<Rightarrow> takeWhile (\<lambda>b. b \<noteq> dot) s # dns_labels r)"
  by pat_completeness auto
termination
proof (relation "measure length")
  fix s b r
  assume "dropWhile (\<lambda>b. b \<noteq> dot) s = b # r"
  then have "Suc (length r) \<le> length s"
    using length_dropWhile_le [of "\<lambda>b. b \<noteq> dot" s] by simp
  then show "(r, s) \<in> measure length" by simp
qed simp

declare dns_labels.simps [simp del]

text \<open>The labels a name consists of, without the empty one behind a final dot where that is allowed.\<close>

definition name_labels :: "IdRole \<Rightarrow> bytes \<Rightarrow> bytes list" where
  "name_labels role s =
    (let ls = dns_labels s in if role = Reference \<and> last ls = [] then butlast ls else ls)"

definition plain_dns_id :: "IdRole \<Rightarrow> nat \<Rightarrow> bytes \<Rightarrow> bool" where
  "plain_dns_id role least s \<longleftrightarrow>
    (let ls = name_labels role s in
     ls \<noteq> [] \<and> least \<le> length ls \<and> list_all label_ok ls \<and> \<not> list_all dns_digit (last ls))"

definition dns_id_ok :: "IdRole \<Rightarrow> AllowWildcards \<Rightarrow> bytes \<Rightarrow> bool" where
  "dns_id_ok role wildcards s \<longleftrightarrow>
    length s \<le> 253 \<and>
    (role = NameConstraint \<and> s = [] \<or>
     plain_dns_id role 1 s \<or>
     role = NameConstraint \<and> s \<noteq> [] \<and> hd s = dot \<and> plain_dns_id role 1 (tl s) \<or>
     wildcards = WildcardsYes \<and> take 2 s = [0x2A, dot] \<and> plain_dns_id role 2 (drop 2 s))"

text \<open>The loop is a left fold of its body.\<close>

definition dns_run :: "IdRole \<Rightarrow> dns_state \<Rightarrow> bytes \<Rightarrow> dns_state option" where
  "dns_run role s r = foldl (\<lambda>x b. Option.bind x (dns_step role (Some b))) (Some s) r"

lemma dns_fold_None: "foldl (\<lambda>x b. Option.bind x (f b)) None r = None"
  by (induction r) simp_all

lemma dns_run_Nil [simp]: "dns_run role s [] = Some s"
  by (simp add: dns_run_def)

lemma dns_run_Cons:
  "dns_run role s (b # r) = (case dns_step role (Some b) s of None \<Rightarrow> None | Some s' \<Rightarrow> dns_run role s' r)"
  by (simp add: dns_run_def dns_fold_None split: option.split)

lemma dns_run_append:
  "dns_run role s (l @ r) = (case dns_run role s l of None \<Rightarrow> None | Some s' \<Rightarrow> dns_run role s' r)"
  by (cases "dns_run role s l") (simp_all add: dns_run_def dns_fold_None)

lemma dns_loop_progress:
  "progress (\<lambda>s. and_then (try_read_byte L) (\<lambda>byte.
        case dns_step role byte s of
          None \<Rightarrow> ok (Inr None)
        | Some s' \<Rightarrow> and_then (at_end L) (\<lambda>e. ok (if e then Inr (Some s') else Inl s'))))"
proof (rule progressI)
  fix s r s' r'
  assume *: "and_then (try_read_byte L) (\<lambda>byte.
        case dns_step role byte s of
          None \<Rightarrow> ok (Inr None)
        | Some s' \<Rightarrow> and_then (at_end L) (\<lambda>e. ok (if e then Inr (Some s') else Inl s'))) r = (Ok (Inl s'), r')"
  then show "length r' < length r"
    by (cases r) (auto simp: run_simps dns_step_def split: option.splits if_splits)
qed

lemma dns_loop_Nil: "fst (dns_loop L role s []) = Ok None"
  by (simp add: dns_loop_def loop_list run_simps dns_step_def)

lemma dns_loop_Cons:
  "fst (dns_loop L role s (b # r)) =
    (case dns_step role (Some b) s of
       None \<Rightarrow> Ok None
     | Some s' \<Rightarrow> if r = [] then Ok (Some s') else fst (dns_loop L role s' r))"
  by (subst dns_loop_def, subst loop_unfold [OF dns_loop_progress])
    (simp add: run_simps dns_loop_def split: option.split)

lemma dns_loop_run: "fst (dns_loop L role s r) = Ok (if r = [] then None else dns_run role s r)"
proof (induction r arbitrary: s)
  case Nil
  show ?case by (simp add: dns_loop_Nil)
next
  case (Cons b r)
  then show ?case by (simp add: dns_loop_Cons dns_run_Cons split: option.split)
qed

text \<open>One label.\<close>

definition label_start :: "dns_state \<Rightarrow> bool" where
  "label_start s \<longleftrightarrow> label_length s = 0 \<and> \<not> label_ends_with_hyphen s"

lemma ldh_not_dot: "ldh b \<Longrightarrow> b \<noteq> dot"
  by (auto simp: ldh_def)

lemma dns_step_ldh:
  assumes "b \<noteq> dot"
  shows "dns_step role (Some b) s =
    (if \<not> ldh b \<or> b = 0x2D \<and> label_length s = 0 \<or> label_length s \<ge> 63 then None
     else Some (s\<lparr>label_is_all_numeric := (label_length s = 0 \<or> label_is_all_numeric s) \<and> dns_digit b,
                  label_ends_with_hyphen := (b = 0x2D), label_length := label_length s + 1, is_first_byte := False\<rparr>))"
  using assms by (auto simp: dns_step_def ldh_def dns_digit_def MAX_LABEL_LENGTH_def)

lemma dns_run_label:
  assumes "label_start s" and "dot \<notin> set l"
  shows "dns_run role s l =
    (if l = [] then Some s
     else if list_all ldh l \<and> hd l \<noteq> 0x2D \<and> length l \<le> 63
     then Some (s\<lparr>label_is_all_numeric := list_all dns_digit l, label_ends_with_hyphen := (last l = 0x2D),
                  label_length := length l, is_first_byte := False\<rparr>)
     else None)"
  using assms(2)
proof (induction l rule: rev_induct)
  case (snoc b l)
  then have b: "b \<noteq> dot" and IH: "dns_run role s l = (if l = [] then Some s
     else if list_all ldh l \<and> hd l \<noteq> 0x2D \<and> length l \<le> 63
     then Some (s\<lparr>label_is_all_numeric := list_all dns_digit l, label_ends_with_hyphen := (last l = 0x2D),
                  label_length := length l, is_first_byte := False\<rparr>)
     else None)" by auto
  show ?case
  proof (cases "l = []")
    case True
    with assms(1) b show ?thesis by (auto simp: dns_run_Cons dns_step_ldh label_start_def)
  next
    case False
    then show ?thesis
      unfolding dns_run_append IH using b
      by (auto simp: dns_run_Cons dns_step_ldh)
  qed
qed simp

text \<open>A whole name, label by label. The state is the one in front of a label.\<close>

definition dns_check :: "IdRole \<Rightarrow> bool \<Rightarrow> dns_state \<Rightarrow> bytes \<Rightarrow> bool" where
  "dns_check role wild s r = (case dns_run role s r of None \<Rightarrow> False | Some s' \<Rightarrow> dns_end role wild s')"

lemma dns_labels_single: "dot \<notin> set l \<Longrightarrow> dns_labels l = [l]"
proof -
  assume "dot \<notin> set l"
  then have *: "dropWhile (\<lambda>b. b \<noteq> dot) l = []" by (auto simp: dropWhile_eq_Nil_conv)
  show ?thesis by (simp only: dns_labels.simps [of l] * list.case)
qed

lemma dns_labels_Cons: "dot \<notin> set l \<Longrightarrow> dns_labels (l @ dot # r) = l # dns_labels r"
proof -
  assume *: "dot \<notin> set l"
  then have "dropWhile (\<lambda>b. b \<noteq> dot) (l @ dot # r) = dot # r" by (induction l) auto
  moreover from * have "takeWhile (\<lambda>b. b \<noteq> dot) (l @ dot # r) = l" by (induction l) auto
  ultimately show ?thesis by (subst dns_labels.simps) simp
qed

lemma dns_labels_neq_Nil [simp]: "dns_labels s \<noteq> []"
  by (subst dns_labels.simps) (simp split: list.split)

lemma dns_labels_induct [case_names single more]:
  assumes "\<And>l. dot \<notin> set l \<Longrightarrow> P l"
    and "\<And>l r. dot \<notin> set l \<Longrightarrow> P r \<Longrightarrow> P (l @ dot # r)"
  shows "P s"
proof (induction "length s" arbitrary: s rule: less_induct)
  case less
  show ?case
  proof (cases "dot \<in> set s")
    case False
    then show ?thesis by (rule assms(1))
  next
    case True
    then obtain l r where "s = l @ dot # r" "dot \<notin> set l" by (meson split_list_first)
    with less assms(2) show ?thesis by simp
  qed
qed

lemma name_labels_single: "dot \<notin> set l \<Longrightarrow> name_labels role l = (if role = Reference \<and> l = [] then [] else [l])"
  by (simp add: name_labels_def dns_labels_single Let_def)

lemma name_labels_Cons: "dot \<notin> set l \<Longrightarrow> name_labels role (l @ dot # r) = l # name_labels role r"
  by (auto simp: name_labels_def dns_labels_Cons Let_def)

lemma dns_step_dot:
  "dns_step role (Some dot) s =
    (if label_length s = 0 \<and> (role \<noteq> NameConstraint \<or> \<not> is_first_byte s) \<or> label_ends_with_hyphen s then None
     else Some (s\<lparr>dot_count := dot_count s + 1, label_length := 0, is_first_byte := False\<rparr>))"
  by (auto simp: dns_step_def Let_def)

lemma dns_check_iff:
  assumes "label_start s" and "role = NameConstraint \<Longrightarrow> is_first_byte s \<Longrightarrow> r \<noteq> [] \<Longrightarrow> hd r \<noteq> dot"
  shows "dns_check role wild s r \<longleftrightarrow>
    (let ls = name_labels role r in
     list_all label_ok ls \<and> \<not> (if ls = [] then label_is_all_numeric s else list_all dns_digit (last ls)) \<and>
     (wild \<longrightarrow> 3 \<le> dot_count s + length ls))"
  using assms
proof (induction r arbitrary: s rule: dns_labels_induct)
  case (single l)
  then show ?case
    by (cases "l = []")
      (auto simp: dns_check_def dns_run_label name_labels_single dns_end_def label_ok_def label_start_def Let_def)
next
  case (more l r)
  show ?case
  proof (cases "label_ok l")
    case True
    define s' where "s' = s\<lparr>dot_count := dot_count s + 1, label_is_all_numeric := list_all dns_digit l,
      label_ends_with_hyphen := False, label_length := 0, is_first_byte := False\<rparr>"
    have "s\<lparr>label_is_all_numeric := list_all dns_digit l, label_ends_with_hyphen := False, label_length := n,
        is_first_byte := False, dot_count := dot_count s + 1, label_length := 0, is_first_byte := False\<rparr> = s'" for n
      by (simp add: s'_def)
    with True more.prems(1) more.hyps(1) have "dns_run role s (l @ dot # r) = dns_run role s' r"
      by (simp add: dns_run_append dns_run_label label_ok_def dns_run_Cons dns_step_dot)
    moreover have "label_start s'" by (simp add: s'_def label_start_def)
    ultimately show ?thesis
      using more.IH [of s'] more.hyps(1) True
      by (simp add: dns_check_def name_labels_Cons s'_def Let_def)
  next
    case False
    with more.prems more.hyps(1) have "dns_run role s (l @ dot # r) = None"
      by (cases "l = []")
        (auto simp: dns_run_append dns_run_label dns_run_Cons dns_step_dot label_ok_def label_start_def)
    with False more.hyps(1) show ?thesis by (simp add: dns_check_def name_labels_Cons Let_def)
  qed
qed

lemma name_labels_Nil_iff: "name_labels role s = [] \<longleftrightarrow> role = Reference \<and> s = []"
  by (induction s rule: dns_labels_induct) (auto simp: name_labels_single name_labels_Cons)

lemma plain_dns_id_check:
  assumes "label_start s" and "role = NameConstraint \<Longrightarrow> is_first_byte s \<Longrightarrow> hd r \<noteq> dot"
    and "dot_count s = (if wild then 1 else 0) \<or> \<not> wild" and "r \<noteq> []"
  shows "dns_check role wild s r \<longleftrightarrow> plain_dns_id role (if wild then 2 else 1) r"
proof -
  have "name_labels role r \<noteq> []" using assms(4) by (simp add: name_labels_Nil_iff)
  then show ?thesis
    using dns_check_iff [of s role r wild] assms
    by (cases wild) (auto simp: plain_dns_id_def Let_def Suc_le_eq)
qed

lemma plain_dns_id_first: "plain_dns_id role n (b # r) \<Longrightarrow> ldh b"
proof -
  assume *: "plain_dns_id role n (b # r)"
  have "ldh b" if "list_all label_ok (name_labels role s)" "s = b # r" for s
    using that
  proof (induction s rule: dns_labels_induct)
    case (more l r')
    from more.hyps more.prems(1) have "label_ok l" by (simp add: name_labels_Cons)
    with more.prems(2) show ?case by (cases l) (auto simp: label_ok_def)
  qed (auto simp: name_labels_single label_ok_def)
  with * show ?thesis by (simp add: plain_dns_id_def Let_def)
qed

lemma plain_dns_id_Nil [simp]: "\<not> plain_dns_id role n []"
  by (auto simp: plain_dns_id_def name_labels_single label_ok_def Let_def)

lemma leading_dot_check:
  assumes "label_start s" "is_first_byte s"
  shows "dns_check NameConstraint False s (dot # r) \<longleftrightarrow> plain_dns_id NameConstraint 1 r"
proof -
  let ?s = "s\<lparr>dot_count := dot_count s + 1, label_length := 0, is_first_byte := False\<rparr>"
  have "dns_check NameConstraint False s (dot # r) = dns_check NameConstraint False ?s r"
    using assms by (simp add: dns_check_def dns_run_Cons dns_step_dot label_start_def)
  also have "\<dots> \<longleftrightarrow> plain_dns_id NameConstraint 1 r"
  proof (cases "r = []")
    case True
    then show ?thesis by (simp add: dns_check_def dns_end_def)
  next
    case False
    then show ?thesis using assms plain_dns_id_check [of ?s NameConstraint r False]
      by (simp add: label_start_def)
  qed
  finally show ?thesis .
qed

lemma check_end_run:
  "fst (and_then (dns_loop L role s) (\<lambda>end_state.
      case end_state of None \<Rightarrow> ok False | Some s' \<Rightarrow> ok (dns_end role wild s')) r) =
    Ok (r \<noteq> [] \<and> dns_check role wild s r)"
proof -
  obtain x r1 where x: "dns_loop L role s r = (x, r1)" by force
  then have "x = Ok (if r = [] then None else dns_run role s r)" using dns_loop_run [of role s r] by simp
  with x show ?thesis by (auto simp: run_simps dns_check_def split: option.split)
qed

lemma is_valid_dns_id_eq: "is_valid_dns_id L s role wildcards = Ok (dns_id_ok role wildcards s)"
proof (cases "length s > 253 \<or> role = NameConstraint \<and> s = []")
  case True
  then show ?thesis by (auto simp: is_valid_dns_id_def dns_id_ok_def run_simps lr.rest_new)
next
  case False
  let ?s = "\<lambda>d f. \<lparr>dot_count = d, label_length = 0, label_is_all_numeric = False,
    label_ends_with_hyphen = False, is_first_byte = f\<rparr>"
  show ?thesis
  proof (cases "wildcards = WildcardsYes \<and> s \<noteq> [] \<and> hd s = 0x2A")
    case wild: True
    then obtain t where s: "s = 0x2A # t" by (cases s) auto
    then have plain: "\<not> plain_dns_id role 1 s" using plain_dns_id_first by (fastforce simp: ldh_def)
    show ?thesis
    proof (cases "t \<noteq> [] \<and> hd t = dot")
      case True
      then obtain u where t: "t = dot # u" by (cases t) auto
      have "is_valid_dns_id L s role wildcards = Ok (u \<noteq> [] \<and> dns_check role True (?s 1 False) u)"
        using False wild check_end_run [of role "?s 1 False" True u]
        by (simp add: is_valid_dns_id_def s t run_simps lr.rest_new)
      moreover have "u \<noteq> [] \<Longrightarrow> dns_check role True (?s 1 False) u \<longleftrightarrow> plain_dns_id role 2 u"
        using plain_dns_id_check [of "?s 1 False" role u True] by (simp add: label_start_def)
      ultimately show ?thesis
        using False plain wild by (cases "u = []") (auto simp: dns_id_ok_def s t)
    next
      case not_dot: False
      then have "is_valid_dns_id L s role wildcards = Ok False"
        using False wild by (cases t) (simp_all add: is_valid_dns_id_def s run_simps lr.rest_new)
      with not_dot plain False show ?thesis by (cases t) (auto simp: dns_id_ok_def s)
    qed
  next
    case no_wild: False
    have "is_valid_dns_id L s role wildcards = Ok (s \<noteq> [] \<and> dns_check role False (?s 0 True) s)"
      using False no_wild check_end_run [of role "?s 0 True" False s]
      by (cases s) (auto simp: is_valid_dns_id_def run_simps lr.rest_new)
    moreover have "dns_check role False (?s 0 True) s \<longleftrightarrow>
        plain_dns_id role 1 s \<or> role = NameConstraint \<and> hd s = dot \<and> plain_dns_id role 1 (tl s)" if "s \<noteq> []"
    proof (cases "role = NameConstraint \<and> hd s = dot")
      case True
      with that obtain r where "s = dot # r" by (cases s) auto
      moreover from this have "\<not> plain_dns_id role 1 s" using plain_dns_id_first by (fastforce simp: ldh_def)
      ultimately show ?thesis using True leading_dot_check [of "?s 0 True" r] by (simp add: label_start_def)
    next
      case False
      with that show ?thesis using plain_dns_id_check [of "?s 0 True" role s False] by (auto simp: label_start_def)
    qed
    ultimately show ?thesis using False no_wild by (cases s) (auto simp: dns_id_ok_def)
  qed
qed

section \<open>Valid identifiers\<close>

lemma plain_dns_id_chars: "plain_dns_id role n s \<Longrightarrow> b \<in> set s \<Longrightarrow> ldh b \<or> b = dot"
proof -
  assume *: "plain_dns_id role n s" "b \<in> set s"
  have "list_all label_ok (name_labels role s) \<Longrightarrow> b \<in> set s \<Longrightarrow> ldh b \<or> b = dot"
  proof (induction s rule: dns_labels_induct)
    case (single l)
    then show ?case by (cases "l = []") (auto simp: name_labels_single label_ok_def list_all_iff)
  next
    case (more l r)
    then show ?case by (auto simp: name_labels_Cons label_ok_def list_all_iff)
  qed
  with * show ?thesis by (simp add: plain_dns_id_def Let_def)
qed

lemma plain_dns_id_relative:
  assumes "plain_dns_id role n s" "role \<noteq> Reference"
  shows "last s \<noteq> dot"
proof -
  have "list_all label_ok (name_labels role s) \<Longrightarrow> s \<noteq> [] \<and> last s \<noteq> dot"
  proof (induction s rule: dns_labels_induct)
    case (single l)
    then have "label_ok l" using assms(2) by (simp add: name_labels_single)
    then have "l \<noteq> []" by (simp add: label_ok_def)
    then have "last l \<in> set l" by simp
    with \<open>l \<noteq> []\<close> single(1) show ?case by metis
  next
    case (more l r)
    then show ?case by (auto simp: name_labels_Cons)
  qed
  with assms(1) show ?thesis by (simp add: plain_dns_id_def Let_def)
qed

lemma ascii_utf8_valid: "(\<And>b. b \<in> set s \<Longrightarrow> b < 0x80) \<Longrightarrow> utf8_valid s"
  by (induction s) auto

lemma ldh_ascii: "ldh b \<Longrightarrow> b < 0x80"
  by (auto simp: ldh_def word_less_nat_alt word_le_nat_alt)

lemma dns_id_ascii:
  assumes "dns_id_ok role w s"
  shows "utf8_valid s"
proof (rule ascii_utf8_valid)
  fix b
  assume b: "b \<in> set s"
  have two: "s = take 2 s @ drop 2 s" and one: "s \<noteq> [] \<Longrightarrow> s = hd s # tl s" by simp_all
  consider "s = []" | n where "plain_dns_id role n s" | n where "hd s = dot" "plain_dns_id role n (tl s)" "s \<noteq> []"
    | n where "take 2 s = [0x2A, dot]" "plain_dns_id role n (drop 2 s)"
    using assms by (auto simp: dns_id_ok_def)
  then have "ldh b \<or> b = dot \<or> b = 0x2A"
  proof cases
    case (3 n)
    then have "b = dot \<or> b \<in> set (tl s)" using b one by (metis set_ConsD)
    with 3 show ?thesis using plain_dns_id_chars by blast
  next
    case (4 n)
    have "b \<in> set (take 2 s) \<or> b \<in> set (drop 2 s)" using b two by (metis Un_iff set_append)
    with 4 show ?thesis using plain_dns_id_chars by auto
  qed (use b plain_dns_id_chars in \<open>auto\<close>)
  then show "b < 0x80" using ldh_ascii by auto
qed

section \<open>What matches\<close>

abbreviation lower :: "bytes \<Rightarrow> bytes" where "lower \<equiv> map ascii_lower"

text \<open>
  A reference identifier may be absolute: its final dot does not count. A wildcard stands for exactly one label.
\<close>

definition relative :: "bytes \<Rightarrow> bytes" where
  "relative r = (if r \<noteq> [] \<and> last r = dot then butlast r else r)"

definition dns_reference_match :: "bytes \<Rightarrow> bytes \<Rightarrow> bool" where
  "dns_reference_match p r =
    (if p \<noteq> [] \<and> hd p = 0x2A then lower (tl p) = lower (dropWhile (\<lambda>b. b \<noteq> dot) (relative r))
     else lower p = lower (relative r))"

text \<open>
  A name is in the subtree of a constraint when the constraint is empty or ends the name at a label boundary;
  a wildcard name no longer than the constraint is in it when the constraint is one of the names it stands for.
\<close>

definition dns_constraint_match :: "bytes \<Rightarrow> bytes \<Rightarrow> bool" where
  "dns_constraint_match p c =
    (if length c < length p
     then c = [] \<or>
       lower (drop (length p - length c) p) = lower c \<and> (hd c = dot \<or> p ! (length p - length c - 1) = dot)
     else if p \<noteq> [] \<and> hd p = 0x2A then lower (tl p) = lower (dropWhile (\<lambda>b. b \<noteq> dot) (tl c))
     else lower p = lower c)"

lemma ascii_lower_dot [simp]: "ascii_lower b = dot \<longleftrightarrow> b = dot"
  by (auto simp: ascii_lower_def)

lemma compare_byte_progress: "progress (compare_byte L)"
proof (rule progressI)
  fix s r s' r'
  assume "compare_byte L s r = (Ok (Inl s'), r')"
  then show "length r' < length r"
    by (cases r; cases s) (auto simp: compare_byte_def run_simps split: if_splits)
qed

lemma compare_bytes_Cons:
  "compare_bytes L r (b # p) =
    (if r = [] \<or> ascii_lower b \<noteq> ascii_lower (hd r) then (Ok None, p)
     else if p = [] then (if b = dot then Err MalformedDnsIdentifier else Ok (Some (tl r)), [])
     else compare_bytes L (tl r) p)"
  unfolding compare_bytes_def
  by (subst loop_unfold [OF compare_byte_progress], cases r)
    (auto simp: compare_byte_def run_simps)

lemma compare_bytes_run:
  assumes "p \<noteq> []"
  shows "fst (compare_bytes L r p) =
      (if prefix (lower p) (lower r)
       then if last p = dot then Err MalformedDnsIdentifier else Ok (Some (drop (length p) r)) else Ok None)"
    and "prefix (lower p) (lower r) \<Longrightarrow> snd (compare_bytes L r p) = []"
  using assms
proof (induction p arbitrary: r rule: list_nonempty_induct)
  case (single b)
  { case 1 show ?case by (cases r) (auto simp: compare_bytes_Cons) }
  { case 2 then show ?case by (cases r) (auto simp: compare_bytes_Cons) }
next
  case (cons b p)
  { case 1 from cons show ?case by (cases r) (auto simp: compare_bytes_Cons) }
  { case 2 with cons show ?case by (cases r) (auto simp: compare_bytes_Cons) }
qed

lemma skip_label_Cons:
  "skip_label L (b # r) = (if r \<noteq> [] \<and> hd r = dot then (Ok True, r) else skip_label L r)"
proof -
  have "progress (\<lambda>_. and_then (try_read_byte L) (\<lambda>b.
        case b of
          None \<Rightarrow> ok (Inr False)
        | Some _ \<Rightarrow> and_then (peek L 0x2E) (\<lambda>dot. ok (if dot then Inr True else Inl ()))))"
    (is "progress ?body")
  proof (rule progressI)
    fix s r s' r'
    assume "?body s r = (Ok (Inl s'), r')"
    then show "length r' < length r"
      by (cases r; cases "tl r") (auto simp: run_simps split: if_splits)
  qed
  note unfold = loop_unfold [OF this]
  show ?thesis unfolding skip_label_def
    by (subst unfold, cases r) (auto simp: run_simps)
qed

lemma skip_label_run:
  "skip_label L r =
    (let r' = dropWhile (\<lambda>b. b \<noteq> dot) (tl r) in if r' = [] then (Ok False, []) else (Ok True, r'))"
proof (induction r)
  case Nil
  show ?case by (simp add: skip_label_def loop_list run_simps)
next
  case (Cons b r)
  then show ?case by (cases r) (auto simp: skip_label_Cons Let_def)
qed

lemma compare_tail_run:
  "compare_tail L role [] r =
    Ok (r = [] \<or> role \<noteq> NameConstraint \<and> r = [dot])"
  by (cases r; cases "tl r") (auto simp: compare_tail_def run_simps)

definition compare_names :: "IdRole \<Rightarrow> bytes \<Rightarrow> bytes \<Rightarrow> bool result" where
  "compare_names role p r =
    (case compare_bytes L r p of
       (x, p') \<Rightarrow> res_bind x (\<lambda>compared.
         case compared of None \<Rightarrow> Ok False | Some r' \<Rightarrow> compare_tail L role p' r'))"

lemma compare_names_run:
  assumes "p \<noteq> []" "last p \<noteq> dot"
  shows "compare_names role p r =
    Ok (prefix (lower p) (lower r) \<and>
      (drop (length p) r = [] \<or> role \<noteq> NameConstraint \<and> drop (length p) r = [dot]))"
proof -
  obtain x p' where x: "compare_bytes L r p = (x, p')" by force
  with compare_bytes_run [OF assms(1), of r] assms(2) show ?thesis
    by (auto simp: compare_names_def compare_tail_run split: if_splits)
qed

lemma relative_dropWhile:
  "relative (dropWhile (\<lambda>b. b \<noteq> dot) r) = dropWhile (\<lambda>b. b \<noteq> dot) (relative r)"
proof (cases r rule: rev_cases)
  case (snoc x b)
  show ?thesis
  proof (cases "dot \<in> set x")
    case False
    then have "dropWhile (\<lambda>b. b \<noteq> dot) x = []" "dropWhile (\<lambda>b. b \<noteq> dot) (x @ [b]) = (if b = dot then [b] else [])"
      by (induction x) auto
    with snoc show ?thesis by (cases "b = dot") (simp_all only: relative_def butlast_snoc last_snoc if_True if_False
      append_is_Nil_conv list.simps simp_thms butlast.simps last.simps split: if_split)
  qed (use snoc in \<open>auto simp: relative_def dropWhile_append\<close>)
qed (simp add: relative_def)

lemma relative_match:
  assumes "p \<noteq> []" "last p \<noteq> dot"
  shows "prefix (lower p) (lower r) \<and> (drop (length p) r = [] \<or> drop (length p) r = [dot]) \<longleftrightarrow>
    lower p = lower (relative r)"
proof
  assume *: "prefix (lower p) (lower r) \<and> (drop (length p) r = [] \<or> drop (length p) r = [dot])"
  then have len: "length p \<le> length r" by (metis length_map prefix_length_le)
  from * have eq: "lower p = lower (take (length p) r)" by (metis length_map prefixE append_eq_conv_conj take_map)
  from * show "lower p = lower (relative r)"
  proof (elim conjE disjE)
    assume d: "drop (length p) r = []"
    with len eq have pr: "lower p = lower r" by simp
    then have "r \<noteq> []" using assms(1) by auto
    with pr assms have "last r \<noteq> dot" by (metis ascii_lower_dot last_map)
    with pr show ?thesis by (simp add: relative_def)
  next
    assume "drop (length p) r = [dot]"
    then have "r = take (length p) r @ [dot]" by (metis append_take_drop_id)
    then have "relative r = take (length p) r" by (metis butlast_snoc last_snoc relative_def snoc_eq_iff_butlast)
    with eq show ?thesis by simp
  qed
next
  assume eq: "lower p = lower (relative r)"
  then have len: "length p = length (relative r)" by (metis length_map)
  show "prefix (lower p) (lower r) \<and> (drop (length p) r = [] \<or> drop (length p) r = [dot])"
  proof (cases "r \<noteq> [] \<and> last r = dot")
    case True
    then have "r = relative r @ [dot]" by (metis append_butlast_last_id relative_def)
    with eq len show ?thesis by (metis append_eq_conv_conj map_append prefixI)
  next
    case False
    with eq len show ?thesis by (auto simp: relative_def)
  qed
qed

lemma compare_names_reference:
  "p \<noteq> [] \<Longrightarrow> last p \<noteq> dot \<Longrightarrow> compare_names Reference p r = Ok (lower p = lower (relative r))"
  unfolding relative_match [symmetric] compare_names_run by simp

lemma presented_ok_cases:
  assumes "dns_id_ok Presented WildcardsYes p"
  obtains "p \<noteq> []" "last p \<noteq> dot" "0x2A \<notin> set p"
  | p' where "p = 0x2A # p'" "p' \<noteq> []" "last p' \<noteq> dot" "0x2A \<notin> set p'"
proof -
  have star: "0x2A \<notin> set s" if "plain_dns_id Presented n s" for n s
    using plain_dns_id_chars [OF that, of "0x2A"] by (auto simp: ldh_def)
  have last: "s \<noteq> [] \<and> last s \<noteq> dot" if "plain_dns_id Presented n s" for n s
    using plain_dns_id_relative [OF that] that by (cases s) auto
  from assms consider n where "plain_dns_id Presented n p"
    | n where "take 2 p = [0x2A, dot]" "plain_dns_id Presented n (drop 2 p)"
    by (auto simp: dns_id_ok_def)
  then show thesis
  proof cases
    case (1 n)
    with star last that(1) show ?thesis by blast
  next
    case (2 n)
    then have "p = 0x2A # dot # drop 2 p" by (metis append_Cons append_Nil append_take_drop_id)
    moreover from last [OF 2(2)] have "last (dot # drop 2 p) \<noteq> dot" by (simp only: last.simps if_False simp_thms)
    ultimately show ?thesis using that(2) [of "dot # drop 2 p"] star [OF 2(2)] by simp
  qed
qed

lemma match_reference_names:
  assumes "dns_id_ok Presented WildcardsYes p" "dns_id_ok Reference WildcardsNo r"
  shows "presented_id_matches_reference_id L p r = Ok (dns_reference_match p r)"
  using assms(1)
proof (cases rule: presented_ok_cases)
  case 1
  then have "hd p \<noteq> 0x2A" by (metis list.set_sel(1))
  with 1 assms have "presented_id_matches_reference_id L p r = compare_names Reference p r"
    by (simp add: presented_id_matches_reference_id_def presented_id_matches_reference_id_internal_def
        is_valid_dns_id_eq skip_prefix_def skip_wildcard_def compare_names_def run_simps)
  with 1 \<open>hd p \<noteq> 0x2A\<close> show ?thesis
    by (simp add: compare_names_reference dns_reference_match_def)
next
  case (2 p')
  define r' where "r' = dropWhile (\<lambda>b. b \<noteq> dot) (tl r)"
  from assms(2) obtain b t where r: "r = b # t" "plain_dns_id Reference 1 (b # t)"
    by (cases r) (auto simp: dns_id_ok_def)
  from plain_dns_id_first [OF this(2)] have "b \<noteq> dot" by (rule ldh_not_dot)
  with r(1) have drop: "dropWhile (\<lambda>b. b \<noteq> dot) r = r'" by (simp add: r'_def)
  have "presented_id_matches_reference_id L p r = (if r' = [] then Ok False else compare_names Reference p' r')"
    using assms 2
    by (simp add: presented_id_matches_reference_id_def presented_id_matches_reference_id_internal_def
        is_valid_dns_id_eq skip_prefix_def skip_wildcard_def skip_label_run compare_names_def run_simps Let_def
        r'_def [symmetric])
  also have "\<dots> = Ok (lower p' = lower (relative r'))"
    using 2 by (auto simp: compare_names_reference relative_def)
  finally show ?thesis
    using 2 by (simp add: dns_reference_match_def relative_dropWhile [symmetric] drop)
qed

lemma compare_names_constraint:
  "p \<noteq> [] \<Longrightarrow> last p \<noteq> dot \<Longrightarrow> compare_names NameConstraint p c = Ok (lower p = lower c)"
proof -
  assume p: "p \<noteq> []" "last p \<noteq> dot"
  have "prefix (lower p) (lower c) \<and> drop (length p) c = [] \<longleftrightarrow> lower p = lower c"
  proof
    assume *: "prefix (lower p) (lower c) \<and> drop (length p) c = []"
    then obtain zs where zs: "lower c = lower p @ zs" by (auto simp: prefix_def)
    then have "length c = length p + length zs" by (metis length_append length_map)
    with * zs show "lower p = lower c" by simp
  next
    assume *: "lower p = lower c"
    then have "length p = length c" by (metis length_map)
    with * show "prefix (lower p) (lower c) \<and> drop (length p) c = []" by simp
  qed
  with p show ?thesis unfolding compare_names_run [OF p] by simp
qed

text \<open>The comparison of what is left of the presented identifier with a constraint.\<close>

definition match_from :: "bytes \<Rightarrow> bytes \<Rightarrow> bool result" where
  "match_from c q =
    (let c' = dropWhile (\<lambda>b. b \<noteq> dot) (tl c) in
     if q \<noteq> [] \<and> hd q = 0x2A then if c' = [] then Ok False else compare_names NameConstraint (tl q) c'
     else compare_names NameConstraint q c)"

lemma constraint_run:
  assumes "dns_id_ok Presented WildcardsYes p" "dns_id_ok NameConstraint WildcardsNo c"
  shows "presented_id_matches_constraint L p c =
      res_bind (skip_prefix L p NameConstraint c) (\<lambda>x. case x of Inl b \<Rightarrow> Ok b | Inr q \<Rightarrow> match_from c q)"
proof -
  define c' where "c' = dropWhile (\<lambda>b. b \<noteq> dot) (tl c)"
  show ?thesis
    using assms unfolding match_from_def c'_def [symmetric] Let_def
    by (auto simp: presented_id_matches_constraint_def presented_id_matches_reference_id_internal_def
        is_valid_dns_id_eq skip_wildcard_def skip_label_run compare_names_def run_simps Let_def drop_Suc Suc_le_eq
        c'_def [symmetric] intro!: res_bind_cong split: sum.split)
qed

lemma match_from_whole:
  assumes "dns_id_ok Presented WildcardsYes p" "length p \<le> length c"
  shows "match_from c p = Ok (dns_constraint_match p c)"
  using assms(1)
proof (cases rule: presented_ok_cases)
  case 1
  then have "hd p \<noteq> 0x2A" by (metis list.set_sel(1))
  with 1 assms(2) show ?thesis by (simp add: match_from_def dns_constraint_match_def compare_names_constraint)
next
  case (2 p')
  define c' where "c' = dropWhile (\<lambda>b. b \<noteq> dot) (tl c)"
  have "match_from c p = (if c' = [] then Ok False else Ok (lower p' = lower c'))"
    using 2 unfolding match_from_def c'_def [symmetric] by (simp add: compare_names_constraint)
  also have "\<dots> = Ok (lower p' = lower c')" using 2 by auto
  finally show ?thesis using 2 assms(2) by (simp add: dns_constraint_match_def c'_def)
qed

lemma match_from_suffix:
  assumes p: "dns_id_ok Presented WildcardsYes p" and k: "0 < k" "k < length p"
  shows "match_from c (drop k p) = Ok (lower (drop k p) = lower c)"
proof -
  have nonempty: "p \<noteq> []" "last p \<noteq> dot" and star: "i < length p \<Longrightarrow> p ! i = 0x2A \<Longrightarrow> i = 0" for i
    using p by (auto elim!: presented_ok_cases simp: nth_Cons' in_set_conv_nth split: if_splits)
  from k have drop: "drop k p \<noteq> []" "hd (drop k p) = p ! k" by (auto simp: hd_drop_conv_nth)
  with star [of k] k have "hd (drop k p) \<noteq> 0x2A" by auto
  moreover from drop(1) nonempty have "last (drop k p) \<noteq> dot" by (metis last_drop drop_eq_Nil not_le)
  ultimately show ?thesis
    unfolding match_from_def Let_def using drop(1) by (simp only: compare_names_constraint if_False simp_thms)
qed

lemma match_constraint_names:
  assumes p: "dns_id_ok Presented WildcardsYes p" and c: "dns_id_ok NameConstraint WildcardsNo c"
  shows "presented_id_matches_constraint L p c = Ok (dns_constraint_match p c)"
proof (cases "length c < length p")
  case False
  with constraint_run [OF p c] match_from_whole [OF p] show ?thesis by (simp add: skip_prefix_def run_simps)
next
  case True
  let ?k = "length p - length c"
  show ?thesis
  proof (cases "c = []")
    case True
    with \<open>length c < length p\<close> constraint_run [OF p c] show ?thesis
      by (simp add: skip_prefix_def dns_constraint_match_def)
  next
    case False
    then have "0 < length c" by simp
    with True have k: "0 < ?k" "?k < length p" by linarith+
    then have step: "drop (?k - 1) p = p ! (?k - 1) # drop ?k p"
      by (metis Cons_nth_drop_Suc One_nat_def Suc_pred less_imp_diff_less)
    have "skip_prefix L p NameConstraint c =
        (if hd c = dot \<or> p ! (?k - 1) = dot then Ok (Inr (drop ?k p)) else Ok (Inl False))"
      using True False step by (auto simp: skip_prefix_def run_simps)
    with constraint_run [OF p c] match_from_suffix [OF p k] True False show ?thesis
      by (auto simp: dns_constraint_match_def)
  qed
qed

lemma presented_id_matches_reference_run:
  "presented_id_matches_reference_id L p r =
    (if dns_id_ok Presented WildcardsYes p \<and> dns_id_ok Reference WildcardsNo r
     then Ok (dns_reference_match p r) else Err MalformedDnsIdentifier)"
  using match_reference_names [of p r]
  by (auto simp: presented_id_matches_reference_id_def presented_id_matches_reference_id_internal_def is_valid_dns_id_eq)

lemma presented_id_matches_constraint_run:
  "presented_id_matches_constraint L p c =
    (if \<not> dns_id_ok Presented WildcardsYes p then Err MalformedDnsIdentifier
     else if \<not> dns_id_ok NameConstraint WildcardsNo c then Err MalformedNameConstraint
     else Ok (dns_constraint_match p c))"
  using match_constraint_names [of p c]
  by (auto simp: presented_id_matches_constraint_def presented_id_matches_reference_id_internal_def is_valid_dns_id_eq)

section \<open>Properties\<close>

text \<open>C15: the byte-by-byte syntax check accepts exactly the identifiers of the grammar: at most 253
  octets, labels of 1 to 63 letters, digits, hyphens and underscores with no hyphen at either end, a last
  label that is not a number, a final dot in reference identifiers only, a leading dot in constraints only,
  and a wildcard as a first label in front of at least two more. It always returns.\<close>

theorem dns_id_grammar:
  assumes "untrusted_reader U rest later"
  shows "is_valid_dns_id U s role wildcards = Ok (dns_id_ok role wildcards s)"
  unfolding untrusted_reader.is_valid_dns_id_indep [OF assms] by (rule is_valid_dns_id_eq)

theorem dns_id_grammar_witness:
  "is_valid_dns_id list_reader [0x2A, 0x2E, 0x61, 0x2E, 0x62] Presented WildcardsYes = Ok True"
proof -
  have "dns_id_ok Presented WildcardsYes [0x2A, 0x2E, 0x61, 0x2E, 0x62]" by code_simp
  then show ?thesis
    using dns_id_grammar [OF lr.untrusted_reader_axioms, of "[0x2A, 0x2E, 0x61, 0x2E, 0x62]"] by simp
qed

text \<open>C16: a presented identifier matches a reference identifier exactly when both are valid and agree without regard
  to case, a final dot of the reference left out, where a wildcard stands for one label. No input
  makes the comparison panic.\<close>

theorem dns_reference_matching:
  assumes "untrusted_reader U rest later"
  shows "presented_id_matches_reference_id U p r =
    (if dns_id_ok Presented WildcardsYes p \<and> dns_id_ok Reference WildcardsNo r
     then Ok (dns_reference_match p r) else Err MalformedDnsIdentifier)"
  unfolding untrusted_reader.presented_id_matches_indep(1) [OF assms] by (rule presented_id_matches_reference_run)

theorem dns_reference_matching_witness:
  "presented_id_matches_reference_id list_reader
     [0x2A, 0x2E, 0x61, 0x2E, 0x62] [0x77, 0x2E, 0x41, 0x2E, 0x62, 0x2E] = Ok True" (is "presented_id_matches_reference_id L ?p ?r = _")
proof -
  have "dns_id_ok Presented WildcardsYes ?p" "dns_id_ok Reference WildcardsNo ?r" "dns_reference_match ?p ?r"
    by code_simp+
  then show ?thesis using dns_reference_matching [OF lr.untrusted_reader_axioms, of ?p ?r] by simp
qed

text \<open>C17: a presented identifier is matched against a valid name constraint exactly as the subtree relation says; an
  invalid presented identifier and an invalid constraint give different errors.\<close>

theorem dns_constraint_matching:
  assumes "untrusted_reader U rest later"
  shows "presented_id_matches_constraint U p c =
    (if \<not> dns_id_ok Presented WildcardsYes p then Err MalformedDnsIdentifier
     else if \<not> dns_id_ok NameConstraint WildcardsNo c then Err MalformedNameConstraint
     else Ok (dns_constraint_match p c))"
  unfolding untrusted_reader.presented_id_matches_indep(2) [OF assms] by (rule presented_id_matches_constraint_run)

theorem dns_constraint_matching_witness:
  "presented_id_matches_constraint list_reader
     [0x77, 0x2E, 0x61, 0x2E, 0x62] [0x2E, 0x61, 0x2E, 0x62] = Ok True" (is "presented_id_matches_constraint L ?p ?c = _")
proof -
  have "dns_id_ok Presented WildcardsYes ?p" "dns_id_ok NameConstraint WildcardsNo ?c" "dns_constraint_match ?p ?c"
    by code_simp+
  then show ?thesis using dns_constraint_matching [OF lr.untrusted_reader_axioms, of ?p ?c] by simp
qed

text \<open>C35: a name that was accepted, with or without a wildcard, is text: turning it into a string never panics and
  gives the octets it was made from, and its owned form is the same name in lower case.\<close>

theorem dns_name_text:
  assumes "untrusted_reader U rest later"
  shows "(dns_name_ref_try_from_ascii U s = Ok (Some n) \<longrightarrow>
      n = DnsNameRef s \<and> dns_name_ref_into_str n = Ok s \<and>
      dns_name_ref_to_owned n = Ok (DnsName (map ascii_lower s))) \<and>
    (wildcard_try_from_ascii U s = Ok (Some w) \<longrightarrow>
      w = WildcardDnsNameRef s \<and> wildcard_into_str w = Ok s)"
  unfolding dns_name_ref_try_from_ascii_def wildcard_try_from_ascii_def
    untrusted_reader.is_valid_dns_id_indep [OF assms] is_valid_dns_id_eq
  by (auto simp: str_from_utf8_unwrap_def dns_name_ref_to_owned_def to_ascii_lowercase_def dest: dns_id_ascii)

theorem dns_name_text_witness:
  "dns_name_ref_try_from_ascii list_reader [0x41, 0x2E] = Ok (Some (DnsNameRef [0x41, 0x2E])) \<and>
    dns_name_ref_to_owned (DnsNameRef [0x41, 0x2E]) = Ok (DnsName [0x61, 0x2E])"
proof -
  have "dns_id_ok Reference WildcardsNo [0x41, 0x2E]" by code_simp
  then have "dns_name_ref_try_from_ascii list_reader [0x41, 0x2E] = Ok (Some (DnsNameRef [0x41, 0x2E]))"
    by (simp add: dns_name_ref_try_from_ascii_def is_valid_dns_id_eq)
  with dns_name_text [OF lr.untrusted_reader_axioms, of "[0x41, 0x2E]" "DnsNameRef [0x41, 0x2E]"]
  show ?thesis by (simp add: ascii_lower_def)
qed

end
