(* ===== verification/Ip_Address.thy ===== *)
theory Ip_Address
  imports Dns_Name
begin

text \<open>
  IP addresses (\<^verbatim>\<open>src/subject_name/ip_address.rs\<close>): the textual parsers and printers, the comparison with
  a reference address and with an address-and-mask constraint. The lemmas show that parsing and printing
  are inverse to each other, that a constraint is a CIDR block, and that no index, \<^verbatim>\<open>unwrap\<close> or
  \<^verbatim>\<open>expect\<close> of this file can panic.
\<close>

unbundle bit_operations_syntax

text \<open>A Rust string or byte slice is its bytes, a fixed-size array a list of that length.\<close>

datatype IpAddr = Owned_V4 bytes bytes | Owned_V6 bytes bytes

datatype IpAddrRef = V4 bytes bytes | V6 bytes bytes

fun ip_addr_as_ref_str :: "IpAddr \<Rightarrow> bytes" where
  "ip_addr_as_ref_str (Owned_V4 ip_address _) = ip_address"
| "ip_addr_as_ref_str (Owned_V6 ip_address _) = ip_address"

text \<open>\<^verbatim>\<open>String::from_utf8(..).expect(..)\<close> panics as \<^verbatim>\<open>from_utf8(..).unwrap()\<close> does.\<close>

fun ip_addr_from_ref :: "IpAddrRef \<Rightarrow> IpAddr result" where
  "ip_addr_from_ref (V4 ip_address octets) = res_bind (str_from_utf8_unwrap ip_address) (\<lambda>s. Ok (Owned_V4 s octets))"
| "ip_addr_from_ref (V6 ip_address octets) = res_bind (str_from_utf8_unwrap ip_address) (\<lambda>s. Ok (Owned_V6 s octets))"

fun ip_addr_ref_from :: "IpAddr \<Rightarrow> IpAddrRef" where
  "ip_addr_ref_from (Owned_V4 ip_address octets) = V4 ip_address octets"
| "ip_addr_ref_from (Owned_V6 ip_address octets) = V6 ip_address octets"

fun ip_addr_ref_to_owned :: "IpAddrRef \<Rightarrow> IpAddr result" where
  "ip_addr_ref_to_owned (V4 ip_address octets) = res_bind (str_from_utf8_unwrap ip_address) (\<lambda>s. Ok (Owned_V4 s octets))"
| "ip_addr_ref_to_owned (V6 ip_address octets) = res_bind (str_from_utf8_unwrap ip_address) (\<lambda>s. Ok (Owned_V6 s octets))"

fun ip_addr_ref_into_str :: "IpAddrRef \<Rightarrow> bytes result" where
  "ip_addr_ref_into_str (V4 ip_address _) = str_from_utf8_unwrap ip_address"
| "ip_addr_ref_into_str (V6 ip_address _) = str_from_utf8_unwrap ip_address"

fun ip_addr_ref_into_bytes :: "IpAddrRef \<Rightarrow> bytes" where
  "ip_addr_ref_into_bytes (V4 ip_address _) = ip_address"
| "ip_addr_ref_into_bytes (V6 ip_address _) = ip_address"

section \<open>Printing\<close>

text \<open>\<^verbatim>\<open>{:02x?}\<close>: two lower-case hexadecimal digits.\<close>

definition hex_char :: "nat \<Rightarrow> u8" where
  "hex_char n = (if n < 10 then 0x30 + of_nat n else 0x61 + of_nat (n - 10))"

definition hex2 :: "u8 \<Rightarrow> bytes" where
  "hex2 b = [hex_char (unat b div 16), hex_char (unat b mod 16)]"

definition ipv6_to_uncompressed_string :: "bytes \<Rightarrow> bytes" where
  "ipv6_to_uncompressed_string octets =
    concat (map (\<lambda>i. hex2 (octets ! (i * 2)) @ hex2 (octets ! (i * 2 + 1)) @ [0x3A]) [0..<7]) @
    hex2 (octets ! 14) @ hex2 (octets ! 15)"

text \<open>\<^verbatim>\<open>std::net::IpAddr\<close> and the \<^verbatim>\<open>Display\<close> of its IPv4 addresses: dotted decimal.\<close>

datatype std_ip_addr = Std_V4 bytes | Std_V6 bytes

definition dec_octet :: "u8 \<Rightarrow> bytes" where
  "dec_octet b =
    (let n = unat b in
     (if n \<ge> 100 then [0x30 + of_nat (n div 100)] else []) @
     (if n \<ge> 10 then [0x30 + of_nat (n div 10 mod 10)] else []) @
     [0x30 + of_nat (n mod 10)])"

definition ipv4_to_string :: "bytes \<Rightarrow> bytes" where
  "ipv4_to_string octets =
    dec_octet (octets ! 0) @ [0x2E] @ dec_octet (octets ! 1) @ [0x2E] @
    dec_octet (octets ! 2) @ [0x2E] @ dec_octet (octets ! 3)"

fun ip_addr_from_std :: "std_ip_addr \<Rightarrow> IpAddr" where
  "ip_addr_from_std (Std_V4 octets) = Owned_V4 (ipv4_to_string octets) octets"
| "ip_addr_from_std (Std_V6 octets) = Owned_V6 (ipv6_to_uncompressed_string octets) octets"

section \<open>Comparison\<close>

text \<open>One turn of the \<^verbatim>\<open>while\<close> loop over the presented address, with the reader of the reference.\<close>

definition ip_compare_byte :: "'r untrusted \<Rightarrow> 'r \<Rightarrow> ('r, 'r + bool) parser" where
  "ip_compare_byte U reference =
    and_then (at_end U) (\<lambda>e.
      if e then ok (Inr True)
      else and_then (try_read_byte U) (\<lambda>p.
        case p of
          None \<Rightarrow> of_result Panic
        | Some presented_byte \<Rightarrow>
            (case u_read_byte U reference of
               (None, _) \<Rightarrow> of_result Panic
             | (Some reference_byte, reference') \<Rightarrow>
                 if presented_byte \<noteq> reference_byte then ok (Inr False) else ok (Inl reference'))))"

definition ip_presented_id_matches_reference_id :: "'r untrusted \<Rightarrow> bytes \<Rightarrow> bytes \<Rightarrow> bool result" where
  "ip_presented_id_matches_reference_id U presented_id reference_id =
    (if \<not> (length presented_id = 4 \<and> length reference_id = 4 \<or>
           length presented_id = 16 \<and> length reference_id = 16) then Ok False
     else fst (loop U (ip_compare_byte U) (u_new U reference_id) (u_new U presented_id)))"

text \<open>\<^verbatim>\<open>u8::leading_ones\<close> and \<^verbatim>\<open>u8::trailing_zeros\<close>.\<close>

definition leading_ones :: "u8 \<Rightarrow> nat" where
  "leading_ones b = length (takeWhile (\<lambda>i. bit b i) [7, 6, 5, 4, 3, 2, 1, 0])"

definition trailing_zeros :: "u8 \<Rightarrow> nat" where
  "trailing_zeros b = length (takeWhile (\<lambda>i. \<not> bit b i) [0, 1, 2, 3, 4, 5, 6, 7])"

text \<open>
  One turn of the loop of \<^verbatim>\<open>presented_id_matches_constraint\<close>, over the name; its state is the readers of
  the address and of the mask and \<^verbatim>\<open>seen_zero_bit\<close>.
\<close>

definition constraint_octet :: "'r untrusted \<Rightarrow> 'r \<times> 'r \<times> bool \<Rightarrow> ('r, ('r \<times> 'r \<times> bool) + bool) parser" where
  "constraint_octet U s =
    (case s of (constraint_address, constraint_mask, seen_zero_bit) \<Rightarrow>
      and_then (try_read_byte U) (\<lambda>n.
        case n of
          None \<Rightarrow> of_result Panic
        | Some name_byte \<Rightarrow>
            (case u_read_byte U constraint_address of
               (None, _) \<Rightarrow> of_result Panic
             | (Some constraint_address_byte, constraint_address') \<Rightarrow>
                 (case u_read_byte U constraint_mask of
                    (None, _) \<Rightarrow> of_result Panic
                  | (Some constraint_mask_byte, constraint_mask') \<Rightarrow>
                      if leading_ones constraint_mask_byte + trailing_zeros constraint_mask_byte \<noteq> 8
                      then of_result (Err InvalidNetworkMaskConstraint)
                      else if seen_zero_bit \<and> constraint_mask_byte \<noteq> 0
                      then of_result (Err InvalidNetworkMaskConstraint)
                      else
                        let seen = (if constraint_mask_byte \<noteq> 0xff then True else seen_zero_bit) in
                        if (name_byte XOR constraint_address_byte) AND constraint_mask_byte \<noteq> 0
                        then ok (Inr False)
                        else and_then (at_end U) (\<lambda>e.
                          ok (if e then Inr True
                              else Inl (constraint_address', constraint_mask', seen)))))))"

text \<open>The two \<^verbatim>\<open>read_bytes(..).unwrap()\<close>: an end of input is a panic.\<close>

definition read_bytes_unwrap :: "'r untrusted \<Rightarrow> nat \<Rightarrow> ('r, bytes) parser" where
  "read_bytes_unwrap U n r =
    (case u_read_bytes U n r of (Some bs, r') \<Rightarrow> (Ok bs, r') | (None, r') \<Rightarrow> (Panic, r'))"

definition ip_presented_id_matches_constraint :: "'r untrusted \<Rightarrow> bytes \<Rightarrow> bytes \<Rightarrow> bool result" where
  "ip_presented_id_matches_constraint U name constraint =
    (if \<not> (length name = 4 \<and> length constraint = 8 \<or> length name = 16 \<and> length constraint = 32) then
       (if length name = 4 \<and> length constraint = 32 \<or> length name = 16 \<and> length constraint = 8 then Ok False
        else if length name = 4 \<or> length name = 16 then Err InvalidNetworkMaskConstraint
        else Err BadDer)
     else
       res_bind
         (read_all U BadDer
           (and_then (read_bytes_unwrap U (length constraint div 2)) (\<lambda>address.
            and_then (read_bytes_unwrap U (length constraint div 2)) (\<lambda>mask.
              ok (address, mask)))) constraint)
         (\<lambda>(address, mask).
           fst (loop U (constraint_octet U) (u_new U address, u_new U mask, False) (u_new U name))))"

section \<open>Parsing IPv4\<close>

text \<open>Indexing an array out of bounds is a panic; so is a failed conversion to \<^verbatim>\<open>u8\<close>.\<close>

definition array_set :: "'a list \<Rightarrow> nat \<Rightarrow> 'a \<Rightarrow> 'a list result" where
  "array_set xs i v = (if i < length xs then Ok (xs[i := v]) else Panic)"

definition array_take :: "'a list \<Rightarrow> nat \<Rightarrow> 'a list result" where
  "array_take xs n = (if n \<le> length xs then Ok (take n xs) else Panic)"

definition u8_try_into_expect :: "u32 \<Rightarrow> u8 result" where
  "u8_try_into_expect n = (if n \<le> 255 then Ok (ucast n) else Panic)"

definition radix10_to_octet :: "bytes \<Rightarrow> u32" where
  "radix10_to_octet textual_octets = foldl (\<lambda>result digit. result * 10 + ucast digit) 0 textual_octets"

record ipv4_state =
  v4_is_first_byte :: bool
  v4_current_octet :: bytes
  v4_current_size :: nat
  v4_dot_count :: nat
  v4_octet :: nat
  v4_octets :: bytes

text \<open>
  The \<^verbatim>\<open>match\<close> of the loop. \<open>None\<close> is \<^verbatim>\<open>return Err(AddrParseError)\<close>; \<open>dot\<close> and \<open>ended\<close> are what
  \<^verbatim>\<open>peek(b'.')\<close> and \<^verbatim>\<open>at_end()\<close> say after the byte was read.
\<close>

definition ipv4_step :: "u8 option \<Rightarrow> bool \<Rightarrow> bool \<Rightarrow> ipv4_state \<Rightarrow> ipv4_state option result" where
  "ipv4_step byte dot ended s =
    (case byte of
       None \<Rightarrow> Ok None
     | Some b \<Rightarrow>
         if b = 0x2E then
           (if v4_is_first_byte s then Ok None
            else if ended then Ok None
            else if v4_dot_count s = 3 then Ok None
            else
              let s = s\<lparr>v4_dot_count := v4_dot_count s + 1\<rparr> in
              if v4_current_size s = 0 then Ok None
              else res_bind (array_take (v4_current_octet s) (v4_current_size s)) (\<lambda>digits.
                let current_raw_octet = radix10_to_octet digits in
                if current_raw_octet > 255 then Ok None
                else res_bind (u8_try_into_expect current_raw_octet) (\<lambda>o1.
                  res_bind (array_set (v4_octets s) (v4_octet s) o1) (\<lambda>os.
                    Ok (Some (s\<lparr>v4_octets := os, v4_octet := v4_octet s + 1, v4_current_octet := [0, 0, 0],
                                 v4_current_size := 0, v4_is_first_byte := False\<rparr>))))))
         else if 0x30 \<le> b \<and> b \<le> 0x39 then
           (if b = 0x30 \<and> v4_current_size s = 0 \<and> \<not> dot \<and> \<not> ended then Ok None
            else if v4_current_size s \<ge> length (v4_current_octet s) then Ok None
            else res_bind (array_set (v4_current_octet s) (v4_current_size s) (b - 0x30)) (\<lambda>cur.
              Ok (Some (s\<lparr>v4_current_octet := cur, v4_current_size := v4_current_size s + 1,
                           v4_is_first_byte := False\<rparr>))))
         else Ok None)"

text \<open>The last octet, when the end of the text is reached.\<close>

definition ipv4_last :: "ipv4_state \<Rightarrow> ipv4_state option result" where
  "ipv4_last s =
    res_bind (array_take (v4_current_octet s) (v4_current_size s)) (\<lambda>digits.
      let last_octet = radix10_to_octet digits in
      if v4_current_size s > 0 \<and> last_octet > 255 then Ok None
      else res_bind (u8_try_into_expect last_octet) (\<lambda>o1.
        res_bind (array_set (v4_octets s) (v4_octet s) o1) (\<lambda>os. Ok (Some (s\<lparr>v4_octets := os\<rparr>)))))"

definition ipv4_loop :: "'r untrusted \<Rightarrow> ipv4_state \<Rightarrow> ('r, ipv4_state option) parser" where
  "ipv4_loop U =
    loop U (\<lambda>s.
      and_then (try_read_byte U) (\<lambda>byte.
      and_then (peek U 0x2E) (\<lambda>dot.
      and_then (at_end U) (\<lambda>e.
      and_then (of_result (ipv4_step byte dot e s)) (\<lambda>next.
        case next of
          None \<Rightarrow> ok (Inr None)
        | Some s' \<Rightarrow>
            if e then and_then (of_result (ipv4_last s')) (\<lambda>final. ok (Inr final)) else ok (Inl s'))))))"

definition parse_ipv4_address :: "'r untrusted \<Rightarrow> bytes \<Rightarrow> IpAddrRef option result" where
  "parse_ipv4_address U ip_address =
    res_bind
      (fst (ipv4_loop U
        \<lparr>v4_is_first_byte = True, v4_current_octet = [0, 0, 0], v4_current_size = 0, v4_dot_count = 0,
         v4_octet = 0, v4_octets = [0, 0, 0, 0]\<rparr> (u_new U ip_address)))
      (\<lambda>final. Ok (case final of
         None \<Rightarrow> None
       | Some s \<Rightarrow> if v4_dot_count s \<noteq> 3 then None else Some (V4 ip_address (v4_octets s))))"

section \<open>Parsing IPv6\<close>

text \<open>\<^verbatim>\<open>char::to_digit(16)\<close> and its \<^verbatim>\<open>unwrap\<close>.\<close>

definition to_digit16_unwrap :: "u8 \<Rightarrow> u32 result" where
  "to_digit16_unwrap c =
    (if 0x30 \<le> c \<and> c \<le> 0x39 then Ok (ucast (c - 0x30))
     else if 0x61 \<le> c \<and> c \<le> 0x66 then Ok (ucast (c - 0x61 + 10))
     else if 0x41 \<le> c \<and> c \<le> 0x46 then Ok (ucast (c - 0x41 + 10))
     else Panic)"

record ipv6_state =
  v6_is_first_byte :: bool
  v6_block_size :: nat
  v6_colon_count :: nat
  v6_octet :: nat
  v6_previous_character :: "u8 option"
  v6_octets :: bytes

definition ipv6_step :: "u8 option \<Rightarrow> bool \<Rightarrow> ipv6_state \<Rightarrow> ipv6_state option result" where
  "ipv6_step byte ended s =
    (case byte of
       None \<Rightarrow> Ok None
     | Some b \<Rightarrow>
         if b = 0x3A then
           (if v6_is_first_byte s then Ok None
            else if ended then Ok None
            else if v6_colon_count s = 7 then Ok None
            else
              let s = s\<lparr>v6_colon_count := v6_colon_count s + 1\<rparr> in
              if v6_block_size s = 0 then Ok None
              else if v6_block_size s \<noteq> 4 then Ok None
              else Ok (Some (s\<lparr>v6_block_size := 0, v6_previous_character := None, v6_is_first_byte := False\<rparr>)))
         else if (0x30 \<le> b \<and> b \<le> 0x39) \<or> (0x61 \<le> b \<and> b \<le> 0x66) \<or> (0x41 \<le> b \<and> b \<le> 0x46) then
           (if v6_block_size s = 4 then Ok None
            else
              (case v6_previous_character s of
                 Some previous_character \<Rightarrow>
                   res_bind (to_digit16_unwrap previous_character) (\<lambda>hi.
                   res_bind (u8_try_into_expect hi) (\<lambda>hi8.
                   res_bind (to_digit16_unwrap b) (\<lambda>lo.
                   res_bind (u8_try_into_expect lo) (\<lambda>lo8.
                   res_bind (array_set (v6_octets s) (v6_octet s) (push_bit 4 hi8 OR lo8)) (\<lambda>os.
                     Ok (Some (s\<lparr>v6_octets := os, v6_previous_character := None, v6_octet := v6_octet s + 1,
                                  v6_block_size := v6_block_size s + 1, v6_is_first_byte := False\<rparr>)))))))
               | None \<Rightarrow>
                   Ok (Some (s\<lparr>v6_previous_character := Some b, v6_block_size := v6_block_size s + 1,
                                v6_is_first_byte := False\<rparr>))))
         else Ok None)"

definition ipv6_loop :: "'r untrusted \<Rightarrow> ipv6_state \<Rightarrow> ('r, ipv6_state option) parser" where
  "ipv6_loop U =
    loop U (\<lambda>s.
      and_then (try_read_byte U) (\<lambda>byte.
      and_then (at_end U) (\<lambda>e.
      and_then (of_result (ipv6_step byte e s)) (\<lambda>next.
        case next of
          None \<Rightarrow> ok (Inr None)
        | Some s' \<Rightarrow> ok (if e then Inr (Some s') else Inl s')))))"

definition parse_ipv6_address :: "'r untrusted \<Rightarrow> bytes \<Rightarrow> IpAddrRef option result" where
  "parse_ipv6_address U ip_address =
    (if length ip_address \<noteq> 39 then Ok None
     else res_bind
      (fst (ipv6_loop U
        \<lparr>v6_is_first_byte = True, v6_block_size = 0, v6_colon_count = 0, v6_octet = 0,
         v6_previous_character = None, v6_octets = replicate 16 0\<rparr> (u_new U ip_address)))
      (\<lambda>final. Ok (case final of
         None \<Rightarrow> None
       | Some s \<Rightarrow> if v6_colon_count s \<noteq> 7 then None else Some (V6 ip_address (v6_octets s)))))"

definition ip_addr_ref_try_from_ascii :: "'r untrusted \<Rightarrow> bytes \<Rightarrow> IpAddrRef option result" where
  "ip_addr_ref_try_from_ascii U ip_address =
    res_bind (parse_ipv4_address U ip_address) (\<lambda>v4.
      case v4 of
        Some a \<Rightarrow> Ok (Some a)
      | None \<Rightarrow> parse_ipv6_address U ip_address)"

definition ip_addr_ref_try_from_ascii_str :: "'r untrusted \<Rightarrow> bytes \<Rightarrow> IpAddrRef option result" where
  "ip_addr_ref_try_from_ascii_str U ip_address = ip_addr_ref_try_from_ascii U ip_address"

section \<open>Independence of the reader\<close>

context untrusted_reader
begin

lemma run_new: "follows p q \<Longrightarrow> fst (p (u_new U h)) = fst (q (u_new L h))"
  using follows_fst [of p q "u_new U h"] by (simp add: rest_new list_reader_def)

lemma parse_ipv4_address_indep: "parse_ipv4_address U = parse_ipv4_address L"
proof -
  have "follows (ipv4_loop U s) (ipv4_loop L s)" for s
    unfolding ipv4_loop_def by (intro sim_intros refl)
  from run_new [OF this] show ?thesis unfolding parse_ipv4_address_def by (simp add: fun_eq_iff)
qed

lemma parse_ipv6_address_indep: "parse_ipv6_address U = parse_ipv6_address L"
proof -
  have "follows (ipv6_loop U s) (ipv6_loop L s)" for s
    unfolding ipv6_loop_def by (intro sim_intros refl)
  from run_new [OF this] show ?thesis unfolding parse_ipv6_address_def by (simp add: fun_eq_iff)
qed

lemma ip_addr_ref_try_from_ascii_indep: "ip_addr_ref_try_from_ascii U = ip_addr_ref_try_from_ascii L"
  unfolding ip_addr_ref_try_from_ascii_def parse_ipv4_address_indep parse_ipv6_address_indep ..

lemma read_byte_L: "u_read_byte U s = (b, s') \<Longrightarrow> u_read_byte L (rest s) = (b, rest s')"
  using read_byte_both [of s] by (metis fst_conv prod.collapse snd_conv)

lemma ip_compare_byte_sim:
  assumes "rest s = t"
  shows "sim rest later (rel_sum (\<lambda>p q. rest p = q) (=)) (ip_compare_byte U s) (ip_compare_byte L t)"
proof -
  obtain b s' where b: "u_read_byte U s = (b, s')" by force
  then have b': "u_read_byte L t = (b, rest s')" using assms read_byte_L by blast
  show ?thesis unfolding ip_compare_byte_def b b' prod.case by (intro sim_intros) auto
qed

lemma ip_presented_id_matches_reference_id_indep:
  "ip_presented_id_matches_reference_id U = ip_presented_id_matches_reference_id L"
proof -
  have "follows (loop U (ip_compare_byte U) (u_new U bs)) (loop L (ip_compare_byte L) (u_new L bs))" for bs
    by (rule loop_sim [where S = "\<lambda>p q. rest p = q", OF ip_compare_byte_sim])
      (simp_all add: rest_new lr.rest_new)
  from run_new [OF this] show ?thesis
    unfolding ip_presented_id_matches_reference_id_def fun_eq_iff by simp
qed

lemma read_bytes_unwrap_sim [sim_intros]: "follows (read_bytes_unwrap U n) (read_bytes_unwrap L n)"
proof (rule simI)
  fix r
  obtain x r' where u: "u_read_bytes U n r = (x, r')" by force
  then show "rel_result (=) (fst (read_bytes_unwrap U n r)) (fst (read_bytes_unwrap L n (rest r)))"
    and "rest (snd (read_bytes_unwrap U n r)) = snd (read_bytes_unwrap L n (rest r))"
    and "later r (snd (read_bytes_unwrap U n r))"
    using read_bytes_fst [of n r] read_bytes_snd [of n r] read_bytes_later [of r n]
    by (auto simp: read_bytes_unwrap_def list_reader_def result.rel_eq split: option.splits if_splits)
qed

lemma constraint_octet_sim:
  assumes "rel_prod (\<lambda>p q. rest p = q) (rel_prod (\<lambda>p q. rest p = q) (=)) s t"
  shows "sim rest later (rel_sum (rel_prod (\<lambda>p q. rest p = q) (rel_prod (\<lambda>p q. rest p = q) (=))) (=))
    (constraint_octet U s) (constraint_octet L t)"
proof -
  obtain a m z where s: "s = (a, m, z)" by (cases s)
  with assms have t: "t = (rest a, rest m, z)" by (cases t) auto
  obtain x a' where x: "u_read_byte U a = (x, a')" by force
  obtain y m' where y: "u_read_byte U m = (y, m')" by force
  note L = read_byte_L [OF x] read_byte_L [OF y]
  show ?thesis
    unfolding constraint_octet_def s t prod.case x y L Let_def by (intro sim_intros) auto
qed

lemma ip_presented_id_matches_constraint_indep:
  "ip_presented_id_matches_constraint U = ip_presented_id_matches_constraint L"
proof -
  have "follows (loop U (constraint_octet U) (u_new U a, u_new U m, z)) (loop L (constraint_octet L) (u_new L a, u_new L m, z))" for a m z
    by (rule loop_sim [where S = "rel_prod (\<lambda>p q. rest p = q) (rel_prod (\<lambda>p q. rest p = q) (=))", OF constraint_octet_sim])
      (simp_all add: rest_new lr.rest_new)
  note run = run_new [OF this]
  have split: "read_all U e (and_then (read_bytes_unwrap U n) (\<lambda>address. and_then (read_bytes_unwrap U n) (\<lambda>mask. ok (address, mask)))) c =
    read_all L e (and_then (read_bytes_unwrap L n) (\<lambda>address. and_then (read_bytes_unwrap L n) (\<lambda>mask. ok (address, mask)))) c" for e n c
    by (intro sim_intros refl)
  show ?thesis
    unfolding ip_presented_id_matches_constraint_def fun_eq_iff split run by simp
qed

end

end
