(* ===== verification/Ip_Text.thy ===== *)
theory Ip_Text
  imports Ip_Address Dns_Match
begin

text \<open>
  What the functions of \<^verbatim>\<open>src/subject_name/ip_address.rs\<close> decide about text: what they accept are the printed forms of
  addresses. The loops are followed by invariants that relate
  their variables to the text read so far; they also show that no index, \<^verbatim>\<open>unwrap\<close> or \<^verbatim>\<open>expect\<close> panics.
\<close>

unbundle bit_operations_syntax

section \<open>IPv4 text\<close>

lemma ipv4_loop_Cons:
  "ipv4_loop L s (b # r) =
    (case ipv4_step (Some b) (r \<noteq> [] \<and> hd r = dot) (r = []) s of
       Ok None \<Rightarrow> (Ok None, r)
     | Ok (Some s') \<Rightarrow> if r = [] then (ipv4_last s', []) else ipv4_loop L s' r
     | Err e \<Rightarrow> (Err e, r)
     | Panic \<Rightarrow> (Panic, r)
     | Diverge \<Rightarrow> (Diverge, r))"
  (is "_ = ?r")
proof -
  define body where "body = (\<lambda>s. and_then (try_read_byte L) (\<lambda>byte.
      and_then (peek L 0x2E) (\<lambda>dot.
      and_then (at_end L) (\<lambda>e.
      and_then (of_result (ipv4_step byte dot e s)) (\<lambda>next.
        case next of
          None \<Rightarrow> ok (Inr None)
        | Some s' \<Rightarrow>
            if e then and_then (of_result (ipv4_last s')) (\<lambda>final. ok (Inr final)) else ok (Inl s'))))))"
  have body: "body s (b # r) =
    (case ipv4_step (Some b) (r \<noteq> [] \<and> hd r = dot) (r = []) s of
       Ok None \<Rightarrow> (Ok (Inr None), r)
     | Ok (Some s') \<Rightarrow>
         if r = [] then (case ipv4_last s' of Ok x \<Rightarrow> Ok (Inr x) | Err e \<Rightarrow> Err e | Panic \<Rightarrow> Panic | Diverge \<Rightarrow> Diverge, r)
         else (Ok (Inl s'), r)
     | Err e \<Rightarrow> (Err e, r)
     | Panic \<Rightarrow> (Panic, r)
     | Diverge \<Rightarrow> (Diverge, r))" for s b r
    unfolding body_def by (cases r) (simp_all add: run_simps split: result.split option.split)
  have nil: "body s [] = (Ok (Inr None), [])" for s
    by (simp add: body_def run_simps ipv4_step_def)
  have prog: "progress body"
  proof (rule progressI)
    fix s r s' r'
    assume *: "body s r = (Ok (Inl s'), r')"
    show "length r' < length r"
    proof (cases r)
      case Nil
      with * nil show ?thesis by simp
    next
      case (Cons b t)
      with * body [of s b t] have "r' = t" by (auto split: result.splits option.splits if_splits)
      with Cons show ?thesis by simp
    qed
  qed
  have loop: "ipv4_loop L = loop L body" by (simp add: ipv4_loop_def body_def)
  show ?thesis
    unfolding loop
    by (subst loop_unfold [OF prog]) (simp add: and_then_run [of "body s"] body ok_run split: result.split option.split)
qed


lemma ipv4_loop_Nil: "ipv4_loop L s [] = (Ok None, [])"
  by (simp add: ipv4_loop_def loop_list run_simps ipv4_step_def)

lemma digit_char:
  assumes "d < 10"
  shows "(0x30 :: u8) + of_nat d \<noteq> dot" "(0x30 :: u8) \<le> 0x30 + of_nat d" "(0x30 :: u8) + of_nat d \<le> 0x39"
    "(0x30 :: u8) + of_nat d = 0x30 \<longleftrightarrow> d = 0"
proof -
  have "unat (0x30 + of_nat d :: u8) = 0x30 + d"
    using assms by (simp add: unat_word_ariths unat_of_nat)
  then show "(0x30 :: u8) + of_nat d \<noteq> dot" "(0x30 :: u8) \<le> 0x30 + of_nat d" "(0x30 :: u8) + of_nat d \<le> 0x39"
    "(0x30 :: u8) + of_nat d = 0x30 \<longleftrightarrow> d = 0"
    using assms by (auto simp: word_le_nat_alt u8_eq_iff_unat)
qed

text \<open>The value of up to three decimal digits.\<close>

lemma radix10_value:
  assumes "length ds \<le> 3" "list_all (\<lambda>d. d < 10) ds"
  shows "radix10_to_octet (map of_nat ds) = of_nat (foldl (\<lambda>n d. 10 * n + d) 0 ds)"
    and "foldl (\<lambda>n d. 10 * n + d) 0 ds < 1000"
proof -
  have "ds = [] \<or> (\<exists>a. ds = [a]) \<or> (\<exists>a b. ds = [a, b]) \<or> (\<exists>a b c. ds = [a, b, c])"
    using assms(1) by (cases ds; cases "tl ds"; cases "tl (tl ds)"; auto)
  then show "radix10_to_octet (map of_nat ds) = of_nat (foldl (\<lambda>n d. 10 * n + d) 0 ds)"
    and "foldl (\<lambda>n d. 10 * n + d) 0 ds < 1000"
    using assms(2) by (auto simp: radix10_to_octet_def unsigned_of_nat take_bit_nat_eq_self)
qed

text \<open>A decimal octet: canonical digits of a number up to 255.\<close>

definition dec_digits :: "nat \<Rightarrow> nat list" where
  "dec_digits n = (if n \<ge> 100 then [n div 100] else []) @ (if n \<ge> 10 then [n div 10 mod 10] else []) @ [n mod 10]"

lemma dec_octet_digits: "dec_octet b = map (\<lambda>d. 0x30 + of_nat d) (dec_digits (unat b))"
  by (simp add: dec_octet_def dec_digits_def Let_def)

lemma dec_digits_iff:
  assumes "n < 1000"
  shows "ds = dec_digits n \<longleftrightarrow>
    ds \<noteq> [] \<and> length ds \<le> 3 \<and> list_all (\<lambda>d. d < 10) ds \<and> (hd ds = 0 \<longrightarrow> length ds = 1) \<and>
    foldl (\<lambda>n d. 10 * n + d) 0 ds = n"
proof
  have "n div 100 = n div 10 div 10" using div_mult2_eq [of n 10 10] by simp
  then have three: "100 * (n div 100) + 10 * (n div 10 mod 10) + n mod 10 = n"
    using mult_div_mod_eq [of 10 n] mult_div_mod_eq [of 10 "n div 10"] by linarith
  assume "ds = dec_digits n"
  then show "ds \<noteq> [] \<and> length ds \<le> 3 \<and> list_all (\<lambda>d. d < 10) ds \<and> (hd ds = 0 \<longrightarrow> length ds = 1) \<and>
    foldl (\<lambda>n d. 10 * n + d) 0 ds = n"
    using assms three by (auto simp: dec_digits_def)
next
  assume *: "ds \<noteq> [] \<and> length ds \<le> 3 \<and> list_all (\<lambda>d. d < 10) ds \<and> (hd ds = 0 \<longrightarrow> length ds = 1) \<and>
    foldl (\<lambda>n d. 10 * n + d) 0 ds = n"
  then have "(\<exists>a. ds = [a]) \<or> (\<exists>a b. ds = [a, b]) \<or> (\<exists>a b c. ds = [a, b, c])"
    by (cases ds; cases "tl ds"; cases "tl (tl ds)"; auto)
  moreover have "(100 * a + 10 * b + c) div 10 mod 10 = b \<and> (100 * a + 10 * b + c) mod 10 = c"
    if "b < 10" "c < 10" for a b c :: nat
  proof -
    have "100 * a + 10 * b + c = c + 10 * (b + 10 * a)" by simp
    with that show ?thesis by (simp only: div_mult_self2 mod_mult_self2 div_less mod_less) simp
  qed
  ultimately show "ds = dec_digits n" using * by (auto simp: dec_digits_def)
qed

text \<open>
  What the text read so far says about the variables: the finished octets are printed in front of the
  digits \<open>ds\<close> of the current one.
\<close>

definition ipv4_inv :: "bytes \<Rightarrow> ipv4_state \<Rightarrow> bytes \<Rightarrow> nat list \<Rightarrow> bool" where
  "ipv4_inv text s r ds \<longleftrightarrow>
    v4_octet s = v4_dot_count s \<and> v4_dot_count s \<le> 3 \<and> length (v4_octets s) = 4 \<and>
    length (v4_current_octet s) = 3 \<and> length ds = v4_current_size s \<and> length ds \<le> 3 \<and>
    take (length ds) (v4_current_octet s) = map of_nat ds \<and> list_all (\<lambda>d. d < 10) ds \<and>
    (ds \<noteq> [] \<and> hd ds = 0 \<longrightarrow> length ds = 1 \<and> (r = [] \<or> hd r = dot)) \<and>
    text = concat (map (\<lambda>b. dec_octet b @ [dot]) (take (v4_octet s) (v4_octets s))) @
      map (\<lambda>d. 0x30 + of_nat d) ds @ r"

lemma ipv4_octet_value:
  assumes "ipv4_inv text s r ds" "ds \<noteq> []" "radix10_to_octet (map of_nat ds) \<le> 255"
  shows "u8_try_into_expect (radix10_to_octet (map of_nat ds)) = Ok (of_nat (foldl (\<lambda>n d. 10 * n + d) 0 ds))"
    and "dec_octet (of_nat (foldl (\<lambda>n d. 10 * n + d) 0 ds)) = map (\<lambda>d. 0x30 + of_nat d) ds"
proof -
  let ?n = "foldl (\<lambda>n d. 10 * n + d) 0 ds"
  from assms(1) have *: "length ds \<le> 3" "list_all (\<lambda>d. d < 10) ds" "ds \<noteq> [] \<and> hd ds = 0 \<longrightarrow> length ds = 1"
    by (auto simp: ipv4_inv_def)
  note val = radix10_value [OF *(1,2)]
  from assms(3) val have n: "?n \<le> 255"
    by (simp add: word_le_nat_alt unat_of_nat)
  then show "u8_try_into_expect (radix10_to_octet (map of_nat ds)) = Ok (of_nat ?n)"
    using val assms(3) by (simp add: u8_try_into_expect_def unsigned_of_nat take_bit_nat_eq_self)
  from dec_digits_iff [OF val(2), of ds] * assms(2) have "ds = dec_digits ?n" by auto
  with n show "dec_octet (of_nat ?n) = map (\<lambda>d. 0x30 + of_nat d) ds"
    by (simp add: dec_octet_digits)
qed

lemma ipv4_step_inv:
  assumes inv: "ipv4_inv text s (b # r) ds"
  shows "\<exists>x. ipv4_step (Some b) (r \<noteq> [] \<and> hd r = dot) (r = []) s = Ok x \<and>
    (case x of None \<Rightarrow> True | Some s' \<Rightarrow> \<exists>ds'. ipv4_inv text s' r ds' \<and> (r = [] \<longrightarrow> ds' \<noteq> []))"
proof (cases "b = dot")
  case True
  from inv have digits: "take (v4_current_size s) (v4_current_octet s) = map of_nat ds"
    by (auto simp: ipv4_inv_def)
  show ?thesis
  proof (cases "v4_is_first_byte s \<or> r = [] \<or> v4_dot_count s = 3 \<or> v4_current_size s = 0 \<or>
      radix10_to_octet (map of_nat ds) > 255")
    case True
    with inv \<open>b = dot\<close> show ?thesis
      by (auto simp: ipv4_step_def ipv4_inv_def array_take_def digits Let_def)
  next
    case False
    with inv have ds: "ds \<noteq> []" and le: "radix10_to_octet (map of_nat ds) \<le> 255" and k: "v4_dot_count s < 3"
      by (auto simp: ipv4_inv_def)
    note octet = ipv4_octet_value [OF inv ds le]
    let ?o = "of_nat (foldl (\<lambda>n d. 10 * n + d) 0 ds) :: u8"
    let ?s = "s\<lparr>v4_dot_count := v4_dot_count s + 1, v4_octets := (v4_octets s)[v4_octet s := ?o],
      v4_octet := v4_octet s + 1, v4_current_octet := [0, 0, 0], v4_current_size := 0, v4_is_first_byte := False\<rparr>"
    have "ipv4_step (Some b) (r \<noteq> [] \<and> hd r = dot) (r = []) s = Ok (Some ?s)"
      using False inv \<open>b = dot\<close> k octet(1) le
      by (simp add: ipv4_step_def ipv4_inv_def array_take_def array_set_def digits Let_def not_less)
    moreover have "ipv4_inv text ?s r []"
      using inv k \<open>b = dot\<close> octet(2) by (simp add: ipv4_inv_def take_Suc_conv_app_nth)
    ultimately show ?thesis using False by auto
  qed
next
  case not_dot: False
  show ?thesis
  proof (cases "0x30 \<le> b \<and> b \<le> 0x39 \<and> \<not> (b = 0x30 \<and> v4_current_size s = 0 \<and> \<not> (r \<noteq> [] \<and> hd r = dot) \<and> r \<noteq> []) \<and>
      v4_current_size s < 3")
    case False
    with inv not_dot show ?thesis by (auto simp: ipv4_step_def ipv4_inv_def)
  next
    case True
    then obtain d where d: "d < 10" "b = 0x30 + of_nat d" using digit_byte [of b] by auto
    let ?s = "s\<lparr>v4_current_octet := (v4_current_octet s)[v4_current_size s := of_nat d],
      v4_current_size := v4_current_size s + 1, v4_is_first_byte := False\<rparr>"
    have "ipv4_step (Some b) (r \<noteq> [] \<and> hd r = dot) (r = []) s = Ok (Some ?s)"
      using True inv not_dot d(2) by (auto simp: ipv4_step_def ipv4_inv_def array_set_def)
    moreover have "ipv4_inv text ?s r (ds @ [d])"
      using inv True d digit_char [OF d(1)]
      by (auto simp: ipv4_inv_def take_Suc_conv_app_nth hd_append split: if_splits)
    ultimately show ?thesis by auto
  qed
qed

lemma ipv4_last_inv:
  assumes inv: "ipv4_inv text s [] ds" and ds: "ds \<noteq> []"
  shows "\<exists>x. ipv4_last s = Ok x \<and>
    (case x of None \<Rightarrow> True | Some s' \<Rightarrow> v4_dot_count s' = 3 \<longrightarrow>
       length (v4_octets s') = 4 \<and> text = ipv4_to_string (v4_octets s'))"
proof (cases "radix10_to_octet (map of_nat ds) > 255")
  case True
  from inv have digits: "take (v4_current_size s) (v4_current_octet s) = map of_nat ds"
    by (auto simp: ipv4_inv_def)
  from True inv ds show ?thesis by (auto simp: ipv4_last_def ipv4_inv_def array_take_def digits Let_def)
next
  case False
  from inv have digits: "take (v4_current_size s) (v4_current_octet s) = map of_nat ds"
    by (auto simp: ipv4_inv_def)
  from False have le: "radix10_to_octet (map of_nat ds) \<le> 255" by simp
  note octet = ipv4_octet_value [OF inv ds le]
  let ?o = "of_nat (foldl (\<lambda>n d. 10 * n + d) 0 ds) :: u8"
  have "ipv4_last s = Ok (Some (s\<lparr>v4_octets := (v4_octets s)[v4_octet s := ?o]\<rparr>))"
    using inv le octet(1) by (simp add: ipv4_last_def ipv4_inv_def array_take_def array_set_def digits Let_def not_less)
  moreover have "text = ipv4_to_string ((v4_octets s)[v4_octet s := ?o])" if three: "v4_dot_count s = 3"
  proof -
    from inv three have "length (v4_octets s) = 4" "v4_octet s = 3" by (auto simp: ipv4_inv_def)
    then obtain a b c d where "v4_octets s = [a, b, c, d]" by (auto simp: numeral_eq_Suc length_Suc_conv)
    with inv \<open>v4_octet s = 3\<close> octet(2) show ?thesis by (simp add: ipv4_inv_def ipv4_to_string_def)
  qed
  moreover from inv have "length (v4_octets s) = 4" by (simp add: ipv4_inv_def)
  ultimately show ?thesis by simp
qed

lemma ipv4_loop_inv:
  assumes "ipv4_inv text s r ds" "r \<noteq> []"
  shows "\<exists>x. fst (ipv4_loop L s r) = Ok x \<and>
    (case x of None \<Rightarrow> True | Some s' \<Rightarrow> v4_dot_count s' = 3 \<longrightarrow>
       length (v4_octets s') = 4 \<and> text = ipv4_to_string (v4_octets s'))"
  using assms
proof (induction r arbitrary: s ds)
  case (Cons b r)
  from ipv4_step_inv [OF Cons.prems(1)] obtain x
    where x: "ipv4_step (Some b) (r \<noteq> [] \<and> hd r = dot) (r = []) s = Ok x"
    and inv: "case x of None \<Rightarrow> True | Some s' \<Rightarrow> \<exists>ds'. ipv4_inv text s' r ds' \<and> (r = [] \<longrightarrow> ds' \<noteq> [])" by blast
  show ?case
  proof (cases x)
    case (Some s')
    with inv obtain ds' where ds': "ipv4_inv text s' r ds'" "r = [] \<longrightarrow> ds' \<noteq> []" by auto
    show ?thesis
    proof (cases "r = []")
      case True
      with x Some ds' ipv4_last_inv [of "text" s' ds'] show ?thesis by (simp add: ipv4_loop_Cons)
    next
      case False
      with x Some ds' Cons.IH [of s' ds'] show ?thesis by (simp add: ipv4_loop_Cons)
    qed
  qed (use x in \<open>simp add: ipv4_loop_Cons\<close>)
qed simp

abbreviation "ipv4_start \<equiv> \<lparr>v4_is_first_byte = True, v4_current_octet = [0, 0, 0], v4_current_size = 0,
  v4_dot_count = 0, v4_octet = 0, v4_octets = [0, 0, 0, 0]\<rparr>"

lemma ipv4_start_inv: "ipv4_inv text ipv4_start text []"
  by (simp add: ipv4_inv_def)

lemma parse_ipv4_sound:
  "\<exists>x. parse_ipv4_address L text = Ok x \<and>
    (\<forall>a. x = Some a \<longrightarrow> (\<exists>os. a = V4 text os \<and> length os = 4 \<and> text = ipv4_to_string os))"
proof (cases "text = []")
  case True
  then show ?thesis by (simp add: parse_ipv4_address_def ipv4_loop_Nil run_simps)
next
  case False
  from ipv4_loop_inv [OF ipv4_start_inv this] obtain x where x: "fst (ipv4_loop L ipv4_start text) = Ok x"
    and ok: "case x of None \<Rightarrow> True | Some s' \<Rightarrow> v4_dot_count s' = 3 \<longrightarrow>
       length (v4_octets s') = 4 \<and> text = ipv4_to_string (v4_octets s')" by blast
  then show ?thesis by (cases x) (simp_all add: parse_ipv4_address_def run_simps)
qed

text \<open>Reading back a printed octet.\<close>

lemma ipv4_digit_step:
  assumes "d < 10" "v4_current_size s < 3" "length (v4_current_octet s) = 3"
    and "d = 0 \<Longrightarrow> v4_current_size s = 0 \<Longrightarrow> dotted \<or> ended"
  shows "ipv4_step (Some (0x30 + of_nat d)) dotted ended s =
    Ok (Some (s\<lparr>v4_current_octet := (v4_current_octet s)[v4_current_size s := of_nat d],
      v4_current_size := v4_current_size s + 1, v4_is_first_byte := False\<rparr>))"
  using assms digit_char [OF assms(1)] by (auto simp: ipv4_step_def array_set_def)

lemma ipv4_digits_run:
  assumes "length ds \<le> 3 - v4_current_size s" "list_all (\<lambda>d. d < 10) ds" "length (v4_current_octet s) = 3"
    and "v4_current_size s = 0 \<Longrightarrow> ds \<noteq> [] \<Longrightarrow> hd ds = 0 \<Longrightarrow> length ds = 1 \<and> hd r = dot" and "r \<noteq> []"
  shows "\<exists>s'. ipv4_loop L s (map (\<lambda>d. 0x30 + of_nat d) ds @ r) = ipv4_loop L s' r \<and>
    length (v4_current_octet s') = 3 \<and> v4_current_size s' = v4_current_size s + length ds \<and>
    take (v4_current_size s') (v4_current_octet s') =
      take (v4_current_size s) (v4_current_octet s) @ map of_nat ds \<and>
    v4_dot_count s' = v4_dot_count s \<and> v4_octet s' = v4_octet s \<and> v4_octets s' = v4_octets s \<and>
    (v4_is_first_byte s' \<longrightarrow> ds = [] \<and> v4_is_first_byte s)"
  using assms
proof (induction ds arbitrary: s)
  case Nil
  then show ?case by (intro exI [of _ s]) simp
next
  case (Cons d ds)
  let ?s = "s\<lparr>v4_current_octet := (v4_current_octet s)[v4_current_size s := of_nat d],
      v4_current_size := v4_current_size s + 1, v4_is_first_byte := False\<rparr>"
  let ?t = "map (\<lambda>d. 0x30 + of_nat d) ds @ r"
  have size: "v4_current_size s < 3" using Cons.prems(1) by auto
  have "ipv4_step (Some (0x30 + of_nat d)) (?t \<noteq> [] \<and> hd ?t = dot) (?t = []) s = Ok (Some ?s)"
    using Cons.prems size by (intro ipv4_digit_step) auto
  then have "ipv4_loop L s (map (\<lambda>d. 0x30 + of_nat d) (d # ds) @ r) = ipv4_loop L ?s ?t"
    using Cons.prems(5) by (simp add: ipv4_loop_Cons)
  moreover have "take (Suc (v4_current_size s)) ((v4_current_octet s)[v4_current_size s := of_nat d]) =
      take (v4_current_size s) (v4_current_octet s) @ [of_nat d]"
    using size Cons.prems(3) by (simp add: take_Suc_conv_app_nth)
  moreover have "length ds \<le> 3 - v4_current_size ?s" "list_all (\<lambda>d. d < 10) ds" "length (v4_current_octet ?s) = 3"
    using Cons.prems by auto
  ultimately show ?case using Cons.IH [of ?s] Cons.prems(5) by (auto split: if_splits)
qed

lemma dec_digits_facts:
  fixes b :: u8
  defines "ds \<equiv> dec_digits (unat b)"
  shows "ds \<noteq> []" "length ds \<le> 3" "list_all (\<lambda>d. d < 10) ds" "hd ds = 0 \<Longrightarrow> length ds = 1"
    "radix10_to_octet (map of_nat ds) \<le> 255" "u8_try_into_expect (radix10_to_octet (map of_nat ds)) = Ok b"
proof -
  have n: "unat b < 1000" using u8_unat_lt [of b] by linarith
  from dec_digits_iff [OF n, of ds] ds_def
  have *: "ds \<noteq> []" "length ds \<le> 3" "list_all (\<lambda>d. d < 10) ds" "hd ds = 0 \<longrightarrow> length ds = 1"
    "foldl (\<lambda>n d. 10 * n + d) 0 ds = unat b" by auto
  then show "ds \<noteq> []" "length ds \<le> 3" "list_all (\<lambda>d. d < 10) ds" "hd ds = 0 \<Longrightarrow> length ds = 1" by auto
  define m where "m = unat b"
  then have m: "m = unat b" "m \<le> 255" "b = of_nat m" using u8_unat_le [of b] by simp_all
  from radix10_value(1) [OF *(2,3)] *(5) have "radix10_to_octet (map of_nat ds) = of_nat m" by (simp add: m(1))
  then show "radix10_to_octet (map of_nat ds) \<le> 255" "u8_try_into_expect (radix10_to_octet (map of_nat ds)) = Ok b"
    using m(2) unfolding m(3)
    by (auto simp: u8_try_into_expect_def word_le_nat_alt unat_of_nat unsigned_of_nat take_bit_nat_eq_self)
qed

definition ipv4_at_octet :: "ipv4_state \<Rightarrow> nat \<Rightarrow> bytes \<Rightarrow> bool" where
  "ipv4_at_octet s k os \<longleftrightarrow> v4_current_size s = 0 \<and> length (v4_current_octet s) = 3 \<and> v4_dot_count s = k \<and>
    v4_octet s = k \<and> v4_octets s = os \<and> length os = 4"

lemma ipv4_octet_dot:
  assumes s: "ipv4_at_octet s k os" and "k < 3" "r \<noteq> []"
  shows "\<exists>s'. ipv4_loop L s (dec_octet b @ dot # r) = ipv4_loop L s' r \<and> ipv4_at_octet s' (k + 1) (os[k := b])"
proof -
  note ds = dec_digits_facts [of b]
  let ?ds = "dec_digits (unat b)"
  have *: "v4_current_size s = 0" "length (v4_current_octet s) = 3" using s by (auto simp: ipv4_at_octet_def)
  obtain s1 where s1: "ipv4_loop L s (dec_octet b @ dot # r) = ipv4_loop L s1 (dot # r)"
    "length (v4_current_octet s1) = 3" "v4_current_size s1 = length ?ds"
    "take (v4_current_size s1) (v4_current_octet s1) = map of_nat ?ds"
    "v4_dot_count s1 = k" "v4_octet s1 = k" "v4_octets s1 = os" "\<not> v4_is_first_byte s1"
    using ipv4_digits_run [of ?ds s "dot # r"] ds(1-4) * s unfolding dec_octet_digits ipv4_at_octet_def by force
  have "ipv4_step (Some dot) (r \<noteq> [] \<and> hd r = dot) (r = []) s1 =
      Ok (Some (s1\<lparr>v4_dot_count := k + 1, v4_octets := os[k := b], v4_octet := k + 1,
        v4_current_octet := [0, 0, 0], v4_current_size := 0, v4_is_first_byte := False\<rparr>))"
    using s1 assms ds
    by (simp add: ipv4_step_def array_take_def array_set_def ipv4_at_octet_def Let_def not_less)
  with s1(1) assms show ?thesis by (auto simp: ipv4_loop_Cons ipv4_at_octet_def)
qed

lemma ipv4_octet_end:
  assumes s: "ipv4_at_octet s 3 os"
  shows "\<exists>s'. ipv4_loop L s (dec_octet b) = (Ok (Some s'), []) \<and> v4_dot_count s' = 3 \<and> v4_octets s' = os[3 := b]"
proof -
  obtain ds d where split: "dec_digits (unat b) = ds @ [d]"
    using dec_digits_facts(1) [of b] by (cases "dec_digits (unat b)" rule: rev_cases) auto
  note dec = dec_digits_facts [of b, unfolded split]
  let ?c = "0x30 + of_nat d :: u8"
  have printed: "dec_octet b = map (\<lambda>d. 0x30 + of_nat d) ds @ [?c]" by (simp add: dec_octet_digits split)
  have digits: "list_all (\<lambda>d. d < 10) ds" "d < 10" "length ds < 3" using dec(2,3) by auto
  have lead: "ds \<noteq> [] \<Longrightarrow> hd ds \<noteq> 0" using dec(4) by (cases ds) auto
  have *: "v4_current_size s = 0" "length (v4_current_octet s) = 3" using s by (auto simp: ipv4_at_octet_def)
  obtain s1 where s1: "ipv4_loop L s (dec_octet b) = ipv4_loop L s1 [?c]"
    "length (v4_current_octet s1) = 3" "v4_current_size s1 = length ds"
    "take (v4_current_size s1) (v4_current_octet s1) = map of_nat ds"
    "v4_dot_count s1 = 3" "v4_octet s1 = 3" "v4_octets s1 = os"
    using ipv4_digits_run [of ds s "[?c]"] digits * lead s unfolding printed ipv4_at_octet_def by auto
  let ?s = "s1\<lparr>v4_current_octet := (v4_current_octet s1)[v4_current_size s1 := of_nat d],
      v4_current_size := v4_current_size s1 + 1, v4_is_first_byte := False\<rparr>"
  have "ipv4_step (Some ?c) False True s1 = Ok (Some ?s)"
    using s1(2,3) digits by (intro ipv4_digit_step) auto
  moreover have "take (Suc (v4_current_size s1)) ((v4_current_octet s1)[v4_current_size s1 := of_nat d]) =
      map of_nat (ds @ [d])"
    using digits s1(2-4) by (simp add: take_Suc_conv_app_nth)
  then have "ipv4_last ?s = Ok (Some (?s\<lparr>v4_octets := os[3 := b]\<rparr>))"
    using s1 digits dec(5,6) s
    by (simp add: ipv4_last_def array_take_def array_set_def ipv4_at_octet_def Let_def not_less)
  ultimately show ?thesis using s1(1,5) by (simp add: ipv4_loop_Cons)
qed

lemma parse_ipv4_complete:
  assumes "length os = 4"
  shows "parse_ipv4_address L (ipv4_to_string os) = Ok (Some (V4 (ipv4_to_string os) os))"
proof -
  from assms obtain a b c d where os: "os = [a, b, c, d]" by (auto simp: numeral_eq_Suc length_Suc_conv)
  have start: "ipv4_at_octet ipv4_start 0 [0, 0, 0, 0]" by (simp add: ipv4_at_octet_def)
  from ipv4_octet_dot [OF start, of "dec_octet b @ dot # dec_octet c @ dot # dec_octet d" a]
  obtain s1 where s1: "ipv4_loop L ipv4_start (ipv4_to_string os) = ipv4_loop L s1 (dec_octet b @ dot # dec_octet c @ dot # dec_octet d)"
    "ipv4_at_octet s1 1 [a, 0, 0, 0]" by (auto simp: ipv4_to_string_def os)
  from ipv4_octet_dot [OF s1(2), of "dec_octet c @ dot # dec_octet d" b]
  obtain s2 where s2: "ipv4_loop L s1 (dec_octet b @ dot # dec_octet c @ dot # dec_octet d) = ipv4_loop L s2 (dec_octet c @ dot # dec_octet d)"
    "ipv4_at_octet s2 2 [a, b, 0, 0]" by (auto simp: numeral_2_eq_2)
  from ipv4_octet_dot [OF s2(2), of "dec_octet d" c] dec_digits_facts(1) [of d]
  obtain s3 where s3: "ipv4_loop L s2 (dec_octet c @ dot # dec_octet d) = ipv4_loop L s3 (dec_octet d)"
    "ipv4_at_octet s3 3 [a, b, c, 0]" by (auto simp: dec_octet_digits numeral_eq_Suc)
  from ipv4_octet_end [OF s3(2), of d] s1(1) s2(1) s3(1) show ?thesis
    by (auto simp: parse_ipv4_address_def run_simps os numeral_eq_Suc)
qed

section \<open>IPv6 text\<close>

abbreviation colon :: u8 where "colon \<equiv> 0x3A"

definition is_hex :: "u8 \<Rightarrow> bool" where
  "is_hex b \<longleftrightarrow> (0x30 \<le> b \<and> b \<le> 0x39) \<or> (0x61 \<le> b \<and> b \<le> 0x66) \<or> (0x41 \<le> b \<and> b \<le> 0x46)"

lemma ucast_u8_u32: "n < 256 \<Longrightarrow> ucast (of_nat n :: u8) = (of_nat n :: u32)"
  by (simp add: unsigned_of_nat take_bit_nat_eq_self)

lemma hex_value:
  assumes "is_hex b"
  obtains d where "d < 16" "to_digit16_unwrap b = Ok (of_nat d)" "ascii_lower b = hex_char d"
proof -
  consider "0x30 \<le> b" "b \<le> 0x39" | "0x61 \<le> b" "b \<le> 0x66" | "0x41 \<le> b" "b \<le> 0x46"
    using assms by (auto simp: is_hex_def)
  then show thesis
  proof cases
    case 1
    define d where "d = unat b - 0x30"
    with 1 have d: "d < 10" "b = of_nat (0x30 + d)"
      by (auto simp: word_le_nat_alt u8_eq_iff_unat)
    have "ucast (b - 0x30 :: u8) = (of_nat d :: u32)" using d
      by (simp add: unsigned_of_nat take_bit_nat_eq_self)
    with 1 d show ?thesis
      by (intro that [of d]) (auto simp: to_digit16_unwrap_def ascii_lower_def hex_char_def word_le_nat_alt)
  next
    case 2
    define d where "d = unat b - 0x61"
    with 2 have d: "d < 6" "b = of_nat (0x61 + d)"
      by (auto simp: word_le_nat_alt u8_eq_iff_unat)
    have "b - 0x61 + 10 = of_nat (d + 10)" using d by simp
    then have "ucast (b - 0x61 + 10 :: u8) = (of_nat (d + 10) :: u32)"
      using d(1) by (simp only: ucast_u8_u32)
    with 2 d show ?thesis
      by (intro that [of "d + 10"]) (auto simp: to_digit16_unwrap_def ascii_lower_def hex_char_def word_le_nat_alt)
  next
    case 3
    define d where "d = unat b - 0x41"
    with 3 have d: "d < 6" "b = of_nat (0x41 + d)"
      by (auto simp: word_le_nat_alt u8_eq_iff_unat)
    have "b - 0x41 + 10 = of_nat (d + 10)" using d by simp
    then have "ucast (b - 0x41 + 10 :: u8) = (of_nat (d + 10) :: u32)"
      using d(1) by (simp only: ucast_u8_u32)
    with 3 d show ?thesis
      by (intro that [of "d + 10"]) (auto simp: to_digit16_unwrap_def ascii_lower_def hex_char_def word_le_nat_alt)
  qed
qed

lemma hex_octet:
  assumes "h < 16" "l < 16"
  shows "hex2 (push_bit 4 (of_nat h) OR of_nat l :: u8) = [hex_char h, hex_char l]"
    "u8_try_into_expect (of_nat h) = Ok (of_nat h)"
proof -
  have "push_bit 4 (of_nat h) OR of_nat l = (of_nat (push_bit 4 h OR l) :: u8)"
    by (simp add: push_bit_of_nat of_nat_or_eq)
  also have "push_bit 4 h OR l = 16 * h + l" using nat_or_disjoint [of l 4 h] assms by simp
  finally have "unat (push_bit 4 (of_nat h) OR of_nat l :: u8) = 16 * h + l"
    using u8_of_nat_unat [of "16 * h + l"] assms by (simp only:)
  then show "hex2 (push_bit 4 (of_nat h) OR of_nat l :: u8) = [hex_char h, hex_char l]"
    using assms by (simp add: hex2_def)
  show "u8_try_into_expect (of_nat h) = Ok (of_nat h)"
    using assms by (auto simp: u8_try_into_expect_def word_le_nat_alt unat_of_nat unsigned_of_nat take_bit_nat_eq_self)
qed

definition ipv6_prefix :: "nat \<Rightarrow> nat \<Rightarrow> u8 option \<Rightarrow> bytes \<Rightarrow> bytes" where
  "ipv6_prefix c k prev os =
    concat (map (\<lambda>i. hex2 (os ! (i * 2)) @ hex2 (os ! (i * 2 + 1)) @ [colon]) [0..<c]) @
    concat (map (\<lambda>j. hex2 (os ! j)) [2 * c..<k]) @
    (case prev of None \<Rightarrow> [] | Some b \<Rightarrow> [ascii_lower b])"

definition ipv6_inv :: "bytes \<Rightarrow> ipv6_state \<Rightarrow> bytes \<Rightarrow> bool" where
  "ipv6_inv text s r \<longleftrightarrow>
    v6_colon_count s \<le> 7 \<and> v6_block_size s \<le> 4 \<and> length (v6_octets s) = 16 \<and>
    v6_octet s = 2 * v6_colon_count s + v6_block_size s div 2 \<and>
    (v6_previous_character s = None \<longleftrightarrow> even (v6_block_size s)) \<and>
    (\<forall>b. v6_previous_character s = Some b \<longrightarrow> is_hex b) \<and>
    (v6_is_first_byte s \<longrightarrow> v6_colon_count s = 0 \<and> v6_block_size s = 0) \<and>
    length text = 5 * v6_colon_count s + v6_block_size s + length r \<and>
    drop (5 * v6_colon_count s + v6_block_size s) text = r \<and>
    lower (take (5 * v6_colon_count s + v6_block_size s) text) =
      ipv6_prefix (v6_colon_count s) (v6_octet s) (v6_previous_character s) (v6_octets s)"

definition ipv6_shape :: "bytes \<Rightarrow> bool" where
  "ipv6_shape text \<longleftrightarrow> length text = 39 \<and>
    (\<forall>p < 39. if p mod 5 = 4 then text ! p = colon else is_hex (text ! p))"

lemma ipv6_prefix_update:
  assumes "k = 2 * c + m" "k \<le> j"
  shows "ipv6_prefix c k prev (os[j := b]) = ipv6_prefix c k prev os"
proof -
  have 1: "map (\<lambda>i. hex2 (os[j := b] ! (i * 2)) @ hex2 (os[j := b] ! (i * 2 + 1)) @ [colon]) [0..<c] =
      map (\<lambda>i. hex2 (os ! (i * 2)) @ hex2 (os ! (i * 2 + 1)) @ [colon]) [0..<c]"
    using assms by (intro map_cong refl) auto
  have 2: "map (\<lambda>i. hex2 (os[j := b] ! i)) [2 * c..<k] = map (\<lambda>i. hex2 (os ! i)) [2 * c..<k]"
    using assms by (intro map_cong refl) auto
  show ?thesis unfolding ipv6_prefix_def 1 2 ..
qed

lemma ipv6_take_Suc:
  assumes "drop n text = b # r"
  shows "lower (take (Suc n) text) = lower (take n text) @ [ascii_lower b]" "drop (Suc n) text = r"
proof -
  from assms have "n < length text" "text ! n = b" by (metis drop_all list.distinct(1) not_le, metis nth_via_drop)
  then show "lower (take (Suc n) text) = lower (take n text) @ [ascii_lower b]" by (simp add: take_Suc_conv_app_nth)
  from assms show "drop (Suc n) text = r" by (metis drop_Suc list.sel(3) tl_drop)
qed

lemma ipv6_colon_step:
  assumes inv: "ipv6_inv text s (colon # r)" and "\<not> v6_is_first_byte s" "r \<noteq> []" "v6_colon_count s \<noteq> 7" "v6_block_size s = 4"
  shows "\<exists>s'. ipv6_step (Some colon) (r = []) s = Ok (Some s') \<and> ipv6_inv text s' r"
proof -
  let ?c = "v6_colon_count s"
  let ?s = "s\<lparr>v6_colon_count := ?c + 1, v6_block_size := 0, v6_previous_character := None, v6_is_first_byte := False\<rparr>"
  have "drop (5 * ?c + v6_block_size s) text = colon # r" using inv by (simp add: ipv6_inv_def)
  note nxt = ipv6_take_Suc [OF this]
  have "ipv6_step (Some colon) (r = []) s = Ok (Some ?s)"
    using assms by (simp add: ipv6_step_def Let_def)
  moreover have "ipv6_prefix (?c + 1) (2 * ?c + 2) None (v6_octets s) =
      ipv6_prefix ?c (2 * ?c + 2) None (v6_octets s) @ [colon]"
    by (simp add: ipv6_prefix_def mult.commute)
  with assms nxt have "ipv6_inv text ?s r"
    by (simp add: ipv6_inv_def ascii_lower_def)
  ultimately show ?thesis by simp
qed

lemma ipv6_first_digit_step:
  assumes inv: "ipv6_inv text s (b # r)" and "is_hex b" "v6_block_size s \<noteq> 4" "v6_previous_character s = None"
  shows "\<exists>s'. ipv6_step (Some b) (r = []) s = Ok (Some s') \<and> ipv6_inv text s' r"
proof -
  let ?s = "s\<lparr>v6_previous_character := Some b, v6_block_size := v6_block_size s + 1, v6_is_first_byte := False\<rparr>"
  have "drop (5 * v6_colon_count s + v6_block_size s) text = b # r" using inv by (simp add: ipv6_inv_def)
  note nxt = ipv6_take_Suc [OF this]
  have "b \<noteq> colon" using assms(2) by (auto simp: is_hex_def)
  then have "ipv6_step (Some b) (r = []) s = Ok (Some ?s)"
    using assms by (auto simp: ipv6_step_def is_hex_def)
  moreover have "ipv6_inv text ?s r"
    using assms nxt by (auto simp: ipv6_inv_def ipv6_prefix_def elim!: evenE)
  ultimately show ?thesis by simp
qed

lemma ipv6_second_digit_step:
  assumes inv: "ipv6_inv text s (b # r)" and hex: "is_hex b" and z: "v6_block_size s \<noteq> 4"
    and prev: "v6_previous_character s = Some prev"
  shows "\<exists>s'. ipv6_step (Some b) (r = []) s = Ok (Some s') \<and> ipv6_inv text s' r"
proof -
  let ?c = "v6_colon_count s" and ?k = "v6_octet s"
  have "drop (5 * ?c + v6_block_size s) text = b # r" using inv by (simp add: ipv6_inv_def)
  note nxt = ipv6_take_Suc [OF this]
  have "is_hex prev" using inv prev by (auto simp: ipv6_inv_def)
  then obtain h where h: "h < 16" "to_digit16_unwrap prev = Ok (of_nat h)" "ascii_lower prev = hex_char h"
    by (rule hex_value)
  from hex obtain l where l: "l < 16" "to_digit16_unwrap b = Ok (of_nat l)" "ascii_lower b = hex_char l"
    by (rule hex_value)
  let ?o = "push_bit 4 (of_nat h) OR of_nat l :: u8"
  let ?s = "s\<lparr>v6_octets := (v6_octets s)[?k := ?o], v6_previous_character := None, v6_octet := ?k + 1,
    v6_block_size := v6_block_size s + 1, v6_is_first_byte := False\<rparr>"
  have k: "?k < 16" "odd (v6_block_size s)" using inv z prev by (auto simp: ipv6_inv_def elim!: oddE)
  have "b \<noteq> colon" using hex by (auto simp: is_hex_def)
  then have "ipv6_step (Some b) (r = []) s = Ok (Some ?s)"
    using hex z prev h l hex_octet k inv by (auto simp: ipv6_step_def is_hex_def array_set_def ipv6_inv_def)
  moreover have "ipv6_prefix ?c ?k None ((v6_octets s)[?k := ?o]) = ipv6_prefix ?c ?k None (v6_octets s)"
    using inv by (intro ipv6_prefix_update) (auto simp: ipv6_inv_def)
  with inv k h l hex_octet [OF h(1) l(1)]
  have "ipv6_prefix ?c (?k + 1) None ((v6_octets s)[?k := ?o]) =
      ipv6_prefix ?c ?k (Some prev) (v6_octets s) @ [ascii_lower b]"
    by (simp add: ipv6_prefix_def ipv6_inv_def)
  with inv z prev k nxt have "ipv6_inv text ?s r" by (auto simp: ipv6_inv_def elim!: oddE)
  ultimately show ?thesis by simp
qed

lemma ipv6_step_inv:
  assumes inv: "ipv6_inv text s (b # r)" and len: "length text = 39"
  shows "\<exists>x. ipv6_step (Some b) (r = []) s = Ok x \<and> (\<forall>s'. x = Some s' \<longrightarrow> ipv6_inv text s' r) \<and>
    (ipv6_shape text \<longrightarrow> x \<noteq> None)"
proof -
  let ?c = "v6_colon_count s" and ?z = "v6_block_size s"
  let ?p = "5 * ?c + ?z"
  have "drop ?p text = b # r" using inv by (simp add: ipv6_inv_def)
  then have "text ! ?p = b" by (metis nth_via_drop)
  have z: "?z \<le> 4" and p: "?p < 39" using inv len by (auto simp: ipv6_inv_def)
  have "?p mod 5 = ?z mod 5" by simp
  also have "\<dots> = ?z" using z by simp
  finally have shape: "ipv6_shape text \<Longrightarrow> if ?z = 4 then b = colon else is_hex b"
    using p \<open>text ! ?p = b\<close> by (auto simp: ipv6_shape_def)
  consider "b = colon" "\<not> v6_is_first_byte s" "r \<noteq> []" "?c \<noteq> 7" "?z = 4"
    | "b = colon" "v6_is_first_byte s \<or> r = [] \<or> ?c = 7 \<or> ?z \<noteq> 4"
    | "is_hex b" "?z \<noteq> 4" | "b \<noteq> colon" "\<not> is_hex b \<or> ?z = 4" by blast
  then show ?thesis
  proof cases
    case 1
    with ipv6_colon_step [of "text" s r] inv show ?thesis by auto
  next
    case 2
    have "\<not> is_hex colon" by (simp add: is_hex_def)
    moreover have "r \<noteq> []" if "?z = 4" using inv len that by (auto simp: ipv6_inv_def) presburger
    ultimately show ?thesis using 2 shape inv len by (auto simp: ipv6_step_def ipv6_inv_def Let_def)
  next
    case 3
    with ipv6_first_digit_step [OF inv] ipv6_second_digit_step [OF inv] show ?thesis
      by (cases "v6_previous_character s") fastforce+
  next
    case 4
    with shape show ?thesis by (auto simp: ipv6_step_def is_hex_def)
  qed
qed

lemma ipv6_loop_progress:
  "progress (\<lambda>s. and_then (try_read_byte L) (\<lambda>byte.
      and_then (at_end L) (\<lambda>e.
      and_then (of_result (ipv6_step byte e s)) (\<lambda>next.
        case next of
          None \<Rightarrow> ok (Inr None)
        | Some s' \<Rightarrow> ok (if e then Inr (Some s') else Inl s')))))" (is "progress ?body")
proof (rule progressI)
  fix s r s' r'
  assume "?body s r = (Ok (Inl s'), r')"
  then show "length r' < length r"
    by (cases r) (auto simp: run_simps ipv6_step_def [of None] split: result.splits option.splits if_splits)
qed

lemma ipv6_loop_Cons:
  "fst (ipv6_loop L s (b # r)) =
    res_bind (ipv6_step (Some b) (r = []) s) (\<lambda>x.
      case x of None \<Rightarrow> Ok None | Some s' \<Rightarrow> if r = [] then Ok (Some s') else fst (ipv6_loop L s' r))"
  unfolding ipv6_loop_def
  by (subst loop_unfold [OF ipv6_loop_progress])
    (cases "ipv6_step (Some b) (r = []) s"; simp add: run_simps split: option.split)

lemma ipv6_loop_inv:
  assumes "ipv6_inv text s r" "length text = 39" "r \<noteq> []"
  shows "\<exists>x. fst (ipv6_loop L s r) = Ok x \<and> (\<forall>s'. x = Some s' \<longrightarrow> ipv6_inv text s' []) \<and>
    (ipv6_shape text \<longrightarrow> x \<noteq> None)"
  using assms
proof (induction r arbitrary: s)
  case (Cons b r)
  from ipv6_step_inv [OF Cons.prems(1,2)] obtain x where x: "ipv6_step (Some b) (r = []) s = Ok x"
    "\<forall>s'. x = Some s' \<longrightarrow> ipv6_inv text s' r" "ipv6_shape text \<longrightarrow> x \<noteq> None" by blast
  with Cons.IH Cons.prems(2) show ?case by (cases "r = []"; cases x) (simp_all add: ipv6_loop_Cons)
qed simp

abbreviation "ipv6_start \<equiv> \<lparr>v6_is_first_byte = True, v6_block_size = 0, v6_colon_count = 0, v6_octet = 0,
  v6_previous_character = None, v6_octets = replicate 16 0\<rparr>"

lemma ipv6_octets_cases:
  assumes "length os = (16 :: nat)"
  obtains a0 a1 a2 a3 a4 a5 a6 a7 a8 a9 a10 a11 a12 a13 a14 a15
  where "os = [a0, a1, a2, a3, a4, a5, a6, a7, a8, a9, a10, a11, a12, a13, a14, a15]"
  using assms by (auto simp: numeral_eq_Suc length_Suc_conv)

lemma ipv6_to_string_prefix: "ipv6_to_uncompressed_string os = ipv6_prefix 7 16 None os"
  by (simp add: ipv6_to_uncompressed_string_def ipv6_prefix_def)

lemma ipv6_inv_end:
  assumes "ipv6_inv text s []" "length text = 39"
  shows "v6_colon_count s = 7 \<and> length (v6_octets s) = 16 \<and> lower text = ipv6_to_uncompressed_string (v6_octets s)"
proof -
  let ?c = "v6_colon_count s" and ?z = "v6_block_size s"
  have "5 * ?c + ?z = 39" "?z \<le> 4" "?c \<le> 7" using assms by (auto simp: ipv6_inv_def)
  then have "?c = 7" "?z = 4" by linarith+
  with assms show ?thesis by (auto simp: ipv6_inv_def ipv6_to_string_prefix)
qed

lemma hex_char_facts:
  assumes "n < 16"
  shows "is_hex (hex_char n)" "ascii_lower (hex_char n) = hex_char n"
proof -
  from assms have "n \<in> {0..<16}" by simp
  then show "is_hex (hex_char n)" "ascii_lower (hex_char n) = hex_char n"
    by (auto simp: atLeastLessThan_nat_numeral hex_char_def is_hex_def ascii_lower_def)
qed

lemma is_hex_lower: "is_hex (ascii_lower b) \<Longrightarrow> is_hex b"
  by (auto simp: is_hex_def ascii_lower_def word_le_nat_alt unat_word_ariths unat_sub_if_size word_size split: if_splits)

lemma hex_char_inj: "m < 16 \<Longrightarrow> n < 16 \<Longrightarrow> hex_char m = hex_char n \<longleftrightarrow> m = n"
  by (auto simp: hex_char_def u8_eq_iff_unat unat_word_ariths unat_of_nat split: if_splits)

lemma hex2_append_inj: "hex2 a @ x = hex2 b @ y \<longleftrightarrow> a = b \<and> x = y"
proof -
  have "unat c div 16 < 16" for c :: u8 using u8_unat_lt [of c] by linarith
  then have "hex2 a = hex2 b \<Longrightarrow> unat a div 16 = unat b div 16 \<and> unat a mod 16 = unat b mod 16"
    by (simp add: hex2_def hex_char_inj)
  then have "hex2 a = hex2 b \<longleftrightarrow> a = b" by (metis div_mod_decomp u8_eq_iff_unat)
  moreover have "length (hex2 a) = length (hex2 b)" by (simp add: hex2_def)
  ultimately show ?thesis by simp
qed

lemma upt_7: "[0..<7] = [0, 1, 2, 3, 4, 5, 6 :: nat]"
  by (simp add: upt_rec)

lemma ipv6_to_string_inj:
  assumes "length os = 16" "length os' = 16" "ipv6_to_uncompressed_string os = ipv6_to_uncompressed_string os'"
  shows "os = os'"
proof (rule ipv6_octets_cases [OF assms(1)], rule ipv6_octets_cases [OF assms(2)])
qed (use assms(3) in \<open>simp add: ipv6_to_uncompressed_string_def upt_7 hex2_append_inj
  hex2_append_inj [of _ "[]" _ "[]", simplified]\<close>)

lemma hex2_parts: "\<exists>h l. h < 16 \<and> l < 16 \<and> hex2 b = [hex_char h, hex_char l]"
proof -
  have "unat b div 16 < 16" using u8_unat_lt [of b] by linarith
  then show ?thesis unfolding hex2_def by (intro exI conjI refl) simp_all
qed

lemma length_ipv6_to_string: "length (ipv6_to_uncompressed_string os) = 39"
  by (simp add: ipv6_to_uncompressed_string_def upt_7 hex2_def)

lemma ipv6_shape_print:
  assumes "lower text = ipv6_to_uncompressed_string os"
  shows "ipv6_shape text"
proof -
  let ?P = "\<lambda>p b. if p mod 5 = 4 then b = colon else is_hex b"
  have hex: "list_all is_hex (hex2 b)" for b
    using hex2_parts [of b] by (auto simp: hex_char_facts)
  have "list_all2 ?P [0..<39] (ipv6_to_uncompressed_string os)"
    using hex by (simp add: ipv6_to_uncompressed_string_def upt_7 hex2_def upt_rec [of _ 39])
  with assms have "list_all2 ?P [0..<39] (lower text)" by simp
  then have "\<And>p. p < 39 \<Longrightarrow> ?P p (ascii_lower (text ! p))" "length text = 39"
    by (auto simp: list_all2_conv_all_nth)
  moreover have "ascii_lower b = colon \<Longrightarrow> b = colon" for b by (auto simp: ascii_lower_def split: if_splits)
  ultimately show ?thesis unfolding ipv6_shape_def using is_hex_lower by (metis (no_types, lifting))
qed

lemma parse_ipv6_run:
  "\<exists>x. parse_ipv6_address L text = Ok x \<and>
    (\<forall>a. x = Some a \<longleftrightarrow> (\<exists>os. a = V6 text os \<and> length os = 16 \<and> lower text = ipv6_to_uncompressed_string os))"
proof (cases "length text = 39")
  case False
  then have "lower text \<noteq> ipv6_to_uncompressed_string os" for os
    using length_ipv6_to_string by (metis length_map)
  with False show ?thesis by (simp add: parse_ipv6_address_def)
next
  case True
  then have "ipv6_inv text ipv6_start text" "text \<noteq> []" by (auto simp: ipv6_inv_def ipv6_prefix_def)
  from ipv6_loop_inv [OF this(1) True this(2)] obtain x where x: "fst (ipv6_loop L ipv6_start text) = Ok x"
    and inv: "\<And>s'. x = Some s' \<Longrightarrow> ipv6_inv text s' []" and shape: "ipv6_shape text \<Longrightarrow> x \<noteq> None" by blast
  show ?thesis
  proof (cases x)
    case None
    with shape ipv6_shape_print have "lower text \<noteq> ipv6_to_uncompressed_string os" for os by blast
    with None x True show ?thesis by (simp add: parse_ipv6_address_def run_simps)
  next
    case (Some s')
    from ipv6_inv_end [OF inv [OF this] True] have s': "v6_colon_count s' = 7" "length (v6_octets s') = 16"
      "lower text = ipv6_to_uncompressed_string (v6_octets s')" by auto
    have "parse_ipv6_address L text = Ok (Some (V6 text (v6_octets s')))"
      using x True Some s' by (simp add: parse_ipv6_address_def run_simps)
    with s' ipv6_to_string_inj show ?thesis by (metis option.inject)
  qed
qed

section \<open>Properties\<close>

lemma parse_ipv4_run:
  "\<exists>x. parse_ipv4_address L text = Ok x \<and>
    (\<forall>a. x = Some a \<longleftrightarrow> (\<exists>os. a = V4 text os \<and> length os = 4 \<and> text = ipv4_to_string os))"
proof -
  from parse_ipv4_sound [of "text"] obtain x where x: "parse_ipv4_address L text = Ok x"
    "\<forall>a. x = Some a \<longrightarrow> (\<exists>os. a = V4 text os \<and> length os = 4 \<and> text = ipv4_to_string os)" by blast
  moreover have "x = Some (V4 text os)" if "length os = 4" "text = ipv4_to_string os" for os
    using x(1) that parse_ipv4_complete [of os] by simp
  ultimately show ?thesis by blast
qed

lemma length_ipv4_to_string: "length (ipv4_to_string os) \<le> 15"
proof -
  have "length (dec_octet b) \<le> 3" for b by (simp add: dec_octet_def Let_def)
  from this [of "os ! 0"] this [of "os ! 1"] this [of "os ! 2"] this [of "os ! 3"] show ?thesis
    by (simp add: ipv4_to_string_def)
qed

lemma ipv4_ascii: "utf8_valid (ipv4_to_string os)"
proof (rule ascii_utf8_valid)
  fix c
  assume "c \<in> set (ipv4_to_string os)"
  then consider "c = dot" | b where "c \<in> set (dec_octet b)" by (auto simp: ipv4_to_string_def)
  then show "c < 0x80"
  proof cases
    case (2 b)
    then obtain d where "d < 10" "c = 0x30 + of_nat d"
      using dec_digits_facts(3) [of b] by (auto simp: dec_octet_digits list_all_iff)
    with digit_char(3) [OF this(1)] show ?thesis by (simp add: word_less_nat_alt word_le_nat_alt)
  qed simp
qed

lemma ipv6_ascii:
  assumes "lower text = ipv6_to_uncompressed_string os"
  shows "utf8_valid text"
proof (rule ascii_utf8_valid)
  fix c
  assume "c \<in> set text"
  then obtain p where p: "p < length text" "c = text ! p" by (auto simp: in_set_conv_nth)
  with ipv6_shape_print [OF assms] have "c = colon \<or> is_hex c" by (auto simp: ipv6_shape_def split: if_splits)
  then show "c < 0x80" by (auto simp: is_hex_def word_less_nat_alt word_le_nat_alt)
qed

lemma lower_ipv6_to_string: "lower (ipv6_to_uncompressed_string os) = ipv6_to_uncompressed_string os"
proof -
  have "lower (hex2 b) = hex2 b" for b using hex2_parts [of b] by (auto simp: hex_char_facts)
  then show ?thesis by (simp add: ipv6_to_uncompressed_string_def upt_7 ascii_lower_def)
qed

text \<open>C26: dotted decimal text is accepted exactly when it is the canonical text of four octets, which are then
  the parsed address: no leading zeros, no octet over 255, three dots. The parser always returns.\<close>

theorem ipv4_text:
  assumes "untrusted_reader U rest later"
  shows "\<exists>x. parse_ipv4_address U text = Ok x \<and>
    (\<forall>a. x = Some a \<longleftrightarrow> (\<exists>os. a = V4 text os \<and> length os = 4 \<and> text = ipv4_to_string os))"
  unfolding untrusted_reader.parse_ipv4_address_indep [OF assms] by (rule parse_ipv4_run)

theorem ipv4_text_witness:
  "parse_ipv4_address list_reader [0x37, 0x2E, 0x30, 0x2E, 0x30, 0x2E, 0x31, 0x31] =
    Ok (Some (V4 [0x37, 0x2E, 0x30, 0x2E, 0x30, 0x2E, 0x31, 0x31] [7, 0, 0, 11]))"
proof -
  have "[0x37, 0x2E, 0x30, 0x2E, 0x30, 0x2E, 0x31, 0x31] = ipv4_to_string [7, 0, 0, 11]" by code_simp
  then show ?thesis
    using ipv4_text [OF lr.untrusted_reader_axioms, of "[0x37, 0x2E, 0x30, 0x2E, 0x30, 0x2E, 0x31, 0x31]"]
    by (auto dest!: spec [of _ "V4 [0x37, 0x2E, 0x30, 0x2E, 0x30, 0x2E, 0x31, 0x31] [7, 0, 0, 11]"])
qed

text \<open>C27: colon-separated text is accepted exactly when it is, up to the case of its digits, the uncompressed form
  of sixteen octets, which are then the parsed address. The parser always returns: none of its array
  accesses, \<^verbatim>\<open>unwrap\<close> and \<^verbatim>\<open>expect\<close> can panic.\<close>

theorem ipv6_text:
  assumes "untrusted_reader U rest later"
  shows "\<exists>x. parse_ipv6_address U text = Ok x \<and>
    (\<forall>a. x = Some a \<longleftrightarrow>
      (\<exists>os. a = V6 text os \<and> length os = 16 \<and> map ascii_lower text = ipv6_to_uncompressed_string os))"
  unfolding untrusted_reader.parse_ipv6_address_indep [OF assms] by (rule parse_ipv6_run)

text \<open>C28: the text that is made of an address of the standard library is accepted and read back as the same address.\<close>

theorem ip_text_roundtrip:
  assumes "untrusted_reader U rest later"
    and "case a of Std_V4 os \<Rightarrow> length os = 4 | Std_V6 os \<Rightarrow> length os = 16"
  shows "ip_addr_ref_try_from_ascii U (ip_addr_as_ref_str (ip_addr_from_std a)) =
      Ok (Some (ip_addr_ref_from (ip_addr_from_std a)))"
proof (cases a)
  case (Std_V4 os)
  with assms(2) show ?thesis
    unfolding untrusted_reader.ip_addr_ref_try_from_ascii_indep [OF assms(1)]
    by (simp add: ip_addr_ref_try_from_ascii_def parse_ipv4_complete)
next
  case (Std_V6 os)
  let ?t = "ipv6_to_uncompressed_string os"
  have "?t \<noteq> ipv4_to_string os'" for os'
    using length_ipv4_to_string [of os'] length_ipv6_to_string [of os] by auto
  with parse_ipv4_run [of ?t] have "parse_ipv4_address L ?t = Ok None" by (metis not_None_eq)
  moreover have "lower ?t = ?t" by (rule lower_ipv6_to_string)
  with parse_ipv6_run [of ?t] assms(2) Std_V6 have "parse_ipv6_address L ?t = Ok (Some (V6 ?t os))" by auto
  ultimately show ?thesis
    unfolding untrusted_reader.ip_addr_ref_try_from_ascii_indep [OF assms(1)]
    using Std_V6 by (simp add: ip_addr_ref_try_from_ascii_def)
qed


theorem ip_text_roundtrip_witness:
  "ip_addr_ref_try_from_ascii list_reader (ip_addr_as_ref_str (ip_addr_from_std (Std_V4 [10, 0, 0, 1]))) =
    Ok (Some (V4 (ipv4_to_string [10, 0, 0, 1]) [10, 0, 0, 1]))"
  using ip_text_roundtrip [OF lr.untrusted_reader_axioms, of "Std_V4 [10, 0, 0, 1]"] by simp

theorem ipv6_text_witness:
  "parse_ipv6_address list_reader (ipv6_to_uncompressed_string (replicate 16 0xab)) =
    Ok (Some (V6 (ipv6_to_uncompressed_string (replicate 16 0xab)) (replicate 16 0xab)))"
  using ipv6_text [OF lr.untrusted_reader_axioms, of "ipv6_to_uncompressed_string (replicate 16 0xab)"]
    lower_ipv6_to_string [of "replicate 16 0xab"]
  by (metis length_replicate)

text \<open>C36: an accepted IP address is text, of whichever version: turning it into a string or an owned address never
  panics and keeps the octets.\<close>

theorem ip_text_never_panics:
  assumes "untrusted_reader U rest later" and "ip_addr_ref_try_from_ascii U text = Ok (Some a)"
  shows "ip_addr_ref_into_str a = Ok text \<and> ip_addr_ref_into_bytes a = text \<and>
    (\<exists>b. ip_addr_ref_to_owned a = Ok b \<and> ip_addr_from_ref a = Ok b \<and> ip_addr_ref_from b = a)"
proof -
  from assms(2) have "parse_ipv4_address L text = Ok (Some a) \<or> parse_ipv6_address L text = Ok (Some a)"
    unfolding untrusted_reader.ip_addr_ref_try_from_ascii_indep [OF assms(1)]
    by (auto simp: ip_addr_ref_try_from_ascii_def split: option.splits)
  then have "\<exists>os. a = V4 text os \<and> utf8_valid text \<or> a = V6 text os \<and> utf8_valid text"
  proof
    assume "parse_ipv4_address L text = Ok (Some a)"
    with parse_ipv4_run [of "text"] obtain os where "a = V4 text os" "text = ipv4_to_string os" by auto
    with ipv4_ascii [of os] show ?thesis by auto
  next
    assume "parse_ipv6_address L text = Ok (Some a)"
    with parse_ipv6_run [of "text"] obtain os where "a = V6 text os" "lower text = ipv6_to_uncompressed_string os" by auto
    with ipv6_ascii [of "text" os] show ?thesis by auto
  qed
  then show ?thesis by (auto simp: str_from_utf8_unwrap_def)
qed

theorem ip_text_never_panics_witness:
  "ip_addr_ref_into_str (V4 (ipv4_to_string [10, 0, 0, 1]) [10, 0, 0, 1]) = Ok (ipv4_to_string [10, 0, 0, 1])"
proof -
  have "ip_addr_ref_try_from_ascii list_reader (ipv4_to_string [10, 0, 0, 1]) =
      Ok (Some (V4 (ipv4_to_string [10, 0, 0, 1]) [10, 0, 0, 1]))"
    by (simp add: ip_addr_ref_try_from_ascii_def parse_ipv4_complete)
  from ip_text_never_panics [OF lr.untrusted_reader_axioms this] show ?thesis by simp
qed

end
