(* ===== verification/Ip_Block.thy ===== *)
theory Ip_Block
  imports Ip_Address
begin

text \<open>
  What the comparisons of \<^verbatim>\<open>src/subject_name/ip_address.rs\<close> decide: equality of addresses, and membership in
  the CIDR block an address-and-mask constraint stands for.
\<close>

unbundle bit_operations_syntax

section \<open>Comparing addresses\<close>

lemma ip_compare_progress: "progress (ip_compare_byte L)"
proof (rule progressI)
  fix s r s' r'
  assume "ip_compare_byte L s r = (Ok (Inl s'), r')"
  then show "length r' < length r"
    by (cases r; cases s) (auto simp: ip_compare_byte_def run_simps split: if_splits)
qed

lemma ip_compare_run:
  "length p = length r \<Longrightarrow> fst (loop L (ip_compare_byte L) r p) = Ok (p = r)"
proof (induction p arbitrary: r)
  case Nil
  then show ?case by (simp add: loop_list ip_compare_byte_def run_simps)
next
  case (Cons b p)
  then obtain c r' where r: "r = c # r'" by (cases r) auto
  have "ip_compare_byte L r (b # p) = (Ok (if b = c then Inl r' else Inr False), p)"
    by (simp add: ip_compare_byte_def run_simps r)
  with Cons r show ?case by (subst loop_unfold [OF ip_compare_progress]) (simp add: and_then_run ok_run)
qed

lemma ip_reference_run:
  "ip_presented_id_matches_reference_id L p r = Ok (p = r \<and> (length p = 4 \<or> length p = 16))"
  by (auto simp: ip_presented_id_matches_reference_id_def ip_compare_run run_simps)

section \<open>Address blocks\<close>

text \<open>The bits of a mask are \<open>n\<close> ones followed by zeros.\<close>

definition cidr_mask :: "nat \<Rightarrow> bytes \<Rightarrow> bool" where
  "cidr_mask n bs \<longleftrightarrow> (\<forall>i < 8 * length bs. msb_bit bs i \<longleftrightarrow> i < n)"

definition same_prefix :: "nat \<Rightarrow> bytes \<Rightarrow> bytes \<Rightarrow> bool" where
  "same_prefix n a b \<longleftrightarrow> (\<forall>i < n. msb_bit a i \<longleftrightarrow> msb_bit b i)"

lemma msb_bit_Cons:
  "msb_bit (b # bs) i = (if i < 8 then bit b (7 - i) else msb_bit bs (i - 8))"
proof (cases "i < 8")
  case False
  then have "i div 8 = Suc ((i - 8) div 8)" "i mod 8 = (i - 8) mod 8" by (auto simp: le_div_geq le_mod_geq)
  with False show ?thesis by (auto simp: msb_bit_def)
qed (simp add: msb_bit_def)

lemma byte_zero_bits: "(b :: u8) = 0 \<longleftrightarrow> (\<forall>i < 8. \<not> bit b i)"
  by (auto simp: bit_eq_iff)

lemma byte_ones_bits: "(b :: u8) = 0xff \<longleftrightarrow> (\<forall>i < 8. bit b i)"
proof -
  have "(0xff :: u8) = mask 8" by (simp add: mask_eq_exp_minus_1)
  then show ?thesis by (auto simp: bit_eq_iff bit_mask_iff)
qed

definition masked_eq :: "u8 \<Rightarrow> u8 \<Rightarrow> u8 \<Rightarrow> bool" where
  "masked_eq x y m \<longleftrightarrow> (x XOR y) AND m = 0"

definition cidr_octet :: "u8 \<Rightarrow> bool" where
  "cidr_octet m \<longleftrightarrow> leading_ones m + trailing_zeros m = 8"

lemma byte_masked: "masked_eq x y m \<longleftrightarrow> (\<forall>i < 8. bit m i \<longrightarrow> bit x i = bit y i)"
  unfolding masked_eq_def by (auto simp: byte_zero_bits bit_and_iff bit_xor_iff)

lemma takeWhile_front:
  "\<forall>x \<in> set xs. P x \<Longrightarrow> ys = [] \<or> \<not> P (hd ys) \<Longrightarrow> takeWhile P (xs @ ys) = xs"
  by (induction xs) (cases ys, auto)

lemma takeWhile_both_ends:
  "length (takeWhile P xs) + length (takeWhile (\<lambda>x. \<not> P x) (rev xs)) = length xs \<longleftrightarrow>
    (\<exists>n \<le> length xs. \<forall>i < length xs. P (xs ! i) \<longleftrightarrow> i < n)"
proof
  let ?n = "length (takeWhile P xs)" and ?m = "length (takeWhile (\<lambda>x. \<not> P x) (rev xs))"
  assume *: "?n + ?m = length xs"
  have "P (xs ! i) \<longleftrightarrow> i < ?n" if "i < length xs" for i
  proof
    assume "i < ?n"
    then show "P (xs ! i)" by (metis nth_mem set_takeWhileD takeWhile_nth)
  next
    assume "P (xs ! i)"
    show "i < ?n"
    proof (rule ccontr)
      assume "\<not> i < ?n"
      with * that have "length xs - 1 - i < ?m" by linarith
      then have "\<not> P (rev xs ! (length xs - 1 - i))" by (metis nth_mem set_takeWhileD takeWhile_nth)
      with \<open>P (xs ! i)\<close> that show False by (simp add: rev_nth)
    qed
  qed
  moreover have "?n \<le> length xs" by (rule length_takeWhile_le)
  ultimately show "\<exists>n \<le> length xs. \<forall>i < length xs. P (xs ! i) \<longleftrightarrow> i < n" by blast
next
  assume "\<exists>n \<le> length xs. \<forall>i < length xs. P (xs ! i) \<longleftrightarrow> i < n"
  then obtain n where n: "n \<le> length xs" "\<And>i. i < length xs \<Longrightarrow> P (xs ! i) \<longleftrightarrow> i < n" by blast
  have front: "\<forall>x \<in> set (take n xs). P x" using n by (auto simp: in_set_conv_nth)
  have ends: "\<forall>x \<in> set (drop n xs). \<not> P x" using n by (auto simp: in_set_conv_nth)
  have "takeWhile P (take n xs @ drop n xs) = take n xs"
    using front ends by (intro takeWhile_front) (auto simp del: append_take_drop_id dest: hd_in_set)
  moreover have "takeWhile (\<lambda>x. \<not> P x) (rev (drop n xs) @ rev (take n xs)) = rev (drop n xs)"
  proof (rule takeWhile_front)
    have "take n xs = [] \<or> P (last (take n xs))" using front by (metis last_in_set)
    then show "rev (take n xs) = [] \<or> \<not> \<not> P (hd (rev (take n xs)))" by (simp only: hd_rev rev_is_Nil_conv not_not)
  qed (use ends in simp)
  then have "takeWhile (\<lambda>x. \<not> P x) (rev (take n xs @ drop n xs)) = rev (drop n xs)" by (simp only: rev_append)
  ultimately show "length (takeWhile P xs) + length (takeWhile (\<lambda>x. \<not> P x) (rev xs)) = length xs"
    using n(1) by simp
qed

lemma cidr_byte:
  "cidr_octet b \<longleftrightarrow> (\<exists>n \<le> 8. \<forall>i < 8. bit b (7 - i) \<longleftrightarrow> i < n)"
proof -
  define xs where "xs = [7, 6, 5, 4, 3, 2, 1, 0 :: nat]"
  have xs: "[0, 1, 2, 3, 4, 5, 6, 7] = rev xs" "length xs = 8" by (simp_all add: xs_def)
  have "xs ! i = 7 - i" if "i < 8" for i
    using that by (auto simp: xs_def less_Suc_eq numeral_eq_Suc)
  then have "(\<forall>i < 8. bit b (xs ! i) \<longleftrightarrow> i < n) \<longleftrightarrow> (\<forall>i < 8. bit b (7 - i) \<longleftrightarrow> i < n)" for n by auto
  then show ?thesis
    unfolding cidr_octet_def leading_ones_def trailing_zeros_def xs(1) xs_def [symmetric]
    using takeWhile_both_ends [of "bit b" xs] xs(2) by simp
qed

text \<open>The check of the mask alone, octet by octet.\<close>

fun mask_ok :: "bool \<Rightarrow> bytes \<Rightarrow> bool" where
  "mask_ok seen [] = True"
| "mask_ok seen (m # ms) \<longleftrightarrow>
    cidr_octet m \<and> (seen \<longrightarrow> m = 0) \<and> mask_ok (seen \<or> m \<noteq> 0xff) ms"

lemma cidr_mask_Cons:
  "cidr_mask n (m # ms) \<longleftrightarrow> (\<forall>i < 8. bit m (7 - i) \<longleftrightarrow> i < n) \<and> cidr_mask (n - 8) ms"
proof
  assume *: "cidr_mask n (m # ms)"
  have "bit m (7 - i) \<longleftrightarrow> i < n" if "i < 8" for i
    using * that by (auto simp: cidr_mask_def msb_bit_Cons dest: spec [of _ i])
  moreover have "msb_bit ms i \<longleftrightarrow> i < n - 8" if "i < 8 * length ms" for i
    using * that by (auto simp: cidr_mask_def msb_bit_Cons dest: spec [of _ "i + 8"])
  ultimately show "(\<forall>i < 8. bit m (7 - i) \<longleftrightarrow> i < n) \<and> cidr_mask (n - 8) ms" by (simp add: cidr_mask_def)
next
  assume "(\<forall>i < 8. bit m (7 - i) \<longleftrightarrow> i < n) \<and> cidr_mask (n - 8) ms"
  then show "cidr_mask n (m # ms)" by (auto simp: cidr_mask_def msb_bit_Cons)
qed

lemma msb_order: "(\<forall>i < 8. Q (7 - i)) \<longleftrightarrow> (\<forall>i < (8 :: nat). Q i)"
proof
  assume *: "\<forall>i < 8. Q (7 - i)"
  show "\<forall>i < 8. Q i"
  proof (intro allI impI)
    fix i :: nat
    assume "i < 8"
    then have "7 - i < 8" "7 - (7 - i) = i" by auto
    with * show "Q i" by metis
  qed
qed auto

lemma mask_ok_zero: "mask_ok True ms \<longleftrightarrow> cidr_mask 0 ms"
proof (induction ms)
  case (Cons m ms)
  have "(\<forall>i < 8. \<not> bit m (7 - i)) \<longleftrightarrow> m = 0" unfolding byte_zero_bits by (rule msb_order)
  then have "m = 0 \<Longrightarrow> cidr_octet m" unfolding cidr_byte by (intro exI [of _ 0]) simp
  with \<open>(\<forall>i < 8. \<not> bit m (7 - i)) \<longleftrightarrow> m = 0\<close> Cons show ?case by (auto simp: cidr_mask_Cons)
qed (simp add: cidr_mask_def)

lemma mask_ok_cidr: "mask_ok False ms \<longleftrightarrow> (\<exists>n \<le> 8 * length ms. cidr_mask n ms)"
proof (induction ms)
  case Nil
  show ?case by (simp add: cidr_mask_def)
next
  case (Cons m ms)
  have ones: "(\<forall>i < 8. bit m (7 - i)) \<longleftrightarrow> m = 0xff" unfolding byte_ones_bits by (rule msb_order)
  show ?case
  proof (cases "m = 0xff")
    case True
    with ones have "cidr_octet m" unfolding cidr_byte by (intro exI [of _ 8]) simp
    then have "mask_ok False (m # ms) \<longleftrightarrow> (\<exists>n \<le> 8 * length ms. cidr_mask n ms)" using True Cons by simp
    also have "\<dots> \<longleftrightarrow> (\<exists>n \<le> 8 * length (m # ms). cidr_mask n (m # ms))"
    proof
      assume "\<exists>n \<le> 8 * length ms. cidr_mask n ms"
      then obtain n where "n \<le> 8 * length ms" "cidr_mask n ms" by blast
      with True ones show "\<exists>n \<le> 8 * length (m # ms). cidr_mask n (m # ms)"
        by (intro exI [of _ "n + 8"]) (auto simp: cidr_mask_Cons)
    next
      assume "\<exists>n \<le> 8 * length (m # ms). cidr_mask n (m # ms)"
      then obtain n where "n \<le> 8 * length (m # ms)" "cidr_mask (n - 8) ms" by (auto simp: cidr_mask_Cons)
      then show "\<exists>n \<le> 8 * length ms. cidr_mask n ms" by (intro exI [of _ "n - 8"]) simp
    qed
    finally show ?thesis .
  next
    case False
    have "n \<le> 8" if "\<forall>i < 8. bit m (7 - i) \<longleftrightarrow> i < n" for n
    proof (rule ccontr)
      assume "\<not> n \<le> 8"
      with that have "\<forall>i < 8. bit m (7 - i)" by simp
      with ones False show False by blast
    qed
    note le = this
    have "(\<exists>n \<le> 8 * length (m # ms). cidr_mask n (m # ms)) \<longleftrightarrow>
        (\<exists>n \<le> 8. \<forall>i < 8. bit m (7 - i) \<longleftrightarrow> i < n) \<and> cidr_mask 0 ms" (is "?l \<longleftrightarrow> ?r")
    proof
      assume ?l
      then obtain n where n: "\<forall>i < 8. bit m (7 - i) \<longleftrightarrow> i < n" "cidr_mask (n - 8) ms" by (auto simp: cidr_mask_Cons)
      moreover from le [OF n(1)] have "n - 8 = 0" by simp
      ultimately show ?r using le by auto
    next
      assume ?r
      then obtain n where "n \<le> 8" "\<forall>i < 8. bit m (7 - i) \<longleftrightarrow> i < n" "cidr_mask (n - 8) ms" by auto
      then show ?l by (intro exI [of _ n]) (simp add: cidr_mask_Cons)
    qed
    with False show ?thesis by (simp add: mask_ok_zero cidr_byte)
  qed
qed

text \<open>The loop: a mismatch ends it early, without a look at the rest of the mask.\<close>

lemma constraint_octet_Cons:
  "constraint_octet L (a # as, m # ms, seen) (n # ns) =
    (if \<not> cidr_octet m \<or> seen \<and> m \<noteq> 0 then (Err InvalidNetworkMaskConstraint, ns)
     else if \<not> masked_eq n a m then (Ok (Inr False), ns)
     else (Ok (if ns = [] then Inr True else Inl (as, ms, seen \<or> m \<noteq> 0xff)), ns))"
  unfolding cidr_octet_def masked_eq_def constraint_octet_def prod.case and_then_run try_read_byte_run result.case option.case list_ops Let_def
    at_end_run of_result_run ok_run
  by (simp only: if_distribR of_result_run ok_run and_then_run at_end_run prod.case result.case split: if_split) blast

lemma constraint_octet_progress: "progress (constraint_octet L)"
proof (rule progressI)
  fix s r s' r'
  assume *: "constraint_octet L s r = (Ok (Inl s'), r')"
  obtain as ms seen where s: "s = (as, ms, seen)" by (cases s)
  show "length r' < length r"
  proof (cases "r = [] \<or> as = [] \<or> ms = []")
    case True
    with * show ?thesis by (cases r; cases as; cases ms) (auto simp: constraint_octet_def s run_simps)
  next
    case False
    then obtain n ns a as' m ms' where "r = n # ns" "as = a # as'" "ms = m # ms'" by (auto simp: neq_Nil_conv)
    with * show ?thesis by (auto simp: s constraint_octet_Cons split: if_splits)
  qed
qed

lemma constraint_loop_run:
  fixes seen
  assumes "length as = length ns" "length ms = length ns" "ns \<noteq> []"
  defines "result \<equiv> fst (loop L (constraint_octet L) (as, ms, seen) ns)"
    and "same \<equiv> list_all2 (\<lambda>(n, a) m. masked_eq n a m) (zip ns as) ms"
  shows "if mask_ok seen ms then result = Ok same else result \<in> {Ok False, Err InvalidNetworkMaskConstraint}"
  using assms(1-3) unfolding result_def same_def
proof (induction ns arbitrary: as ms seen)
  case (Cons n ns)
  then obtain a as' m ms' where as: "as = a # as'" "ms = m # ms'"
    by (cases as; cases ms) auto
  have step: "fst (loop L (constraint_octet L) (as, ms, seen) (n # ns)) =
    (if \<not> cidr_octet m \<or> seen \<and> m \<noteq> 0 then Err InvalidNetworkMaskConstraint
     else if \<not> masked_eq n a m then Ok False
     else if ns = [] then Ok True else fst (loop L (constraint_octet L) (as', ms', seen \<or> m \<noteq> 0xff) ns))"
    by (subst loop_unfold [OF constraint_octet_progress]) (simp add: and_then_run ok_run as constraint_octet_Cons)
  show ?case
  proof (cases "ns = []")
    case True
    with Cons.prems as show ?thesis unfolding step by auto
  next
    case False
    with Cons.IH [of as' ms' "seen \<or> m \<noteq> 0xff"] Cons.prems as show ?thesis unfolding step by (auto split: if_splits)
  qed
qed simp

lemma same_prefix_masked:
  assumes "cidr_mask n ms" "n \<le> 8 * length ms" "length as = length ms" "length ns = length ms"
  shows "list_all2 (\<lambda>(n, a) m. masked_eq n a m) (zip ns as) ms \<longleftrightarrow> same_prefix n ns as"
  using assms
proof (induction ms arbitrary: n as ns)
  case (Cons m ms)
  obtain a as' b ns' where l: "as = a # as'" "ns = b # ns'" using Cons.prems by (cases as; cases ns) auto
  have m: "\<forall>i < 8. bit m (7 - i) \<longleftrightarrow> i < n" "cidr_mask (n - 8) ms" using Cons.prems(1) by (auto simp: cidr_mask_Cons)
  have "same_prefix n (b # ns') (a # as') \<longleftrightarrow>
      (\<forall>i < 8. i < n \<longrightarrow> bit b (7 - i) = bit a (7 - i)) \<and> same_prefix (n - 8) ns' as'"
  proof
    assume *: "same_prefix n (b # ns') (a # as')"
    have "msb_bit ns' i = msb_bit as' i" if "i < n - 8" for i
      using * that by (auto simp: same_prefix_def msb_bit_Cons dest: spec [of _ "i + 8"])
    with * show "(\<forall>i < 8. i < n \<longrightarrow> bit b (7 - i) = bit a (7 - i)) \<and> same_prefix (n - 8) ns' as'"
      by (auto simp: same_prefix_def msb_bit_Cons)
  qed (auto simp: same_prefix_def msb_bit_Cons)
  also have "(\<forall>i < 8. i < n \<longrightarrow> bit b (7 - i) = bit a (7 - i)) \<longleftrightarrow> (\<forall>i < 8. bit m (7 - i) \<longrightarrow> bit b (7 - i) = bit a (7 - i))"
    using m(1) by auto
  also have "\<dots> \<longleftrightarrow> masked_eq b a m"
    unfolding byte_masked by (rule msb_order)
  finally show ?case using Cons.IH [OF m(2), of as' ns'] Cons.prems by (auto simp: l)
qed (simp add: same_prefix_def)

lemma ip_constraint_run:
  assumes "length name = 4 \<and> length c = 8 \<or> length name = 16 \<and> length c = 32"
  shows "ip_presented_id_matches_constraint L name c =
    fst (loop L (constraint_octet L) (take (length name) c, drop (length name) c, False) name)"
proof -
  have n: "length c div 2 = length name" "length name \<le> length c" "length c - length name \<le> length name" using assms by auto
  then have "read_all L BadDer
      (and_then (read_bytes_unwrap L (length c div 2)) (\<lambda>address.
       and_then (read_bytes_unwrap L (length c div 2)) (\<lambda>mask. ok (address, mask)))) c =
     Ok (take (length name) c, drop (length name) c)"
    using n by (simp add: run_simps read_bytes_unwrap_def)
  with assms show ?thesis by (simp add: ip_presented_id_matches_constraint_def run_simps)
qed

lemma ip_constraint_cidr:
  assumes len: "length name = 4 \<and> length c = 8 \<or> length name = 16 \<and> length c = 32"
    and mask: "cidr_mask n (drop (length name) c)" "n \<le> 8 * length name"
  shows "ip_presented_id_matches_constraint L name c = Ok (same_prefix n name (take (length name) c))"
proof -
  let ?a = "take (length name) c" and ?m = "drop (length name) c"
  have l: "length ?a = length name" "length ?m = length name" "name \<noteq> []" using len by auto
  have "mask_ok False ?m" unfolding mask_ok_cidr using mask l(2) by metis
  then show ?thesis
    using constraint_loop_run [OF l, of False] same_prefix_masked [OF mask(1), of ?a name] mask(2) l
    by (simp add: ip_constraint_run [OF len])
qed

lemma ip_constraint_bad_mask:
  assumes len: "length name = 4 \<and> length c = 8 \<or> length name = 16 \<and> length c = 32"
    and mask: "\<not> (\<exists>n \<le> 8 * length name. cidr_mask n (drop (length name) c))"
  shows "ip_presented_id_matches_constraint L name c \<in> {Ok False, Err InvalidNetworkMaskConstraint}"
proof -
  let ?a = "take (length name) c" and ?m = "drop (length name) c"
  have l: "length ?a = length name" "length ?m = length name" "name \<noteq> []" using len by auto
  have "\<not> mask_ok False ?m" unfolding mask_ok_cidr l(2) by (rule mask)
  with constraint_loop_run [OF l, of False] show ?thesis by (simp add: ip_constraint_run [OF len])
qed

lemma ip_constraint_lengths:
  "length name = 4 \<and> length c = 32 \<or> length name = 16 \<and> length c = 8 \<Longrightarrow>
    ip_presented_id_matches_constraint L name c = Ok False"
  "length name = 4 \<or> length name = 16 \<Longrightarrow> length c \<notin> {8, 32} \<Longrightarrow>
    ip_presented_id_matches_constraint L name c = Err InvalidNetworkMaskConstraint"
  "length name \<notin> {4, 16} \<Longrightarrow> ip_presented_id_matches_constraint L name c = Err BadDer"
  by (auto simp: ip_presented_id_matches_constraint_def)

section \<open>Properties\<close>

text \<open>C18: the match of an address with an address-and-mask constraint. With a mask of \<open>n\<close> ones followed by zeros
  the answer is whether the first \<open>n\<close> bits agree; a mask of any other form never lets an address match.
  An address never matches a constraint of the other version, other lengths are errors, and
  nothing panics.\<close>

theorem ip_constraint_matching:
  assumes "untrusted_reader U rest later"
  shows "(length name = 4 \<and> length c = 8 \<or> length name = 16 \<and> length c = 32 \<longrightarrow>
      (\<forall>n \<le> 8 * length name. cidr_mask n (drop (length name) c) \<longrightarrow>
        ip_presented_id_matches_constraint U name c = Ok (same_prefix n name (take (length name) c))) \<and>
      ((\<nexists>n. n \<le> 8 * length name \<and> cidr_mask n (drop (length name) c)) \<longrightarrow>
        ip_presented_id_matches_constraint U name c \<in> {Ok False, Err InvalidNetworkMaskConstraint})) \<and>
    (length name = 4 \<and> length c = 32 \<or> length name = 16 \<and> length c = 8 \<longrightarrow>
      ip_presented_id_matches_constraint U name c = Ok False) \<and>
    ((length name = 4 \<or> length name = 16) \<and> length c \<notin> {8, 32} \<longrightarrow>
      ip_presented_id_matches_constraint U name c = Err InvalidNetworkMaskConstraint) \<and>
    (length name \<notin> {4, 16} \<longrightarrow> ip_presented_id_matches_constraint U name c = Err BadDer)"
  unfolding untrusted_reader.ip_presented_id_matches_constraint_indep [OF assms]
  using ip_constraint_cidr [of name c] ip_constraint_bad_mask [of name c] ip_constraint_lengths
  by blast

theorem ip_constraint_matching_witness:
  "ip_presented_id_matches_constraint list_reader [192, 0, 2, 77] [192, 0, 2, 0, 255, 255, 255, 0] = Ok True"
proof -
  have ones: "bit (0xff :: u8) (7 - i)" if "i < 8" for i using byte_ones_bits [of "0xff"] that by simp
  have block: "cidr_mask (n + 8) (0xff # ms)" if "cidr_mask n ms" for n ms
    using that ones unfolding cidr_mask_Cons diff_add_inverse2 by auto
  have "mask_ok True [0]" by code_simp
  then have "cidr_mask (0 + 8 + 8 + 8) [255, 255, 255, 0]" unfolding mask_ok_zero by (intro block)
  then have "cidr_mask 24 [255, 255, 255, 0]" by (simp only: add_0 numeral_plus_numeral arith_simps)
  moreover have "same_prefix 24 [192, 0, 2, 77] [192, 0, 2, 0]" by (auto simp: same_prefix_def msb_bit_Cons)
  ultimately show ?thesis
    using ip_constraint_matching [OF lr.untrusted_reader_axioms, of "[192, 0, 2, 77]" "[192, 0, 2, 0, 255, 255, 255, 0]"]
    by (auto dest!: spec [of _ 24])
qed

text \<open>C29: an address of a certificate matches the address asked for exactly when they are the same four or sixteen
  octets; the two readers never run out of step.\<close>

theorem ip_reference_matching:
  assumes "untrusted_reader U rest later"
  shows "ip_presented_id_matches_reference_id U p r = Ok (p = r \<and> (length p = 4 \<or> length p = 16))"
  unfolding untrusted_reader.ip_presented_id_matches_reference_id_indep [OF assms] by (rule ip_reference_run)

theorem ip_reference_matching_witness:
  "ip_presented_id_matches_reference_id list_reader [127, 0, 0, 1] [127, 0, 0, 1] = Ok True"
  using ip_reference_matching [OF lr.untrusted_reader_axioms, of "[127, 0, 0, 1]" "[127, 0, 0, 1]"] by simp

end
