(* ===== verification/Subject_Name.thy ===== *)
theory Subject_Name
  imports Cert Dns_Match Ip_Text Ip_Block
begin

text \<open>
  The names of a certificate (\<^verbatim>\<open>src/subject_name/verify.rs\<close>, \<^verbatim>\<open>src/subject_name/name.rs\<close>): general names,
  the iterator over the names of a certificate, the verification of a certificate for a subject name,
  and name constraints.
\<close>

unbundle bit_operations_syntax

section \<open>General names\<close>

datatype GeneralName =
    GN_DnsName bytes
  | GN_DirectoryName bytes
  | GN_IpAddress bytes
  | GN_UniformResourceIdentifier bytes
  | GN_Unsupported u8

definition general_name_from_der :: "'r untrusted \<Rightarrow> ('r, GeneralName) parser" where
  "general_name_from_der U =
    (let OTHER_NAME_TAG = CONTEXT_SPECIFIC OR CONSTRUCTED OR 0;
         RFC822_NAME_TAG = CONTEXT_SPECIFIC OR 1;
         DNS_NAME_TAG = CONTEXT_SPECIFIC OR 2;
         X400_ADDRESS_TAG = CONTEXT_SPECIFIC OR CONSTRUCTED OR 3;
         DIRECTORY_NAME_TAG = CONTEXT_SPECIFIC OR CONSTRUCTED OR 4;
         EDI_PARTY_NAME_TAG = CONTEXT_SPECIFIC OR CONSTRUCTED OR 5;
         UNIFORM_RESOURCE_IDENTIFIER_TAG = CONTEXT_SPECIFIC OR 6;
         IP_ADDRESS_TAG = CONTEXT_SPECIFIC OR 7;
         REGISTERED_ID_TAG = CONTEXT_SPECIFIC OR 8 in
     and_then (read_tag_and_get_value U) (\<lambda>(tag, value).
       if tag = DNS_NAME_TAG then ok (GN_DnsName value)
       else if tag = DIRECTORY_NAME_TAG then ok (GN_DirectoryName value)
       else if tag = IP_ADDRESS_TAG then ok (GN_IpAddress value)
       else if tag = UNIFORM_RESOURCE_IDENTIFIER_TAG then ok (GN_UniformResourceIdentifier value)
       else if tag \<in> {OTHER_NAME_TAG, RFC822_NAME_TAG, X400_ADDRESS_TAG, EDI_PARTY_NAME_TAG, REGISTERED_ID_TAG}
       then ok (GN_Unsupported (tag AND NOT (CONTEXT_SPECIFIC OR CONSTRUCTED)))
       else of_result (Err BadDer)))"

definition COMMON_NAME :: bytes where "COMMON_NAME = [85, 4, 3]"

text \<open>The \<^verbatim>\<open>while\<close> loop over the attributes of a relative distinguished name.\<close>

definition common_name_attributes :: "'r untrusted \<Rightarrow> ('r, bytes option) parser" where
  "common_name_attributes U =
    loop U (\<lambda>_.
      and_then (at_end U) (\<lambda>e.
        if e then ok (Inr None)
        else and_then (expect_tag U Tag_OID) (\<lambda>name_oid.
          if name_oid = COMMON_NAME then
            and_then (expect_tag U Tag_UTF8String) (\<lambda>value. ok (Inr (Some value)))
          else and_then (read_tag_and_get_value U) (\<lambda>_. ok (Inl ()))))) ()"

definition common_name :: "'r untrusted \<Rightarrow> bytes \<Rightarrow> bytes option result" where
  "common_name U input =
    fst (nested U Tag_Set (TrailingData TypeId_CommonNameOuter)
      (nested U Tag_Sequence (TrailingData TypeId_CommonNameInner) (common_name_attributes U))
      (u_new U input))"

section \<open>The names of a certificate\<close>

datatype SubjectCommonNameContents = CN_DnsName | CN_Ignore

record 'r NameIterator =
  it_subject_alt_name :: "'r option"
  it_subject_directory_name :: "bytes option"
  it_subject_common_name :: "bytes option"

definition name_iterator_new ::
    "'r untrusted \<Rightarrow> bytes option \<Rightarrow> bytes option \<Rightarrow> SubjectCommonNameContents \<Rightarrow> 'r NameIterator" where
  "name_iterator_new U subj subject_alt_name contents =
    (let (subject_directory_name, subject_common_name) =
       (case (subj, contents) of
          (Some input, CN_DnsName) \<Rightarrow> (Some input, Some input)
        | (Some input, CN_Ignore) \<Rightarrow> (Some input, None)
        | (None, _) \<Rightarrow> (None, None)) in
     \<lparr>it_subject_alt_name = map_option (u_new U) subject_alt_name,
      it_subject_directory_name = subject_directory_name,
      it_subject_common_name = subject_common_name\<rparr>)"

text \<open>The part of \<^verbatim>\<open>next\<close> behind the alternative names.\<close>

definition name_iterator_subject ::
    "'r untrusted \<Rightarrow> 'r NameIterator \<Rightarrow> GeneralName result option \<times> 'r NameIterator" where
  "name_iterator_subject U self =
    (case it_subject_directory_name self of
       Some subject_directory_name \<Rightarrow>
         (Some (Ok (GN_DirectoryName subject_directory_name)), self\<lparr>it_subject_directory_name := None\<rparr>)
     | None \<Rightarrow>
         (case it_subject_common_name self of
            Some subject_common_name \<Rightarrow>
              ((case common_name U subject_common_name of
                  Ok (Some cn) \<Rightarrow> Some (Ok (GN_DnsName cn))
                | Ok None \<Rightarrow> None
                | Err err \<Rightarrow> Some (Err err)
                | Panic \<Rightarrow> Some Panic
                | Diverge \<Rightarrow> Some Diverge), self\<lparr>it_subject_common_name := None\<rparr>)
          | None \<Rightarrow> (None, self)))"

definition name_iterator_next ::
    "'r untrusted \<Rightarrow> 'r NameIterator \<Rightarrow> GeneralName result option \<times> 'r NameIterator" where
  "name_iterator_next U self =
    (case it_subject_alt_name self of
       Some subject_alt_name \<Rightarrow>
         if \<not> u_at_end U subject_alt_name then
           (case general_name_from_der U subject_alt_name of
              (Ok name, san) \<Rightarrow> (Some (Ok name), self\<lparr>it_subject_alt_name := Some san\<rparr>)
            | (err, _) \<Rightarrow>
                (Some err, \<lparr>it_subject_alt_name = None, it_subject_directory_name = None,
                            it_subject_common_name = None\<rparr>))
         else name_iterator_subject U (self\<lparr>it_subject_alt_name := None\<rparr>)
     | None \<Rightarrow> name_iterator_subject U self)"

text \<open>
  \<^verbatim>\<open>Iterator::find_map\<close> with a closure that may update captured variables \<open>s\<close>. The fuel is three more
  than the number of octets of the alternative names: every name takes at least one octet, and the
  subject adds at most two.
\<close>

fun find_map_loop ::
    "nat \<Rightarrow> 'r untrusted \<Rightarrow> (GeneralName result \<Rightarrow> 's \<Rightarrow> ('a option \<times> 's) result) \<Rightarrow> 's \<Rightarrow> 'r NameIterator
     \<Rightarrow> ('a option \<times> 's) result" where
  "find_map_loop 0 U f s it = Diverge"
| "find_map_loop (Suc fuel) U f s it =
    (case name_iterator_next U it of
       (None, _) \<Rightarrow> Ok (None, s)
     | (Some item, it') \<Rightarrow>
         res_bind (f item s) (\<lambda>(x, s').
           case x of Some y \<Rightarrow> Ok (Some y, s') | None \<Rightarrow> find_map_loop fuel U f s' it'))"

definition find_map ::
    "'r untrusted \<Rightarrow> (GeneralName result \<Rightarrow> 's \<Rightarrow> ('a option \<times> 's) result) \<Rightarrow> 's \<Rightarrow> 'r NameIterator
     \<Rightarrow> ('a option \<times> 's) result" where
  "find_map U f s it =
    find_map_loop
      (3 + (case it_subject_alt_name it of None \<Rightarrow> 0 | Some r \<Rightarrow> length (fst (u_read_bytes_to_end U r)))) U f s it"

section \<open>Verification of a subject name\<close>

record EndEntityCert =
  inner :: Cert

datatype SubjectNameRef = SN_DnsName DnsNameRef | SN_IpAddress IpAddrRef

definition verify_dns_name_closure ::
    "'r untrusted \<Rightarrow> bytes \<Rightarrow> GeneralName result \<Rightarrow> unit \<Rightarrow> (unit result option \<times> unit) result" where
  "verify_dns_name_closure U dns_name item s =
    (case item of
       Err err \<Rightarrow> Ok (Some (Err err), s)
     | Panic \<Rightarrow> Panic
     | Diverge \<Rightarrow> Diverge
     | Ok name \<Rightarrow>
         (case name of
            GN_DnsName presented_id \<Rightarrow>
              (case presented_id_matches_reference_id U presented_id dns_name of
                 Ok matched \<Rightarrow> Ok (if matched then Some (Ok ()) else None, s)
               | Err e \<Rightarrow> Ok (if e = MalformedDnsIdentifier then None else Some (Err e), s)
               | Panic \<Rightarrow> Panic
               | Diverge \<Rightarrow> Diverge)
          | _ \<Rightarrow> Ok (None, s)))"

definition verify_cert_dns_name :: "'r untrusted \<Rightarrow> EndEntityCert \<Rightarrow> DnsNameRef \<Rightarrow> unit result" where
  "verify_cert_dns_name U ee dns_name =
    (let cert = cert_body (inner ee) in
     res_bind (dns_name_ref_into_str dns_name) (\<lambda>dns_name.
       res_bind
         (find_map U (verify_dns_name_closure U dns_name) ()
           (name_iterator_new U (Some (cert_subject cert)) (cert_subject_alt_name cert) CN_Ignore))
         (\<lambda>(found, _). case found of Some r \<Rightarrow> r | None \<Rightarrow> Err CertNotValidForName)))"

definition verify_ip_address_closure ::
    "'r untrusted \<Rightarrow> bytes \<Rightarrow> GeneralName result \<Rightarrow> unit \<Rightarrow> (unit result option \<times> unit) result" where
  "verify_ip_address_closure U ip_address item s =
    (case item of
       Err err \<Rightarrow> Ok (Some (Err err), s)
     | Panic \<Rightarrow> Panic
     | Diverge \<Rightarrow> Diverge
     | Ok name \<Rightarrow>
         (case name of
            GN_IpAddress presented_id \<Rightarrow>
              res_bind (ip_presented_id_matches_reference_id U presented_id ip_address) (\<lambda>matched.
                Ok (if matched then Some (Ok ()) else None, s))
          | _ \<Rightarrow> Ok (None, s)))"

definition verify_cert_subject_name :: "'r untrusted \<Rightarrow> EndEntityCert \<Rightarrow> SubjectNameRef \<Rightarrow> unit result" where
  "verify_cert_subject_name U ee subject_name =
    (let verify_ip = (\<lambda>ip_address.
       res_bind
         (find_map U (verify_ip_address_closure U ip_address) ()
           (name_iterator_new U None (cert_subject_alt_name (cert_body (inner ee))) CN_Ignore))
         (\<lambda>(found, _). case found of Some r \<Rightarrow> r | None \<Rightarrow> Err CertNotValidForName)) in
     case subject_name of
       SN_DnsName dns_name \<Rightarrow> verify_cert_dns_name U ee dns_name
     | SN_IpAddress (V4 _ ip_address_octets) \<Rightarrow> verify_ip ip_address_octets
     | SN_IpAddress (V6 _ ip_address_octets) \<Rightarrow> verify_ip ip_address_octets)"

section \<open>Name constraints\<close>

datatype Subtrees = PermittedSubtrees | ExcludedSubtrees

definition parse_subtrees :: "'r untrusted \<Rightarrow> tag \<Rightarrow> ('r, bytes option) parser" where
  "parse_subtrees U subtrees_tag =
    and_then (peek U (tag_u8 subtrees_tag)) (\<lambda>present.
      if \<not> present then ok None
      else and_then (expect_tag U subtrees_tag) (\<lambda>v. ok (Some v)))"

definition general_subtree :: "'r untrusted \<Rightarrow> ('r, GeneralName) parser" where
  "general_subtree U =
    and_then (expect_tag U Tag_Sequence) (\<lambda>v.
      of_result (der_read_all U TypeId_GeneralName (general_name_from_der U) v))"

text \<open>The \<^verbatim>\<open>match (name, base)\<close>; \<open>None\<close> is \<^verbatim>\<open>continue\<close>.\<close>

fun subtree_matches :: "'r untrusted \<Rightarrow> Subtrees \<Rightarrow> GeneralName \<Rightarrow> GeneralName \<Rightarrow> bool result option" where
  "subtree_matches U subtrees (GN_DnsName name) (GN_DnsName base) =
    Some (presented_id_matches_constraint U name base)"
| "subtree_matches U subtrees (GN_DirectoryName _) (GN_DirectoryName _) =
    Some (Ok (case subtrees of PermittedSubtrees \<Rightarrow> False | ExcludedSubtrees \<Rightarrow> True))"
| "subtree_matches U subtrees (GN_IpAddress name) (GN_IpAddress base) =
    Some (ip_presented_id_matches_constraint U name base)"
| "subtree_matches U subtrees (GN_Unsupported name_tag) (GN_Unsupported base_tag) =
    (if name_tag = base_tag then Some (Err NameConstraintViolation) else None)"
| "subtree_matches U subtrees _ _ = None"

text \<open>
  One turn of the \<^verbatim>\<open>while\<close> loop. The state is \<^verbatim>\<open>has_permitted_subtrees_match\<close> and
  \<^verbatim>\<open>has_permitted_subtrees_mismatch\<close>; \<^verbatim>\<open>return Some(Err(e))\<close> is the error \<open>e\<close>.
\<close>

definition check_subtree ::
    "'r untrusted \<Rightarrow> Subtrees \<Rightarrow> GeneralName \<Rightarrow> bool \<times> bool \<Rightarrow> ('r, (bool \<times> bool) + (bool \<times> bool)) parser" where
  "check_subtree U subtrees name s =
    and_then (at_end U) (\<lambda>e.
      if e then ok (Inr s)
      else and_then (general_subtree U) (\<lambda>base.
        case subtree_matches U subtrees name base of
          None \<Rightarrow> ok (Inl s)
        | Some matches \<Rightarrow>
            and_then (of_result matches) (\<lambda>m.
              case subtrees of
                PermittedSubtrees \<Rightarrow> ok (Inl (if m then (True, snd s) else (fst s, True)))
              | ExcludedSubtrees \<Rightarrow> if m then of_result (Err NameConstraintViolation) else ok (Inl s))))"

text \<open>\<open>None\<close> is the constraints' approval, as in the code; \<open>Some (Err e)\<close> a violation.\<close>

definition check_subtrees ::
    "'r untrusted \<Rightarrow> GeneralName \<Rightarrow> Subtrees \<Rightarrow> bytes option \<Rightarrow> unit result option" where
  "check_subtrees U name subtrees constraints =
    (case constraints of
       None \<Rightarrow> None
     | Some constraints \<Rightarrow>
         (case fst (loop U (check_subtree U subtrees name) (False, False) (u_new U constraints)) of
            Ok (has_match, has_mismatch) \<Rightarrow>
              if has_mismatch \<and> \<not> has_match then Some (Err NameConstraintViolation) else None
          | Err err \<Rightarrow> Some (Err err)
          | Panic \<Rightarrow> Some Panic
          | Diverge \<Rightarrow> Some Diverge))"

definition check_presented_id_conforms_to_constraints ::
    "'r untrusted \<Rightarrow> GeneralName \<Rightarrow> bytes option \<Rightarrow> bytes option \<Rightarrow> unit result option" where
  "check_presented_id_conforms_to_constraints U name permitted_subtrees excluded_subtrees =
    (case check_subtrees U name PermittedSubtrees permitted_subtrees of
       Some r \<Rightarrow> Some r
     | None \<Rightarrow> check_subtrees U name ExcludedSubtrees excluded_subtrees)"

definition name_constraints_closure ::
    "'r untrusted \<Rightarrow> bytes option \<Rightarrow> bytes option \<Rightarrow> GeneralName result \<Rightarrow> unit
     \<Rightarrow> (unit result option \<times> unit) result" where
  "name_constraints_closure U permitted_subtrees excluded_subtrees item s =
    (case item of
       Err err \<Rightarrow> Ok (Some (Err err), s)
     | Panic \<Rightarrow> Panic
     | Diverge \<Rightarrow> Diverge
     | Ok name \<Rightarrow>
         Ok (check_presented_id_conforms_to_constraints U name permitted_subtrees excluded_subtrees, s))"

text \<open>The \<^verbatim>\<open>loop\<close> from the certificate down to the end-entity certificate.\<close>

fun check_names_of_chain ::
    "'r untrusted \<Rightarrow> SubjectCommonNameContents \<Rightarrow> bytes option \<Rightarrow> bytes option \<Rightarrow> Cert \<Rightarrow> unit result" where
  "check_names_of_chain U contents permitted_subtrees excluded_subtrees (Cert role f) =
    res_bind
      (find_map U (name_constraints_closure U permitted_subtrees excluded_subtrees) ()
        (name_iterator_new U (Some (cert_subject f)) (cert_subject_alt_name f) contents))
      (\<lambda>(result, _).
        case result of
          Some (Err err) \<Rightarrow> Err err
        | Some Panic \<Rightarrow> Panic
        | Some Diverge \<Rightarrow> Diverge
        | _ \<Rightarrow>
            (case role of
               Ca child_cert \<Rightarrow> check_names_of_chain U contents permitted_subtrees excluded_subtrees child_cert
             | EndEntity \<Rightarrow> Ok ()))"

definition check_name_constraints ::
    "'r untrusted \<Rightarrow> Cert \<Rightarrow> SubjectCommonNameContents \<Rightarrow> ('r, unit) optional_parser" where
  "check_name_constraints U subordinate_certs contents =
    optional (Ok ())
      (and_then (parse_subtrees U Tag_ContextSpecificConstructed0) (\<lambda>permitted_subtrees.
       and_then (parse_subtrees U Tag_ContextSpecificConstructed1) (\<lambda>excluded_subtrees.
         of_result (check_names_of_chain U contents permitted_subtrees excluded_subtrees subordinate_certs))))"

section \<open>Listing the DNS names\<close>

definition list_dns_names_closure ::
    "'r untrusted \<Rightarrow> GeneralName result \<Rightarrow> GeneralDnsNameRef list \<Rightarrow> (error option \<times> GeneralDnsNameRef list) result" where
  "list_dns_names_closure U item names =
    (case item of
       Err err \<Rightarrow> Ok (Some err, names)
     | Panic \<Rightarrow> Panic
     | Diverge \<Rightarrow> Diverge
     | Ok name \<Rightarrow>
         (case name of
            GN_DnsName presented_id \<Rightarrow>
              res_bind (dns_name_ref_try_from_ascii U presented_id) (\<lambda>d.
                case d of
                  Some n \<Rightarrow> Ok (None, names @ [General_DnsName n])
                | None \<Rightarrow>
                    res_bind (wildcard_try_from_ascii U presented_id) (\<lambda>w.
                      Ok (None, case w of Some n \<Rightarrow> names @ [General_Wildcard n] | None \<Rightarrow> names)))
          | _ \<Rightarrow> Ok (None, names)))"

definition list_cert_dns_names :: "'r untrusted \<Rightarrow> EndEntityCert \<Rightarrow> GeneralDnsNameRef list result" where
  "list_cert_dns_names U ee =
    (let cert = cert_body (inner ee) in
     res_bind
       (find_map U (list_dns_names_closure U) []
         (name_iterator_new U (Some (cert_subject cert)) (cert_subject_alt_name cert) CN_DnsName))
       (\<lambda>(result, names). case result of Some err \<Rightarrow> Err err | None \<Rightarrow> Ok names))"

section \<open>Subject names given as text\<close>

text \<open>\<open>None\<close> is \<^verbatim>\<open>Err(InvalidSubjectNameError)\<close>.\<close>

definition subject_name_ref_try_from_ascii :: "'r untrusted \<Rightarrow> bytes \<Rightarrow> SubjectNameRef option result" where
  "subject_name_ref_try_from_ascii U subject_name =
    res_bind (parse_ipv4_address U subject_name) (\<lambda>v4.
      case v4 of
        Some ip_address \<Rightarrow> Ok (Some (SN_IpAddress ip_address))
      | None \<Rightarrow>
          res_bind (parse_ipv6_address U subject_name) (\<lambda>v6.
            case v6 of
              Some ip_address \<Rightarrow> Ok (Some (SN_IpAddress ip_address))
            | None \<Rightarrow>
                res_bind (dns_name_ref_try_from_ascii U subject_name) (\<lambda>d.
                  Ok (map_option SN_DnsName d))))"

definition subject_name_ref_try_from_ascii_str :: "'r untrusted \<Rightarrow> bytes \<Rightarrow> SubjectNameRef option result" where
  "subject_name_ref_try_from_ascii_str U subject_name = subject_name_ref_try_from_ascii U subject_name"

fun subject_name_ref_from_dns :: "DnsNameRef \<Rightarrow> SubjectNameRef" where
  "subject_name_ref_from_dns (DnsNameRef d) = SN_DnsName (DnsNameRef d)"

fun subject_name_ref_from_ip :: "IpAddrRef \<Rightarrow> SubjectNameRef" where
  "subject_name_ref_from_ip (V4 ip_address octets) = SN_IpAddress (V4 ip_address octets)"
| "subject_name_ref_from_ip (V6 ip_address octets) = SN_IpAddress (V6 ip_address octets)"

fun subject_name_ref_as_ref :: "SubjectNameRef \<Rightarrow> bytes" where
  "subject_name_ref_as_ref (SN_DnsName (DnsNameRef d)) = d"
| "subject_name_ref_as_ref (SN_IpAddress (V4 ip_address _)) = ip_address"
| "subject_name_ref_as_ref (SN_IpAddress (V6 ip_address _)) = ip_address"

section \<open>Independence of the reader\<close>

context untrusted_reader
begin

lemma general_name_from_der_sim [sim_intros]: "follows (general_name_from_der U) (general_name_from_der L)"
  unfolding general_name_from_der_def by (intro sim_intros refl)

lemma common_name_attributes_sim [sim_intros]: "follows (common_name_attributes U) (common_name_attributes L)"
  unfolding common_name_attributes_def by (intro sim_intros refl)

lemma common_name_indep: "common_name U = common_name L"
  unfolding common_name_def fun_eq_iff by (intro allI run_new sim_intros)

abbreviation same_names :: "'r NameIterator \<Rightarrow> bytes NameIterator \<Rightarrow> bool" where
  "same_names it jt \<equiv>
    rel_option (\<lambda>p q. rest p = q) (it_subject_alt_name it) (it_subject_alt_name jt) \<and>
    it_subject_directory_name it = it_subject_directory_name jt \<and>
    it_subject_common_name it = it_subject_common_name jt"

lemma name_iterator_new_sim: "same_names (name_iterator_new U a b c) (name_iterator_new L a b c)"
  by (cases b) (auto simp: name_iterator_new_def rest_new lr.rest_new split: option.split SubjectCommonNameContents.split)

lemma name_iterator_subject_sim:
  assumes "same_names it jt"
  shows "fst (name_iterator_subject U it) = fst (name_iterator_subject L jt) \<and>
    same_names (snd (name_iterator_subject U it)) (snd (name_iterator_subject L jt))"
  using assms by (simp add: name_iterator_subject_def common_name_indep split: option.split)

lemma name_iterator_next_sim:
  assumes "same_names it jt"
  shows "fst (name_iterator_next U it) = fst (name_iterator_next L jt) \<and>
    same_names (snd (name_iterator_next U it)) (snd (name_iterator_next L jt))"
proof (cases "it_subject_alt_name it")
  case None
  with assms have "it_subject_alt_name jt = None" by simp
  with None name_iterator_subject_sim [OF assms] show ?thesis
    by (simp add: name_iterator_next_def)
next
  case (Some r)
  with assms have j: "it_subject_alt_name jt = Some (rest r)" by (auto simp: option_rel_Some1)
  show ?thesis
  proof (cases "rest r = []")
    case True
    have "same_names (it\<lparr>it_subject_alt_name := None\<rparr>) (jt\<lparr>it_subject_alt_name := None\<rparr>)"
      using assms by simp
    from name_iterator_subject_sim [OF this] show ?thesis
      unfolding name_iterator_next_def Some j by (simp add: at_end_law lr.at_end_law True)
  next
    case False
    obtain x r' where x: "general_name_from_der U r = (x, r')" by force
    then have y: "general_name_from_der L (rest r) = (x, rest r')"
      by (rule follows_run [OF general_name_from_der_sim])
    from assms False show ?thesis
      by (cases x) (simp_all add: name_iterator_next_def Some j x y at_end_law lr.at_end_law)
  qed
qed

lemma find_map_loop_sim:
  "same_names it jt \<Longrightarrow> find_map_loop n U f s it = find_map_loop n L f s jt"
proof (induction n arbitrary: it jt s)
  case (Suc n)
  obtain x it' where i: "name_iterator_next U it = (x, it')" by force
  obtain y jt' where j: "name_iterator_next L jt = (y, jt')" by force
  from name_iterator_next_sim [OF Suc.prems] i j have "x = y" and s: "same_names it' jt'" by simp_all
  with i j Suc.IH [OF s] show ?case by (auto split: option.split intro!: res_bind_cong)
qed simp

lemma find_map_sim:
  assumes "same_names it jt"
  shows "find_map U f s it = find_map L f s jt"
proof -
  have "(case it_subject_alt_name it of None \<Rightarrow> 0 | Some r \<Rightarrow> length (fst (u_read_bytes_to_end U r))) =
      (case it_subject_alt_name jt of None \<Rightarrow> 0 | Some r \<Rightarrow> length (fst (u_read_bytes_to_end L r)))"
    using assms by (cases "it_subject_alt_name it")
      (auto simp: option_rel_Some1 to_end_fst lr.to_end_fst)
  with find_map_loop_sim [OF assms] show ?thesis by (simp add: find_map_def)
qed

lemmas find_map_new_sim = find_map_sim [OF name_iterator_new_sim]

lemma verify_cert_dns_name_indep: "verify_cert_dns_name U = verify_cert_dns_name L"
proof -
  have *: "verify_dns_name_closure U = verify_dns_name_closure L"
    unfolding verify_dns_name_closure_def presented_id_matches_indep ..
  show ?thesis unfolding verify_cert_dns_name_def find_map_new_sim * ..
qed

lemma verify_cert_subject_name_indep: "verify_cert_subject_name U = verify_cert_subject_name L"
proof -
  have *: "verify_ip_address_closure U = verify_ip_address_closure L"
    unfolding verify_ip_address_closure_def ip_presented_id_matches_reference_id_indep ..
  show ?thesis unfolding verify_cert_subject_name_def find_map_new_sim verify_cert_dns_name_indep * ..
qed

lemma subtree_matches_indep: "subtree_matches U k n b = subtree_matches L k n b"
  by (cases n; cases b) (simp_all add: presented_id_matches_indep ip_presented_id_matches_constraint_indep)

lemma sim_case_subtrees:
  "sim rest later V p q \<Longrightarrow> sim rest later V p' q' \<Longrightarrow>
    sim rest later V (case k of PermittedSubtrees \<Rightarrow> p | ExcludedSubtrees \<Rightarrow> p')
      (case k of PermittedSubtrees \<Rightarrow> q | ExcludedSubtrees \<Rightarrow> q')"
  by (cases k) simp_all

lemma general_subtree_sim [sim_intros]: "follows (general_subtree U) (general_subtree L)"
  unfolding general_subtree_def by (intro sim_intros refl)

lemma check_subtrees_indep: "check_subtrees U = check_subtrees L"
proof -
  have "follows (check_subtree U k n s) (check_subtree L k n s)" for k n s
    unfolding check_subtree_def subtree_matches_indep
    by (intro sim_intros sim_case_subtrees refl)
  then have "follows (loop U (check_subtree U k n) s) (loop L (check_subtree L k n) s)" for k n s
    by (rule loop_follows)
  from run_new [OF this] show ?thesis
    by (simp add: fun_eq_iff check_subtrees_def split: option.split)
qed

lemma name_constraints_closure_indep: "name_constraints_closure U = name_constraints_closure L"
  unfolding name_constraints_closure_def check_presented_id_conforms_to_constraints_def check_subtrees_indep ..

lemma check_names_of_chain_indep:
  "check_names_of_chain U c p e crt = check_names_of_chain L c p e crt"
  by (induction crt rule: cert_chain_induct)
    (auto simp: name_constraints_closure_indep find_map_new_sim
      intro!: res_bind_cong split: option.split result.split)

lemma check_name_constraints_indep:
  "read_all_optional U err (check_name_constraints U crt c) bs = read_all_optional L err (check_name_constraints L crt c) bs"
  unfolding check_name_constraints_def parse_subtrees_def check_names_of_chain_indep
  by (intro sim_intros refl)

lemma list_cert_dns_names_indep: "list_cert_dns_names U = list_cert_dns_names L"
proof -
  have *: "list_dns_names_closure U = list_dns_names_closure L"
    unfolding list_dns_names_closure_def dns_name_ref_try_from_ascii_def wildcard_try_from_ascii_def
      is_valid_dns_id_indep ..
  show ?thesis unfolding list_cert_dns_names_def find_map_new_sim * ..
qed

lemma subject_name_ref_try_from_ascii_indep:
  "subject_name_ref_try_from_ascii U = subject_name_ref_try_from_ascii L"
  unfolding subject_name_ref_try_from_ascii_def parse_ipv4_address_indep parse_ipv6_address_indep
    dns_name_ref_try_from_ascii_def is_valid_dns_id_indep ..

end

end
