(* ===== verification/Crl.thy ===== *)
theory Crl
  imports Subject_Name Cert_Time
begin

text \<open>
  Certificate revocation lists (\<^verbatim>\<open>src/crl.rs\<close>): the two representations of a list, the entries, their
  extensions, and the issuing distribution point that decides which certificates a list speaks about.
\<close>

unbundle bit_operations_syntax

section \<open>Revocation reasons\<close>

datatype RevocationReason =
    Unspecified
  | KeyCompromise
  | CaCompromise
  | AffiliationChanged
  | Superseded
  | CessationOfOperation
  | CertificateHold
  | RemoveFromCrl
  | PrivilegeWithdrawn
  | AaCompromise

text \<open>The discriminants.\<close>

fun reason_u8 :: "RevocationReason \<Rightarrow> u8" where
  "reason_u8 Unspecified = 0"
| "reason_u8 KeyCompromise = 1"
| "reason_u8 CaCompromise = 2"
| "reason_u8 AffiliationChanged = 3"
| "reason_u8 Superseded = 4"
| "reason_u8 CessationOfOperation = 5"
| "reason_u8 CertificateHold = 6"
| "reason_u8 RemoveFromCrl = 8"
| "reason_u8 PrivilegeWithdrawn = 9"
| "reason_u8 AaCompromise = 10"

definition revocation_reason_iter :: "RevocationReason list" where
  "revocation_reason_iter =
    [Unspecified, KeyCompromise, CaCompromise, AffiliationChanged, Superseded, CessationOfOperation,
     CertificateHold, RemoveFromCrl, PrivilegeWithdrawn, AaCompromise]"

definition revocation_reason_try_from :: "u8 \<Rightarrow> RevocationReason result" where
  "revocation_reason_try_from value =
    (if value = 0 then Ok Unspecified
     else if value = 1 then Ok KeyCompromise
     else if value = 2 then Ok CaCompromise
     else if value = 3 then Ok AffiliationChanged
     else if value = 4 then Ok Superseded
     else if value = 5 then Ok CessationOfOperation
     else if value = 6 then Ok CertificateHold
     else if value = 8 then Ok RemoveFromCrl
     else if value = 9 then Ok PrivilegeWithdrawn
     else if value = 10 then Ok AaCompromise
     else Err UnsupportedRevocationReason)"

definition revocation_reason_from_der :: "'r untrusted \<Rightarrow> ('r, RevocationReason) parser" where
  "revocation_reason_from_der U =
    and_then (expect_tag U Tag_Enum) (\<lambda>input.
    and_then (of_result (read_all U BadDer (read_byte_or U BadDer) input)) (\<lambda>value.
      of_result (revocation_reason_try_from value)))"

section \<open>Revoked certificates\<close>

record BorrowedRevokedCert =
  serial_number :: bytes
  revocation_date :: Time
  reason_code :: "RevocationReason option"
  invalidity_date :: "Time option"

record OwnedRevokedCert =
  owned_serial_number :: bytes
  owned_revocation_date :: Time
  owned_reason_code :: "RevocationReason option"
  owned_invalidity_date :: "Time option"

definition revoked_cert_borrow :: "OwnedRevokedCert \<Rightarrow> BorrowedRevokedCert" where
  "revoked_cert_borrow self =
    \<lparr>serial_number = owned_serial_number self, revocation_date = owned_revocation_date self,
     reason_code = owned_reason_code self, invalidity_date = owned_invalidity_date self\<rparr>"

definition revoked_cert_to_owned :: "BorrowedRevokedCert \<Rightarrow> OwnedRevokedCert" where
  "revoked_cert_to_owned self =
    \<lparr>owned_serial_number = serial_number self, owned_revocation_date = revocation_date self,
     owned_reason_code = reason_code self, owned_invalidity_date = invalidity_date self\<rparr>"

definition remember_revoked_cert_extension ::
    "'r untrusted \<Rightarrow> BorrowedRevokedCert \<Rightarrow> Extension \<Rightarrow> BorrowedRevokedCert result" where
  "remember_revoked_cert_extension U self extension =
    remember_extension extension (\<lambda>id.
      if id = 21 then
        res_bind (set_extension_once (reason_code self)
            (der_read_all U TypeId_RevocationReason (revocation_reason_from_der U) (ext_value extension)))
          (\<lambda>v. Ok (self\<lparr>reason_code := v\<rparr>))
      else if id = 24 then
        res_bind (set_extension_once (invalidity_date self)
            (read_all U BadDer (time_from_der U) (ext_value extension)))
          (\<lambda>v. Ok (self\<lparr>invalidity_date := v\<rparr>))
      else if id = 29 then Err UnsupportedIndirectCrl
      else res_bind (unsupported extension) (\<lambda>_. Ok self)) self"

text \<open>The \<^verbatim>\<open>loop\<close> over the extensions of an entry.\<close>

definition revoked_cert_extensions :: "'r untrusted \<Rightarrow> BorrowedRevokedCert \<Rightarrow> ('r, BorrowedRevokedCert) parser" where
  "revoked_cert_extensions U =
    loop U (\<lambda>revoked_cert.
      and_then (nested U Tag_Sequence (TrailingData TypeId_RevokedCertificateExtension)
        (and_then (extension_from_der U) (\<lambda>e. of_result (remember_revoked_cert_extension U revoked_cert e))))
        (\<lambda>revoked_cert'. and_then (at_end U) (\<lambda>e. ok (if e then Inr revoked_cert' else Inl revoked_cert'))))"

definition revoked_cert_from_der :: "'r untrusted \<Rightarrow> ('r, BorrowedRevokedCert) parser" where
  "revoked_cert_from_der U =
    nested U Tag_Sequence (TrailingData TypeId_RevokedCertEntry)
      (and_then (map_err (\<lambda>_. InvalidSerialNumber) (lenient_certificate_serial_number U)) (\<lambda>serial.
       and_then (time_from_der U) (\<lambda>date.
         let revoked_cert = \<lparr>serial_number = serial, revocation_date = date, reason_code = None,
               invalidity_date = None\<rparr> in
         and_then (at_end U) (\<lambda>e.
           if e then ok revoked_cert
           else and_then (expect_tag U Tag_Sequence) (\<lambda>ext_seq.
             if ext_seq = [] then ok revoked_cert
             else of_result (fst (revoked_cert_extensions U revoked_cert (u_new U ext_seq))))))))"

section \<open>The issuing distribution point\<close>

record IssuingDistributionPoint =
  idp_distribution_point :: "bytes option"
  only_contains_user_certs :: bool
  only_contains_ca_certs :: bool
  only_some_reasons :: "BitStringFlags option"
  indirect_crl :: bool
  only_contains_attribute_certs :: bool

definition decode_bool :: "'r untrusted \<Rightarrow> bytes \<Rightarrow> bool result" where
  "decode_bool U value =
    fst (and_then (read_byte U) (\<lambda>b.
      and_then (at_end U) (\<lambda>e.
        if \<not> e then of_result (Err BadDer)
        else if b = 0xFF then ok True
        else if b = 0x00 then ok False
        else of_result (Err BadDer))) (u_new U value))"

definition idp_field :: "'r untrusted \<Rightarrow> IssuingDistributionPoint \<Rightarrow> ('r, IssuingDistributionPoint) parser" where
  "idp_field U result =
    (let DISTRIBUTION_POINT_TAG = CONTEXT_SPECIFIC OR CONSTRUCTED;
         ONLY_CONTAINS_USER_CERTS_TAG = CONTEXT_SPECIFIC OR 1;
         ONLY_CONTAINS_CA_CERTS_TAG = CONTEXT_SPECIFIC OR 2;
         ONLY_CONTAINS_SOME_REASONS_TAG = CONTEXT_SPECIFIC OR 3;
         INDIRECT_CRL_TAG = CONTEXT_SPECIFIC OR 4;
         ONLY_CONTAINS_ATTRIBUTE_CERTS_TAG = CONTEXT_SPECIFIC OR 5 in
     and_then (read_tag_and_get_value U) (\<lambda>(tag, value).
       if tag = DISTRIBUTION_POINT_TAG then
         of_result (res_bind (set_extension_once (idp_distribution_point result) (Ok value))
           (\<lambda>v. Ok (result\<lparr>idp_distribution_point := v\<rparr>)))
       else if tag = ONLY_CONTAINS_USER_CERTS_TAG then
         of_result (res_bind (decode_bool U value) (\<lambda>b. Ok (result\<lparr>only_contains_user_certs := b\<rparr>)))
       else if tag = ONLY_CONTAINS_CA_CERTS_TAG then
         of_result (res_bind (decode_bool U value) (\<lambda>b. Ok (result\<lparr>only_contains_ca_certs := b\<rparr>)))
       else if tag = ONLY_CONTAINS_SOME_REASONS_TAG then
         of_result (res_bind (set_extension_once (only_some_reasons result) (bit_string_flags U value))
           (\<lambda>v. Ok (result\<lparr>only_some_reasons := v\<rparr>)))
       else if tag = INDIRECT_CRL_TAG then
         of_result (res_bind (decode_bool U value) (\<lambda>b. Ok (result\<lparr>indirect_crl := b\<rparr>)))
       else if tag = ONLY_CONTAINS_ATTRIBUTE_CERTS_TAG then
         of_result (res_bind (decode_bool U value) (\<lambda>b. Ok (result\<lparr>only_contains_attribute_certs := b\<rparr>)))
       else of_result (Err BadDer)))"

definition idp_names :: "'r untrusted \<Rightarrow> IssuingDistributionPoint \<Rightarrow> DistributionPointName option result" where
  "idp_names U self =
    (case idp_distribution_point self of
       None \<Rightarrow> Ok None
     | Some input \<Rightarrow> res_bind (fst (distribution_point_name_from_der U (u_new U input))) (\<lambda>n. Ok (Some n)))"

definition idp_empty :: IssuingDistributionPoint where
  "idp_empty = \<lparr>idp_distribution_point = None, only_contains_user_certs = False, only_contains_ca_certs = False,
     only_some_reasons = None, indirect_crl = False, only_contains_attribute_certs = False\<rparr>"

definition idp_fields :: "'r untrusted \<Rightarrow> ('r, IssuingDistributionPoint) parser" where
  "idp_fields U =
    loop U (\<lambda>result. and_then (at_end U) (\<lambda>e.
      if e then ok (Inr result) else and_then (idp_field U result) (\<lambda>r. ok (Inl r)))) idp_empty"

definition idp_from_der :: "'r untrusted \<Rightarrow> bytes \<Rightarrow> IssuingDistributionPoint result" where
  "idp_from_der U der =
    res_bind (fst (nested U Tag_Sequence (TrailingData TypeId_IssuingDistributionPoint) (idp_fields U) (u_new U der)))
      (\<lambda>result.
        if only_contains_attribute_certs result then Err MalformedExtensions
        else if indirect_crl result then Err UnsupportedIndirectCrl
        else if only_some_reasons result \<noteq> None then Err UnsupportedRevocationReasonsPartitioning
        else
          (case idp_names U result of
             Ok (Some (FullName _)) \<Rightarrow> Ok result
           | Ok (Some (NameRelativeToCrlIssuer _)) \<Rightarrow> Err UnsupportedCrlIssuingDistributionPoint
           | Ok None \<Rightarrow> Err UnsupportedCrlIssuingDistributionPoint
           | Err _ \<Rightarrow> Err MalformedExtensions
           | Panic \<Rightarrow> Panic
           | Diverge \<Rightarrow> Diverge))"

text \<open>
  \<^verbatim>\<open>uri_name_in_common\<close>. Both iterators are borrowed mutably: what one call reads is gone for the next.
  The inner loop reads the names of the certificate's distribution point, the outer loop those of the
  issuing distribution point; \<^verbatim>\<open>flatten\<close> passes over names that cannot be parsed.
\<close>

definition find_uri :: "'r untrusted \<Rightarrow> bytes \<Rightarrow> ('r, bool) parser" where
  "find_uri U uri =
    loop U (\<lambda>_.
      and_then (at_end U) (\<lambda>e.
        if e then ok (Inr False)
        else and_then (attempt (general_name_from_der U)) (\<lambda>other_name.
          if other_name = Some (GN_UniformResourceIdentifier uri) then ok (Inr True) else ok (Inl ())))) ()"

definition uri_name_turn :: "'r untrusted \<Rightarrow> 'r \<Rightarrow> ('r, 'r + bool) parser" where
  "uri_name_turn U dp_general_names =
    and_then (at_end U) (\<lambda>e.
      if e then ok (Inr False)
      else and_then (attempt (general_name_from_der U)) (\<lambda>name.
        case name of
          None \<Rightarrow> ok (Inl dp_general_names)
        | Some n \<Rightarrow>
            (case n of
               GN_UniformResourceIdentifier uri \<Rightarrow>
                 on_other (find_uri U uri) dp_general_names (\<lambda>found dp_general_names'.
                   if found then ok (Inr True) else ok (Inl dp_general_names'))
             | _ \<Rightarrow> ok (Inl dp_general_names))))"

definition uri_name_in_common :: "'r untrusted \<Rightarrow> 'r \<Rightarrow> ('r, bool) parser" where
  "uri_name_in_common U dp_general_names = loop U (uri_name_turn U) dp_general_names"

text \<open>One turn of the loop over the certificate's distribution points.\<close>

definition authoritative_turn :: "'r untrusted \<Rightarrow> 'r \<Rightarrow> ('r, 'r + bool) parser" where
  "authoritative_turn U idp_general_names =
    and_then (at_end U) (\<lambda>e.
      if e then ok (Inr False)
      else and_then (attempt (crl_distribution_point_from_der U)) (\<lambda>cert_dp.
        case cert_dp of
          None \<Rightarrow> ok (Inr False)
        | Some dp \<Rightarrow>
            if crl_issuer dp \<noteq> None \<or> reasons dp \<noteq> None then ok (Inr False)
            else
              and_then (attempt (of_result (dp_names U dp))) (\<lambda>names.
                case names of
                  None \<Rightarrow> ok (Inr False)
                | Some None \<Rightarrow> ok (Inr False)
                | Some (Some (NameRelativeToCrlIssuer _)) \<Rightarrow> ok (Inr False)
                | Some (Some (FullName general_names)) \<Rightarrow>
                    on_other (uri_name_in_common U (der_iterator_new U general_names)) idp_general_names
                      (\<lambda>found idp_general_names'.
                        if found then ok (Inr True) else ok (Inl idp_general_names')))))"

definition authoritative_for :: "'r untrusted \<Rightarrow> IssuingDistributionPoint \<Rightarrow> Cert \<Rightarrow> bool result" where
  "authoritative_for U self cert =
    (if only_contains_attribute_certs self then Panic
     else if only_contains_ca_certs self \<and> ee_or_ca cert = EndEntity \<or>
             only_contains_user_certs self \<and> ee_or_ca cert \<noteq> EndEntity then Ok False
     else
       (case crl_distribution_points U cert of
          None \<Rightarrow> Ok True
        | Some cert_dps \<Rightarrow>
            (case idp_names U self of
               Ok (Some (FullName general_names)) \<Rightarrow>
                 fst (loop U (authoritative_turn U) (der_iterator_new U general_names) cert_dps)
             | Panic \<Rightarrow> Panic
             | Diverge \<Rightarrow> Diverge
             | _ \<Rightarrow> Ok False)))"

section \<open>The borrowed list\<close>

record BorrowedCertRevocationList =
  bcrl_signed_data :: SignedData
  bcrl_issuer :: bytes
  bcrl_issuing_distribution_point :: "bytes option"
  bcrl_revoked_certs :: bytes

definition remember_crl_extension ::
    "'r untrusted \<Rightarrow> BorrowedCertRevocationList \<Rightarrow> Extension \<Rightarrow> BorrowedCertRevocationList result" where
  "remember_crl_extension U self extension =
    remember_extension extension (\<lambda>id.
      if id = 20 then
        res_bind
          (read_all U InvalidCrlNumber
            (and_then (map_err (\<lambda>_. InvalidCrlNumber) (nonnegative_integer U)) (\<lambda>crl_number.
              if length crl_number \<le> 20 then ok crl_number else of_result (Err InvalidCrlNumber)))
            (ext_value extension))
          (\<lambda>_. Ok self)
      else if id = 27 then Err UnsupportedDeltaCrl
      else if id = 28 then
        res_bind (set_extension_once (bcrl_issuing_distribution_point self) (Ok (ext_value extension)))
          (\<lambda>v. Ok (self\<lparr>bcrl_issuing_distribution_point := v\<rparr>))
      else if id = 35 then Ok self
      else res_bind (unsupported extension) (\<lambda>_. Ok self)) self"

definition crl_tbs :: "'r untrusted \<Rightarrow> SignedData \<Rightarrow> ('r, BorrowedCertRevocationList) parser" where
  "crl_tbs U signed_data =
    and_then (u8_from_der U) (\<lambda>version.
      if version \<noteq> 1 then of_result (Err UnsupportedCrlVersion)
      else and_then (expect_tag U Tag_Sequence) (\<lambda>signature.
        if signature \<noteq> algorithm signed_data then of_result (Err SignatureAlgorithmMismatch)
        else
          and_then (expect_tag U Tag_Sequence) (\<lambda>issuer.
          and_then (time_from_der U) (\<lambda>_.
          and_then (time_from_der U) (\<lambda>_.
          and_then (peek U (tag_u8 Tag_Sequence)) (\<lambda>present.
          and_then
            (if present then expect_tag_and_get_value_limited U Tag_Sequence MAX_DER_SIZE else ok [])
            (\<lambda>revoked_certs.
              let crl = \<lparr>bcrl_signed_data = signed_data, bcrl_issuer = issuer,
                    bcrl_issuing_distribution_point = None, bcrl_revoked_certs = revoked_certs\<rparr> in
              nested U Tag_ContextSpecificConstructed0 MalformedExtensions
                (nested_of_mut U Tag_Sequence Tag_Sequence (TrailingData TypeId_CertRevocationListExtension)
                  (\<lambda>crl. and_then (extension_from_der U) (\<lambda>e. of_result (remember_crl_extension U crl e)))
                  crl))))))))"

definition crl_from_reader :: "'r untrusted \<Rightarrow> ('r, BorrowedCertRevocationList) parser" where
  "crl_from_reader U =
    and_then
      (nested_limited U Tag_Sequence (TrailingData TypeId_CertRevocationList)
        (signed_data_from_der U MAX_DER_SIZE) MAX_DER_SIZE)
      (\<lambda>(tbs_cert_list, signed_data).
        and_then (of_result (read_all U BadDer (crl_tbs U signed_data) tbs_cert_list)) (\<lambda>crl.
          case bcrl_issuing_distribution_point crl of
            None \<Rightarrow> ok crl
          | Some der \<Rightarrow> and_then (of_result (idp_from_der U der)) (\<lambda>_. ok crl)))"

definition crl_from_der :: "'r untrusted \<Rightarrow> bytes \<Rightarrow> BorrowedCertRevocationList result" where
  "crl_from_der U crl_der = der_read_all U TypeId_CertRevocationList (crl_from_reader U) crl_der"

definition crl_into_iter :: "'r untrusted \<Rightarrow> BorrowedCertRevocationList \<Rightarrow> 'r" where
  "crl_into_iter U self = der_iterator_new U (bcrl_revoked_certs self)"

definition borrowed_find_serial ::
    "'r untrusted \<Rightarrow> BorrowedCertRevocationList \<Rightarrow> bytes \<Rightarrow> BorrowedRevokedCert option result" where
  "borrowed_find_serial U self sn =
    fst (loop U (\<lambda>_.
      and_then (at_end U) (\<lambda>e.
        if e then ok (Inr None)
        else and_then (revoked_cert_from_der U) (\<lambda>revoked_cert.
          if serial_number revoked_cert = sn then ok (Inr (Some revoked_cert)) else ok (Inl ()))))
      () (crl_into_iter U self))"

section \<open>The owned list\<close>

text \<open>\<^verbatim>\<open>BTreeMap<Vec<u8>, OwnedRevokedCert>\<close> is a finite map.\<close>

record OwnedCertRevocationList =
  ocrl_revoked_certs :: "bytes \<rightharpoonup> OwnedRevokedCert"
  ocrl_issuer :: bytes
  ocrl_issuing_distribution_point :: "bytes option"
  ocrl_signed_data :: OwnedSignedData

text \<open>\<^verbatim>\<open>collect::<Result<Vec<_>, _>>()\<close> over the entries, in order.\<close>

definition collect_revoked_certs :: "'r untrusted \<Rightarrow> ('r, BorrowedRevokedCert list) parser" where
  "collect_revoked_certs U =
    loop U (\<lambda>certs.
      and_then (at_end U) (\<lambda>e.
        if e then ok (Inr certs)
        else and_then (revoked_cert_from_der U) (\<lambda>c. ok (Inl (certs @ [c]))))) []"

definition crl_to_owned :: "'r untrusted \<Rightarrow> BorrowedCertRevocationList \<Rightarrow> OwnedCertRevocationList result" where
  "crl_to_owned U self =
    res_bind (fst (collect_revoked_certs U (crl_into_iter U self))) (\<lambda>certs.
      Ok \<lparr>ocrl_revoked_certs =
            foldl (\<lambda>m c. m(serial_number c \<mapsto> revoked_cert_to_owned c)) Map.empty certs,
          ocrl_issuer = bcrl_issuer self,
          ocrl_issuing_distribution_point = bcrl_issuing_distribution_point self,
          ocrl_signed_data = signed_data_to_owned (bcrl_signed_data self)\<rparr>)"

definition owned_find_serial ::
    "OwnedCertRevocationList \<Rightarrow> bytes \<Rightarrow> BorrowedRevokedCert option result" where
  "owned_find_serial self sn = Ok (map_option revoked_cert_borrow (ocrl_revoked_certs self sn))"

section \<open>The trait CertRevocationList\<close>

datatype CertRevocationList =
    Owned_Crl OwnedCertRevocationList
  | Borrowed_Crl BorrowedCertRevocationList

fun crl_list_issuer :: "CertRevocationList \<Rightarrow> bytes" where
  "crl_list_issuer (Owned_Crl c) = ocrl_issuer c"
| "crl_list_issuer (Borrowed_Crl c) = bcrl_issuer c"

fun issuing_distribution_point :: "CertRevocationList \<Rightarrow> bytes option" where
  "issuing_distribution_point (Owned_Crl c) = ocrl_issuing_distribution_point c"
| "issuing_distribution_point (Borrowed_Crl c) = bcrl_issuing_distribution_point c"

fun find_serial :: "'r untrusted \<Rightarrow> CertRevocationList \<Rightarrow> bytes \<Rightarrow> BorrowedRevokedCert option result" where
  "find_serial U (Owned_Crl c) sn = owned_find_serial c sn"
| "find_serial U (Borrowed_Crl c) sn = borrowed_find_serial U c sn"

fun crl_verify_signature ::
    "'r untrusted \<Rightarrow> CertRevocationList \<Rightarrow> SignatureVerificationAlgorithm list \<Rightarrow> bytes \<Rightarrow> unit result" where
  "crl_verify_signature U (Owned_Crl c) algs issuer_spki =
    verify_signed_data U algs issuer_spki (signed_data_borrow (ocrl_signed_data c))"
| "crl_verify_signature U (Borrowed_Crl c) algs issuer_spki =
    verify_signed_data U algs issuer_spki (bcrl_signed_data c)"

section \<open>Independence of the reader\<close>

context untrusted_reader
begin

lemma revocation_reason_from_der_sim [sim_intros]:
  "follows (revocation_reason_from_der U) (revocation_reason_from_der L)"
  unfolding revocation_reason_from_der_def by (intro sim_intros refl)

lemma remember_revoked_cert_extension_indep:
  "remember_revoked_cert_extension U c e = remember_revoked_cert_extension L c e"
proof -
  have *: "der_read_all U t (revocation_reason_from_der U) v = der_read_all L t (revocation_reason_from_der L) v"
    and **: "read_all U err (time_from_der U) v = read_all L err (time_from_der L) v" for t v err
    by (intro sim_intros)+
  show ?thesis unfolding remember_revoked_cert_extension_def * ** ..
qed

lemma revoked_cert_extensions_sim [sim_intros]:
  "follows (revoked_cert_extensions U c) (revoked_cert_extensions L c)"
  unfolding revoked_cert_extensions_def remember_revoked_cert_extension_indep by (intro sim_intros refl)

lemma revoked_cert_from_der_sim [sim_intros]: "follows (revoked_cert_from_der U) (revoked_cert_from_der L)"
  unfolding revoked_cert_from_der_def run_new [OF revoked_cert_extensions_sim] by (intro sim_intros refl)

lemma decode_bool_indep: "decode_bool U v = decode_bool L v"
  unfolding decode_bool_def by (intro run_new sim_intros refl)

lemma idp_field_sim [sim_intros]: "follows (idp_field U s) (idp_field L s)"
  unfolding idp_field_def decode_bool_indep bit_string_flags_indep by (intro sim_intros refl)

lemma idp_fields_sim [sim_intros]: "follows (idp_fields U) (idp_fields L)"
  unfolding idp_fields_def by (intro sim_intros refl)

lemma idp_names_indep: "idp_names U = idp_names L"
  unfolding idp_names_def run_new [OF distribution_point_name_from_der_sim] ..

lemma idp_from_der_indep: "idp_from_der U = idp_from_der L"
proof -
  have *: "fst (nested U t e (idp_fields U) (u_new U der)) = fst (nested L t e (idp_fields L) (u_new L der))" for t e der
    by (intro run_new sim_intros)
  show ?thesis unfolding idp_from_der_def idp_names_indep * ..
qed

lemma find_uri_sim [sim_intros]: "follows (find_uri U u) (find_uri L u)"
  unfolding find_uri_def by (intro sim_intros refl)

lemma sim_case_general_name:
  assumes "\<And>u. n = GN_UniformResourceIdentifier u \<Longrightarrow> sim rest later V (f u) (g u)" "sim rest later V p q"
  shows "sim rest later V (case n of GN_UniformResourceIdentifier u \<Rightarrow> f u | _ \<Rightarrow> p)
    (case n of GN_UniformResourceIdentifier u \<Rightarrow> g u | _ \<Rightarrow> q)"
  using assms by (cases n) simp_all

lemma uri_name_turn_sim:
  assumes "rest s = t"
  shows "sim rest later (rel_sum (\<lambda>p q. rest p = q) (=)) (uri_name_turn U s) (uri_name_turn L t)"
  unfolding uri_name_turn_def
  by (intro sim_intros sim_case_general_name on_other_sim) (auto simp: assms)

lemma uri_name_in_common_sim:
  "rest s = t \<Longrightarrow> follows (uri_name_in_common U s) (uri_name_in_common L t)"
  unfolding uri_name_in_common_def by (rule loop_sim [where S = "\<lambda>p q. rest p = q", OF uri_name_turn_sim])

lemma sim_case_point_name:
  "sim rest later V p q \<Longrightarrow> (\<And>n. sim rest later V (f n) (g n)) \<Longrightarrow>
    sim rest later V (case x of NameRelativeToCrlIssuer n \<Rightarrow> p | FullName n \<Rightarrow> f n)
      (case x of NameRelativeToCrlIssuer n \<Rightarrow> q | FullName n \<Rightarrow> g n)"
  by (cases x) simp_all

lemma authoritative_turn_sim:
  assumes "rest s = t"
  shows "sim rest later (rel_sum (\<lambda>p q. rest p = q) (=)) (authoritative_turn U s) (authoritative_turn L t)"
  unfolding authoritative_turn_def dp_names_indep der_iterator_new_def
  by (intro sim_intros sim_case_point_name on_other_sim uri_name_in_common_sim)
    (auto simp: assms rest_new lr.rest_new)

lemma authoritative_for_indep: "authoritative_for U idp crt = authoritative_for L idp crt"
proof -
  have "follows (loop U (authoritative_turn U) (der_iterator_new U names)) (loop L (authoritative_turn L) (der_iterator_new L names))" for names
    by (rule loop_sim [where S = "\<lambda>p q. rest p = q", OF authoritative_turn_sim])
      (simp_all add: der_iterator_new_def rest_new lr.rest_new)
  from run_new [OF this]
  have *: "fst (loop U (authoritative_turn U) (der_iterator_new U names) (der_iterator_new U bs)) =
     fst (loop L (authoritative_turn L) (der_iterator_new L names) (der_iterator_new L bs))" for names bs
    by (simp add: der_iterator_new_def)
  show ?thesis
    unfolding authoritative_for_def crl_distribution_points_def idp_names_indep
    by (cases "cert_crl_distribution_points (cert_body crt)") (simp_all only: option.map option.case *)
qed

lemma remember_crl_extension_indep: "remember_crl_extension U c e = remember_crl_extension L c e"
proof -
  have *: "read_all U e1 (and_then (map_err f (nonnegative_integer U)) (\<lambda>n. if length n \<le> 20 then ok n else of_result (Err e2))) v =
    read_all L e1 (and_then (map_err f (nonnegative_integer L)) (\<lambda>n. if length n \<le> 20 then ok n else of_result (Err e2))) v" for e1 e2 f v
    by (intro sim_intros refl)
  show ?thesis unfolding remember_crl_extension_def * ..
qed

lemma crl_tbs_sim [sim_intros]: "follows (crl_tbs U d) (crl_tbs L d)"
  unfolding crl_tbs_def remember_crl_extension_indep by (intro sim_intros refl)

lemma crl_from_der_indep: "crl_from_der U = crl_from_der L"
proof -
  have "follows (crl_from_reader U) (crl_from_reader L)"
    unfolding crl_from_reader_def idp_from_der_indep by (intro sim_intros refl)
  then show ?thesis unfolding crl_from_der_def fun_eq_iff by (intro allI sim_intros)
qed

lemma borrowed_find_serial_indep: "borrowed_find_serial U = borrowed_find_serial L"
  unfolding borrowed_find_serial_def crl_into_iter_def der_iterator_new_def fun_eq_iff
  by (intro allI run_new sim_intros refl)

lemma collect_revoked_certs_sim: "follows (collect_revoked_certs U) (collect_revoked_certs L)"
  unfolding collect_revoked_certs_def by (intro sim_intros refl)

lemma crl_to_owned_indep: "crl_to_owned U = crl_to_owned L"
  unfolding crl_to_owned_def crl_into_iter_def der_iterator_new_def run_new [OF collect_revoked_certs_sim] ..

lemma find_serial_indep: "find_serial U c sn = find_serial L c sn"
  by (cases c) (simp_all add: borrowed_find_serial_indep)

lemma crl_verify_signature_indep: "crl_verify_signature U c a k = crl_verify_signature L c a k"
  by (cases c) (simp_all add: verify_signed_data_indep)

end

end
