(* ===== verification/Verify_Cert.thy ===== *)
theory Verify_Cert
  imports Crl Trust_Anchor
begin

text \<open>
  Path building and path validation (\<^verbatim>\<open>src/verify_cert.rs\<close>): the checks on a single certificate, key usages,
  revocation, signatures along a chain, and the depth-first search for a chain to a trust anchor. The
  counter \<^verbatim>\<open>signatures\<close>, a mutable reference shared by the whole search, is passed in and out of every
  function that touches it, also when it fails.
\<close>

section \<open>Options\<close>

datatype RevocationCheckDepth = Depth_EndEntity | Depth_Chain

datatype UnknownStatusPolicy = Allow | Deny

record RevocationOptionsBuilder =
  b_crls :: "CertRevocationList list"
  b_depth :: RevocationCheckDepth
  b_status_requirement :: UnknownStatusPolicy

record RevocationOptions =
  crls :: "CertRevocationList list"
  depth :: RevocationCheckDepth
  status_requirement :: UnknownStatusPolicy

text \<open>\<open>None\<close> is \<^verbatim>\<open>Err(CrlsRequired(()))\<close>.\<close>

definition revocation_options_new :: "CertRevocationList list \<Rightarrow> RevocationOptionsBuilder option" where
  "revocation_options_new cs =
    (if cs = [] then None
     else Some \<lparr>b_crls = cs, b_depth = Depth_Chain, b_status_requirement = Deny\<rparr>)"

definition with_depth :: "RevocationOptionsBuilder \<Rightarrow> RevocationCheckDepth \<Rightarrow> RevocationOptionsBuilder" where
  "with_depth self d = self\<lparr>b_depth := d\<rparr>"

definition allow_unknown_status :: "RevocationOptionsBuilder \<Rightarrow> RevocationOptionsBuilder" where
  "allow_unknown_status self = self\<lparr>b_status_requirement := Allow\<rparr>"

definition forbid_unknown_status :: "RevocationOptionsBuilder \<Rightarrow> RevocationOptionsBuilder" where
  "forbid_unknown_status self = self\<lparr>b_status_requirement := Deny\<rparr>"

definition revocation_options_build :: "RevocationOptionsBuilder \<Rightarrow> RevocationOptions" where
  "revocation_options_build self =
    \<lparr>crls = b_crls self, depth = b_depth self, status_requirement = b_status_requirement self\<rparr>"

section \<open>Key usages\<close>

record KeyPurposeId =
  oid_value :: bytes

definition key_purpose_id_new :: "bytes \<Rightarrow> KeyPurposeId" where
  "key_purpose_id_new oid_bytes = \<lparr>oid_value = oid_bytes\<rparr>"

definition EKU_SERVER_AUTH :: KeyPurposeId where
  "EKU_SERVER_AUTH = key_purpose_id_new (oid 1 3 [6, 1, 5, 5, 7, 3, 1])"

definition EKU_CLIENT_AUTH :: KeyPurposeId where
  "EKU_CLIENT_AUTH = key_purpose_id_new (oid 1 3 [6, 1, 5, 5, 7, 3, 2])"

datatype ExtendedKeyUsage = Required KeyPurposeId | RequiredIfPresent KeyPurposeId

record KeyUsage =
  ku_inner :: ExtendedKeyUsage

definition server_auth :: KeyUsage where
  "server_auth = \<lparr>ku_inner = RequiredIfPresent EKU_SERVER_AUTH\<rparr>"

definition client_auth :: KeyUsage where
  "client_auth = \<lparr>ku_inner = RequiredIfPresent EKU_CLIENT_AUTH\<rparr>"

definition required :: "bytes \<Rightarrow> KeyUsage" where
  "required oid_bytes = \<lparr>ku_inner = Required (key_purpose_id_new oid_bytes)\<rparr>"

fun key_purpose_id_equals :: "ExtendedKeyUsage \<Rightarrow> bytes \<Rightarrow> bool" where
  "key_purpose_id_equals (Required eku) value = (oid_value eku = value)"
| "key_purpose_id_equals (RequiredIfPresent eku) value = (oid_value eku = value)"

text \<open>The loop of \<^verbatim>\<open>ExtendedKeyUsage::check\<close>.\<close>

definition eku_loop :: "'r untrusted \<Rightarrow> ExtendedKeyUsage \<Rightarrow> ('r, unit) parser" where
  "eku_loop U self =
    loop U (\<lambda>_.
      and_then (expect_tag U Tag_OID) (\<lambda>value.
        if key_purpose_id_equals self value then and_then (skip_to_end U) (\<lambda>_. ok (Inr ()))
        else and_then (at_end U) (\<lambda>e.
          if e then of_result (Err RequiredEkuNotFound) else ok (Inl ())))) ()"

definition eku_check :: "'r untrusted \<Rightarrow> ExtendedKeyUsage \<Rightarrow> ('r, unit) optional_parser" where
  "eku_check U self =
    optional (case self of RequiredIfPresent _ \<Rightarrow> Ok () | Required _ \<Rightarrow> Err RequiredEkuNotFound) (eku_loop U self)"

datatype KeyUsageMode = CrlSign

fun key_usage_mode_bit :: "KeyUsageMode \<Rightarrow> nat" where
  "key_usage_mode_bit CrlSign = 6"

definition key_usage_check :: "'r untrusted \<Rightarrow> KeyUsageMode \<Rightarrow> bytes option \<Rightarrow> unit result" where
  "key_usage_check U self input =
    (case input of
       None \<Rightarrow> Ok ()
     | Some bs \<Rightarrow>
         res_bind (fst (expect_tag U Tag_BitString (u_new U bs))) (\<lambda>bit_string.
         res_bind (bit_string_flags U bit_string) (\<lambda>flags.
           if bit_set flags (key_usage_mode_bit self) then Ok () else Err IssuerNotCrlSigner)))"

section \<open>Checks on one certificate\<close>

datatype UsedAsCa = Yes | No

fun used_as_ca :: "EndEntityOrCa \<Rightarrow> UsedAsCa" where
  "used_as_ca EndEntity = No"
| "used_as_ca (Ca _) = Yes"

definition check_validity :: "'r untrusted \<Rightarrow> Time \<Rightarrow> ('r, unit) parser" where
  "check_validity U time =
    and_then (time_from_der U) (\<lambda>not_before.
    and_then (time_from_der U) (\<lambda>not_after.
      if not_before > not_after then of_result (Err InvalidCertValidity)
      else if time < not_before then of_result (Err CertNotValidYet)
      else if time > not_after then of_result (Err CertExpired)
      else ok ()))"

definition basic_constraints_ok :: "UsedAsCa \<Rightarrow> bool \<Rightarrow> nat option \<Rightarrow> nat \<Rightarrow> unit result" where
  "basic_constraints_ok used is_ca path_len_constraint sub_ca_count =
    (case (used, is_ca, path_len_constraint) of
       (No, True, _) \<Rightarrow> Err CaUsedAsEndEntity
     | (Yes, False, _) \<Rightarrow> Err EndEntityUsedAsCa
     | (Yes, True, Some len) \<Rightarrow> if sub_ca_count > len then Err PathLenConstraintViolated else Ok ()
     | _ \<Rightarrow> Ok ())"

definition check_basic_constraints :: "'r untrusted \<Rightarrow> UsedAsCa \<Rightarrow> nat \<Rightarrow> ('r, unit) optional_parser" where
  "check_basic_constraints U used sub_ca_count =
    optional (basic_constraints_ok used False None sub_ca_count)
      (and_then (bool_from_der U) (\<lambda>is_ca.
       and_then (at_end U) (\<lambda>e.
       and_then (if \<not> e then and_then (u8_from_der U) (\<lambda>b. ok (Some (unat b))) else ok None) (\<lambda>path_len_constraint.
         of_result (basic_constraints_ok used is_ca path_len_constraint sub_ca_count)))))"

definition check_issuer_independent_properties ::
    "'r untrusted \<Rightarrow> Cert \<Rightarrow> Time \<Rightarrow> UsedAsCa \<Rightarrow> nat \<Rightarrow> ExtendedKeyUsage \<Rightarrow> unit result" where
  "check_issuer_independent_properties U cert time used sub_ca_count eku =
    res_bind (read_all U BadDer (check_validity U time) (cert_validity (cert_body cert))) (\<lambda>_.
    res_bind (read_all_optional U BadDer (check_basic_constraints U used sub_ca_count)
      (cert_basic_constraints (cert_body cert))) (\<lambda>_.
    res_bind (read_all_optional U BadDer (eku_check U eku) (cert_eku (cert_body cert))) (\<lambda>_.
      Ok ())))"

section \<open>Revocation\<close>

datatype CertNotRevoked = CertNotRevoked

definition crl_authoritative :: "'r untrusted \<Rightarrow> CertRevocationList \<Rightarrow> Cert \<Rightarrow> bool result" where
  "crl_authoritative U crl cert =
    (if crl_list_issuer crl \<noteq> issuer cert then Ok False
     else
       (case issuing_distribution_point crl of
          None \<Rightarrow> Ok (crl_distribution_points U cert = None)
        | Some crl_idp \<Rightarrow>
            (case idp_from_der U crl_idp of
               Ok idp \<Rightarrow> authoritative_for U idp cert
             | Err _ \<Rightarrow> Ok False
             | Panic \<Rightarrow> Panic
             | Diverge \<Rightarrow> Diverge)))"

text \<open>\<^verbatim>\<open>revocation.crls.iter().find(..)\<close>.\<close>

fun find_crl :: "'r untrusted \<Rightarrow> Cert \<Rightarrow> CertRevocationList list \<Rightarrow> CertRevocationList option result" where
  "find_crl U cert [] = Ok None"
| "find_crl U cert (crl # cs) =
    res_bind (crl_authoritative U crl cert) (\<lambda>a. if a then Ok (Some crl) else find_crl U cert cs)"

definition crl_signature_err :: "error \<Rightarrow> error" where
  "crl_signature_err err =
    (if err = UnsupportedSignatureAlgorithm then UnsupportedCrlSignatureAlgorithm
     else if err = UnsupportedSignatureAlgorithmForPublicKey then UnsupportedCrlSignatureAlgorithmForPublicKey
     else if err = InvalidSignatureForPublicKey then InvalidCrlSignatureForPublicKey
     else err)"

definition check_crls ::
    "'r untrusted \<Rightarrow> SignatureVerificationAlgorithm list \<Rightarrow> Cert \<Rightarrow> bytes \<Rightarrow> bytes \<Rightarrow> bytes option
     \<Rightarrow> RevocationOptions \<Rightarrow> CertNotRevoked option result" where
  "check_crls U supported_sig_algs cert issuer_subject issuer_spki issuer_ku revocation =
    (if cert_issuer (cert_body cert) \<noteq> issuer_subject then Panic
     else if depth revocation = Depth_EndEntity \<and> ee_or_ca cert \<noteq> EndEntity then Ok None
     else
       res_bind (find_crl U cert (crls revocation)) (\<lambda>crl.
         case crl of
           None \<Rightarrow>
             (case status_requirement revocation of
                Allow \<Rightarrow> Ok None
              | Deny \<Rightarrow> Err UnknownRevocationStatus)
         | Some crl \<Rightarrow>
             res_bind (res_map_err crl_signature_err (crl_verify_signature U crl supported_sig_algs issuer_spki)) (\<lambda>_.
             res_bind (key_usage_check U CrlSign issuer_ku) (\<lambda>_.
             res_bind (find_serial U crl (cert_serial (cert_body cert))) (\<lambda>found.
               case found of
                 None \<Rightarrow> Ok (Some CertNotRevoked)
               | Some _ \<Rightarrow> Err CertRevoked)))))"

section \<open>Signatures along a chain\<close>

text \<open>The loop of \<^verbatim>\<open>check_signatures\<close>: from the certificate the trust anchor issued down to the end entity.\<close>

fun check_signatures_loop ::
    "'r untrusted \<Rightarrow> SignatureVerificationAlgorithm list \<Rightarrow> RevocationOptions option \<Rightarrow> bytes \<Rightarrow> bytes
     \<Rightarrow> bytes option \<Rightarrow> Cert \<Rightarrow> nat \<Rightarrow> unit result \<times> nat" where
  "check_signatures_loop U supported_sig_algs revocation spki_value issuer_subject issuer_key_usage
      (Cert role f) signatures =
    (let signatures = signatures + 1 in
     if signatures > 100 then (Err MaximumSignatureChecksExceeded, signatures)
     else
       (case res_bind (verify_signed_data U supported_sig_algs spki_value (cert_signed_data f)) (\<lambda>_.
               case revocation of
                 None \<Rightarrow> Ok ()
               | Some revocation_opts \<Rightarrow>
                   res_bind (check_crls U supported_sig_algs (Cert role f) issuer_subject spki_value
                     issuer_key_usage revocation_opts) (\<lambda>_. Ok ())) of
          Ok _ \<Rightarrow>
            (case role of
               Ca child_cert \<Rightarrow>
                 check_signatures_loop U supported_sig_algs revocation (cert_spki f) (cert_subject f)
                   (cert_key_usage f) child_cert signatures
             | EndEntity \<Rightarrow> (Ok (), signatures))
        | r \<Rightarrow> (r, signatures)))"

definition check_signatures ::
    "'r untrusted \<Rightarrow> SignatureVerificationAlgorithm list \<Rightarrow> Cert \<Rightarrow> TrustAnchor \<Rightarrow> RevocationOptions option
     \<Rightarrow> nat \<Rightarrow> unit result \<times> nat" where
  "check_signatures U supported_sig_algs cert_chain trust_anchor revocation signatures =
    check_signatures_loop U supported_sig_algs revocation (ta_subject_public_key_info trust_anchor)
      (ta_subject trust_anchor) None cert_chain signatures"

section \<open>The search for a chain\<close>

fun loop_while_non_fatal_error ::
    "error \<Rightarrow> 'v list \<Rightarrow> ('v \<Rightarrow> 's \<Rightarrow> unit result \<times> 's) \<Rightarrow> 's \<Rightarrow> unit result \<times> 's" where
  "loop_while_non_fatal_error error [] f s = (Err error, s)"
| "loop_while_non_fatal_error error (v # values) f s =
    (case f v s of
       (Ok _, s') \<Rightarrow> (Ok (), s')
     | (Err new_error, s') \<Rightarrow>
         if new_error = MaximumSignatureChecksExceeded then (Err new_error, s')
         else loop_while_non_fatal_error (most_specific error new_error) values f s'
     | (Panic, s') \<Rightarrow> (Panic, s')
     | (Diverge, s') \<Rightarrow> (Diverge, s'))"

record ChainOptions =
  opt_eku :: KeyUsage
  supported_sig_algs :: "SignatureVerificationAlgorithm list"
  trust_anchors :: "TrustAnchor list"
  intermediate_certs :: "bytes list"
  revocation :: "RevocationOptions option"

definition MAX_SUB_CA_COUNT :: nat where "MAX_SUB_CA_COUNT = 6"

text \<open>The closure over the trust anchors.\<close>

definition try_trust_anchor ::
    "'r untrusted \<Rightarrow> ChainOptions \<Rightarrow> Cert \<Rightarrow> SubjectCommonNameContents \<Rightarrow> TrustAnchor \<Rightarrow> nat
     \<Rightarrow> unit result \<times> nat" where
  "try_trust_anchor U opts cert contents trust_anchor signatures =
    (if cert_issuer (cert_body cert) \<noteq> ta_subject trust_anchor then (Err UnknownIssuer, signatures)
     else
       (case read_all_optional U BadDer (check_name_constraints U cert contents) (ta_name_constraints trust_anchor) of
          Ok _ \<Rightarrow>
            check_signatures U (supported_sig_algs opts) cert trust_anchor (revocation opts) signatures
        | r \<Rightarrow> (r, signatures)))"

text \<open>The check against loops, over the chain built so far.\<close>

fun in_chain :: "cert_fields \<Rightarrow> Cert \<Rightarrow> bool" where
  "in_chain potential_issuer (Cert role f) =
    (if cert_spki potential_issuer = cert_spki f \<and> cert_subject potential_issuer = cert_subject f then True
     else (case role of EndEntity \<Rightarrow> False | Ca child_cert \<Rightarrow> in_chain potential_issuer child_cert))"

text \<open>The closure over the intermediate certificates; \<open>rec\<close> is the recursive call.\<close>

definition try_intermediate ::
    "'r untrusted \<Rightarrow> (Cert \<Rightarrow> nat \<Rightarrow> nat \<Rightarrow> unit result \<times> nat) \<Rightarrow> Cert \<Rightarrow> SubjectCommonNameContents \<Rightarrow> nat
     \<Rightarrow> bytes \<Rightarrow> nat \<Rightarrow> unit result \<times> nat" where
  "try_intermediate U rec cert contents sub_ca_count cert_der signatures =
    (case cert_from_der U cert_der (Ca cert) of
       Ok potential_issuer \<Rightarrow>
         if cert_subject (cert_body potential_issuer) \<noteq> cert_issuer (cert_body cert)
         then (Err UnknownIssuer, signatures)
         else if in_chain (cert_body potential_issuer) cert then (Err UnknownIssuer, signatures)
         else
           (case read_all_optional U BadDer (check_name_constraints U cert contents)
                   (cert_name_constraints (cert_body potential_issuer)) of
              Ok _ \<Rightarrow>
                let next_sub_ca_count =
                      (case used_as_ca (ee_or_ca cert) of No \<Rightarrow> sub_ca_count | Yes \<Rightarrow> sub_ca_count + 1) in
                rec potential_issuer next_sub_ca_count signatures
            | r \<Rightarrow> (r, signatures))
     | Err e \<Rightarrow> (Err e, signatures)
     | Panic \<Rightarrow> (Panic, signatures)
     | Diverge \<Rightarrow> (Diverge, signatures))"

definition common_name_contents :: "ChainOptions \<Rightarrow> Cert \<Rightarrow> SubjectCommonNameContents" where
  "common_name_contents opts cert =
    (if key_purpose_id_equals (ku_inner (opt_eku opts)) (oid_value EKU_SERVER_AUTH) \<and>
        used_as_ca (ee_or_ca cert) = No
     then CN_DnsName else CN_Ignore)"

text \<open>
  The recursion is bounded by \<open>MAX_SUB_CA_COUNT\<close>: an end-entity certificate, and then CA certificates with
  a count of 0 to 6, the last of which is refused before any further search. The fuel of \<open>build_chain\<close>
  is the number of these levels.
\<close>

fun build_chain_inner ::
    "nat \<Rightarrow> 'r untrusted \<Rightarrow> ChainOptions \<Rightarrow> Time \<Rightarrow> Cert \<Rightarrow> nat \<Rightarrow> nat \<Rightarrow> unit result \<times> nat" where
  "build_chain_inner 0 U opts time cert sub_ca_count signatures = (Diverge, signatures)"
| "build_chain_inner (Suc fuel) U opts time cert sub_ca_count signatures =
    (let used = used_as_ca (ee_or_ca cert) in
     case check_issuer_independent_properties U cert time used sub_ca_count (ku_inner (opt_eku opts)) of
       Ok _ \<Rightarrow>
         if used = Yes \<and> sub_ca_count \<ge> MAX_SUB_CA_COUNT then (Err UnknownIssuer, signatures)
         else if used = No \<and> sub_ca_count \<noteq> 0 then (Panic, signatures)
         else
           (case loop_while_non_fatal_error UnknownIssuer (trust_anchors opts)
                   (try_trust_anchor U opts cert (common_name_contents opts cert)) signatures of
              (Ok _, signatures') \<Rightarrow> (Ok (), signatures')
            | (Err err, signatures') \<Rightarrow>
                loop_while_non_fatal_error err (intermediate_certs opts)
                  (try_intermediate U (build_chain_inner fuel U opts time) cert
                    (common_name_contents opts cert) sub_ca_count) signatures'
            | (Panic, signatures') \<Rightarrow> (Panic, signatures')
            | (Diverge, signatures') \<Rightarrow> (Diverge, signatures'))
     | r \<Rightarrow> (r, signatures))"

definition build_chain :: "'r untrusted \<Rightarrow> ChainOptions \<Rightarrow> Cert \<Rightarrow> Time \<Rightarrow> unit result" where
  "build_chain U opts cert time =
    fst (build_chain_inner (MAX_SUB_CA_COUNT + 2) U opts time cert 0 0)"

section \<open>Independence of the reader\<close>

context untrusted_reader
begin

lemma eku_check_indep: "read_all_optional U e (eku_check U k) bs = read_all_optional L e (eku_check L k) bs"
  unfolding eku_check_def eku_loop_def by (intro sim_intros refl)

lemma key_usage_check_indep: "key_usage_check U = key_usage_check L"
  unfolding key_usage_check_def bit_string_flags_indep run_new [OF expect_tag_sim] ..

lemma check_issuer_independent_properties_indep:
  "check_issuer_independent_properties U = check_issuer_independent_properties L"
proof -
  have v: "read_all U e (check_validity U t) bs = read_all L e (check_validity L t) bs" for e t bs
    unfolding check_validity_def by (intro sim_intros refl)
  have b: "read_all_optional U e (check_basic_constraints U u n) bs = read_all_optional L e (check_basic_constraints L u n) bs" for e u n bs
    unfolding check_basic_constraints_def by (intro sim_intros refl)
  show ?thesis unfolding check_issuer_independent_properties_def v b eku_check_indep ..
qed

lemma crl_authoritative_indep: "crl_authoritative U = crl_authoritative L"
proof -
  have *: "(crl_distribution_points U crt = None) = (crl_distribution_points L crt = None)" for crt
    by (simp add: crl_distribution_points_def)
  show ?thesis
    unfolding crl_authoritative_def idp_from_der_indep authoritative_for_indep * ..
qed

lemma find_crl_indep: "find_crl U crt cs = find_crl L crt cs"
proof (induction cs)
  case (Cons a cs)
  show ?case unfolding find_crl.simps crl_authoritative_indep Cons ..
qed simp

lemma check_crls_indep: "check_crls U = check_crls L"
  unfolding check_crls_def find_crl_indep crl_verify_signature_indep key_usage_check_indep find_serial_indep ..

lemma check_signatures_loop_indep:
  "check_signatures_loop U algs revo k s ku crt n = check_signatures_loop L algs revo k s ku crt n"
proof (induction crt arbitrary: k s ku n rule: cert_chain_induct)
  case (EndEntity f)
  show ?case
    unfolding check_signatures_loop.simps verify_signed_data_indep check_crls_indep EndEntityOrCa.case ..
next
  case (Ca child f)
  show ?case
    unfolding check_signatures_loop.simps verify_signed_data_indep check_crls_indep EndEntityOrCa.case Ca ..
qed

lemma try_trust_anchor_indep: "try_trust_anchor U = try_trust_anchor L"
  unfolding try_trust_anchor_def check_signatures_def check_signatures_loop_indep check_name_constraints_indep ..

lemma try_intermediate_indep: "try_intermediate U rec = try_intermediate L rec"
  unfolding try_intermediate_def check_name_constraints_indep cert_from_der_indep ..

lemma build_chain_inner_indep: "build_chain_inner n U opts time = build_chain_inner n L opts time"
proof (induction n)
  case (Suc n)
  show ?case
    unfolding fun_eq_iff build_chain_inner.simps Suc try_trust_anchor_indep try_intermediate_indep
      check_issuer_independent_properties_indep by simp
qed (simp add: fun_eq_iff)

lemma build_chain_indep: "build_chain U = build_chain L"
  unfolding build_chain_def build_chain_inner_indep ..

end

end
