(* ===== verification/Item_Loop.thy ===== *)
theory Item_Loop
  imports Der
begin

text \<open>
  Loops that read one item after the other until the input is used up. The items are a list, and such a loop is
  a fold over it that stops at the first failure, of an item or of the loop's own step.
\<close>

section \<open>Items in sequence\<close>

text \<open>The items that a parser reads one after the other. The list ends with the first failure.\<close>

function parse_items :: "(bytes, 'a) parser \<Rightarrow> bytes \<Rightarrow> 'a result list" where
  "parse_items p r =
    (if r = [] then []
     else (case p r of
         (Ok x, r') \<Rightarrow> Ok x # (if length r' < length r then parse_items p r' else [])
       | (e, _) \<Rightarrow> [e]))"
  by pat_completeness auto
termination by (relation "measure (\<lambda>(p, r). length r)") auto

declare parse_items.simps [simp del]

lemma parse_items_Nil [simp]: "parse_items p [] = []"
  by (simp add: parse_items.simps)

lemma parse_items_Ok:
  "r \<noteq> [] \<Longrightarrow> p r = (Ok x, r') \<Longrightarrow> length r' < length r \<Longrightarrow> parse_items p r = Ok x # parse_items p r'"
  by (subst parse_items.simps) simp

lemma parse_items_fail: "r \<noteq> [] \<Longrightarrow> p r = (e, r') \<Longrightarrow> (\<And>x. e \<noteq> Ok x) \<Longrightarrow> parse_items p r = [e]"
  by (subst parse_items.simps) (simp split: result.split)

lemma parse_items_fine:
  assumes "total k p"
  shows "x \<in> set (parse_items p r) \<Longrightarrow> fine k x"
proof (induction r rule: length_induct)
  case (1 r)
  then have "r \<noteq> []" by auto
  obtain y r' where y: "p r = (y, r')" by force
  with assms have "fine k y" by (rule totalD)
  moreover have "x = y \<or> length r' < length r \<and> x \<in> set (parse_items p r')"
    using 1(2) \<open>r \<noteq> []\<close> y by (subst (asm) parse_items.simps) (auto split: result.splits if_splits)
  ultimately show ?case using 1 by blast
qed

lemma length_parse_items: "length (parse_items p r) \<le> length r"
proof (induction r rule: length_induct)
  case (1 r)
  then show ?case
    by (subst parse_items.simps) (fastforce simp: Suc_le_eq split: prod.split result.split)
qed

fun is_ok :: "'a result \<Rightarrow> bool" where
  "is_ok (Ok _) = True"
| "is_ok _ = False"

lemma is_ok_iff: "is_ok x \<longleftrightarrow> (\<exists>y. x = Ok y)"
  by (cases x) auto

text \<open>Only the last item can be a failure.\<close>

lemma parse_items_shape:
  "\<exists>xs. parse_items p r = map Ok xs \<or> (\<exists>e. \<not> is_ok e \<and> parse_items p r = map Ok xs @ [e])"
proof (induction r rule: length_induct)
  case (1 r)
  show ?case
  proof (cases "r = []")
    case False
    obtain x r' where x: "p r = (x, r')" by force
    show ?thesis
    proof (cases "is_ok x \<and> length r' < length r")
      case True
      then obtain y where y: "x = Ok y" by (auto simp: is_ok_iff)
      from True 1 obtain ys where "parse_items p r' = map Ok ys \<or> (\<exists>e. \<not> is_ok e \<and> parse_items p r' = map Ok ys @ [e])"
        by blast
      moreover have "parse_items p r = Ok y # parse_items p r'" using True False x y by (intro parse_items_Ok) auto
      ultimately show ?thesis by (intro exI [of _ "y # ys"]) auto
    next
      case fail: False
      show ?thesis
      proof (cases "is_ok x")
        case True
        then obtain y where y: "x = Ok y" by (auto simp: is_ok_iff)
        with fail False x have "parse_items p r = map Ok [y]" by (subst parse_items.simps) simp
        then show ?thesis by blast
      next
        case False
        with x \<open>r \<noteq> []\<close> have "parse_items p r = [x]" by (intro parse_items_fail) auto
        with False show ?thesis by (intro exI [of _ "[]"]) auto
      qed
    qed
  qed auto
qed

primrec fold_items :: "('s \<Rightarrow> 'a \<Rightarrow> 's result) \<Rightarrow> 's \<Rightarrow> 'a result list \<Rightarrow> 's result" where
  "fold_items f s [] = Ok s"
| "fold_items f s (x # xs) = res_bind x (\<lambda>x. res_bind (f s x) (\<lambda>s'. fold_items f s' xs))"

definition item_body :: "(bytes, 'a) parser \<Rightarrow> ('s \<Rightarrow> 'a \<Rightarrow> 's result) \<Rightarrow> 's \<Rightarrow> (bytes, 's + 's) parser" where
  "item_body p f s =
    and_then (at_end L) (\<lambda>e.
      if e then ok (Inr s) else and_then p (\<lambda>x. and_then (of_result (f s x)) (\<lambda>s'. ok (Inl s'))))"

lemma item_body_run:
  "item_body p f s r =
    (if r = [] then (Ok (Inr s), [])
     else (case p r of
         (Ok x, r') \<Rightarrow> (res_bind (f s x) (\<lambda>s'. Ok (Inl s')), r')
       | (Err e, r') \<Rightarrow> (Err e, r')
       | (Panic, r') \<Rightarrow> (Panic, r')
       | (Diverge, r') \<Rightarrow> (Diverge, r')))"
proof (cases "p r")
  case (Pair x r')
  then show ?thesis
    by (cases x; cases "f s (SOME y. x = Ok y)") (auto simp: item_body_def and_then_def at_end_run ok_run of_result_def
      split: result.split)
qed

lemma fold_items_fine:
  assumes "\<And>x. x \<in> set xs \<Longrightarrow> fine k x" "\<And>s x. fine k (f s x)"
  shows "fine k (fold_items f s xs)"
  using assms by (induction xs arbitrary: s) (auto intro!: res_bind_fine)

text \<open>A search through the items for the first that passes a test.\<close>

primrec find_item :: "('a \<Rightarrow> bool) \<Rightarrow> 'a result list \<Rightarrow> 'a option result" where
  "find_item test [] = Ok None"
| "find_item test (x # xs) = res_bind x (\<lambda>x. if test x then Ok (Some x) else find_item test xs)"

definition find_body :: "(bytes, 'a) parser \<Rightarrow> ('a \<Rightarrow> bool) \<Rightarrow> unit \<Rightarrow> (bytes, unit + 'a option) parser" where
  "find_body p test u =
    and_then (at_end L) (\<lambda>e.
      if e then ok (Inr None) else and_then p (\<lambda>x. if test x then ok (Inr (Some x)) else ok (Inl ())))"

lemma find_item_Ok: "find_item test (map Ok xs) = Ok (find test xs)"
  by (induction xs) auto

section \<open>The contract of an item\<close>

text \<open>
  What the loops need of the parser of an item: it consumes at least one octet. The general names of a certificate, the
  subtrees of its name constraints and the entries of a revocation list are read by such parsers.
\<close>

locale item_parser =
  fixes p :: "(bytes, 'a) parser"
  assumes shorter: "p r = (Ok x, r') \<Longrightarrow> length r' < length r"
begin

lemma items_Ok: "r \<noteq> [] \<Longrightarrow> p r = (Ok x, r') \<Longrightarrow> parse_items p r = Ok x # parse_items p r'"
  using shorter by (intro parse_items_Ok)

lemma item_progress: "progress (item_body p f)"
  using shorter by (intro progressI) (auto simp: item_body_run split: if_splits prod.splits result.splits)

lemma find_progress: "progress (find_body p test)"
  using shorter by (intro progressI) (auto simp: find_body_def and_then_eq_Ok at_end_run ok_eq_Ok split: if_splits)

text \<open>A loop that updates a state with every item is a fold.\<close>

lemma item_loop: "fst (loop L (item_body p f) s r) = fold_items f s (parse_items p r)"
  using item_progress [of f]
proof (induction s r rule: loop_induct)
  case (step s r)
  show ?case
  proof (cases "r = []")
    case True
    then show ?thesis
      by (subst loop_unfold [OF item_progress]) (auto simp: and_then_def item_body_run ok_run)
  next
    case False
    obtain x r' where x: "p r = (x, r')" by force
    show ?thesis
    proof (cases x)
      case (Ok y)
      with x False have items: "parse_items p r = Ok y # parse_items p r'" by (intro items_Ok) auto
      have body: "item_body p f s r = (res_bind (f s y) (\<lambda>s'. Ok (Inl s')), r')"
        using x Ok False by (simp add: item_body_run)
      show ?thesis
      proof (cases "f s y")
        case s': (Ok s')
        with body have "item_body p f s r = (Ok (Inl s'), r')" by simp
        with step [OF this] items s' show ?thesis
          by (subst loop_unfold [OF item_progress]) (simp add: and_then_def)
      qed (use body items in \<open>subst loop_unfold [OF item_progress], simp add: and_then_def\<close>)+
    qed (use x False in \<open>subst loop_unfold [OF item_progress],
      simp add: and_then_def item_body_run parse_items_fail [where p = p]\<close>)+
  qed
qed

text \<open>A loop that stops at the first item that passes a test is a search.\<close>

lemma find_loop: "fst (loop L (find_body p test) u r) = find_item test (parse_items p r)"
  using find_progress [of test]
proof (induction u r rule: loop_induct)
  case (step u r)
  show ?case
  proof (cases "r = []")
    case True
    then show ?thesis
      by (subst loop_unfold [OF find_progress]) (simp add: find_body_def and_then_run at_end_run ok_run)
  next
    case False
    obtain x r' where x: "p r = (x, r')" by force
    show ?thesis
    proof (cases x)
      case (Ok y)
      with x False have items: "parse_items p r = Ok y # parse_items p r'" by (intro items_Ok) auto
      have body: "find_body p test u r = (if test y then (Ok (Inr (Some y)), r') else (Ok (Inl ()), r'))"
        using x Ok False by (simp add: find_body_def and_then_run at_end_run ok_run)
      show ?thesis
      proof (cases "test y")
        case True
        with body items show ?thesis by (subst loop_unfold [OF find_progress]) (simp add: and_then_def ok_run)
      next
        case False
        with body have "find_body p test u r = (Ok (Inl ()), r')" by simp
        with step [OF this] items False show ?thesis
          by (subst loop_unfold [OF find_progress]) (simp add: and_then_def)
      qed
    qed (use x False in \<open>subst loop_unfold [OF find_progress],
      simp add: find_body_def and_then_run at_end_run parse_items_fail [where p = p]\<close>)+
  qed
qed

end

end
