(* ===== verification/Name_Search.thy ===== *)
theory Name_Search
  imports Subject_Name Item_Loop Cert_Format
begin

text \<open>
  The search through the names of a certificate, as a search through a list. The names of a certificate
  are the items of its subject alternative name, up to the first that cannot be read, and the subject;
  the iterator of the code visits exactly these, and the verification of a subject name is a search
  for a name that matches.
\<close>

section \<open>The names that the iterator visits\<close>

definition alt_names :: "bytes option \<Rightarrow> GeneralName result list" where
  "alt_names san = (case san of None \<Rightarrow> [] | Some r \<Rightarrow> parse_items (general_name_from_der L) r)"

definition subject_items :: "bytes option \<Rightarrow> bytes option \<Rightarrow> GeneralName result list" where
  "subject_items dir cn =
    (case dir of None \<Rightarrow> [] | Some d \<Rightarrow> [Ok (GN_DirectoryName d)]) @
    (case cn of
       None \<Rightarrow> []
     | Some c \<Rightarrow>
         (case common_name L c of
            Ok (Some n) \<Rightarrow> [Ok (GN_DnsName n)]
          | Ok None \<Rightarrow> []
          | Err e \<Rightarrow> [Err e]
          | Panic \<Rightarrow> [Panic]
          | Diverge \<Rightarrow> [Diverge]))"

definition iterator_items :: "bytes NameIterator \<Rightarrow> GeneralName result list" where
  "iterator_items it =
    (let alt = alt_names (it_subject_alt_name it) in
     if list_all is_ok alt
     then alt @ subject_items (it_subject_directory_name it) (it_subject_common_name it) else alt)"

lemma general_name_shorter: "general_name_from_der L r = (Ok n, r') \<Longrightarrow> length r' < length r"
  unfolding general_name_from_der_def Let_def and_then_eq_Ok
  by (auto dest!: read_tag_shorter simp: run_Ok run_simps split: if_splits)

interpretation general_names: item_parser "general_name_from_der L"
  by unfold_locales (rule general_name_shorter)

lemma subject_next:
  "case subject_items (it_subject_directory_name it) (it_subject_common_name it) of
     [] \<Rightarrow> fst (name_iterator_subject L it) = None
   | x # xs \<Rightarrow> \<exists>it'. name_iterator_subject L it = (Some x, it') \<and> it_subject_alt_name it' = it_subject_alt_name it \<and>
       subject_items (it_subject_directory_name it') (it_subject_common_name it') = xs"
  by (auto simp: name_iterator_subject_def subject_items_def split: option.splits result.splits)

lemma iterator_next:
  "case iterator_items it of
     [] \<Rightarrow> fst (name_iterator_next L it) = None
   | x # xs \<Rightarrow> \<exists>it'. name_iterator_next L it = (Some x, it') \<and> iterator_items it' = xs"
proof (cases "it_subject_alt_name it")
  case None
  with subject_next [of it] show ?thesis
    by (auto simp: iterator_items_def alt_names_def name_iterator_next_def split: list.splits)
next
  case (Some r)
  show ?thesis
  proof (cases "r = []")
    case True
    with Some subject_next [of "it\<lparr>it_subject_alt_name := None\<rparr>"] show ?thesis
      by (auto simp: iterator_items_def alt_names_def name_iterator_next_def list_ops split: list.splits)
  next
    case False
    obtain x r' where x: "general_name_from_der L r = (x, r')" by force
    show ?thesis
    proof (cases "\<exists>n. x = Ok n")
      case True
      then obtain n where n: "x = Ok n" ..
      with False x have
        "parse_items (general_name_from_der L) r = Ok n # parse_items (general_name_from_der L) r'"
        by (intro general_names.items_Ok) auto
      with Some have "iterator_items it = Ok n # iterator_items (it\<lparr>it_subject_alt_name := Some r'\<rparr>)"
        by (simp add: iterator_items_def alt_names_def Let_def)
      moreover from Some False x n have
        "name_iterator_next L it = (Some (Ok n), it\<lparr>it_subject_alt_name := Some r'\<rparr>)"
        by (simp add: name_iterator_next_def list_ops)
      ultimately show ?thesis by simp
    next
      case fail: False
      with False x have "parse_items (general_name_from_der L) r = [x]" by (intro parse_items_fail) auto
      with Some False x fail show ?thesis
        by (cases x) (auto simp: iterator_items_def alt_names_def name_iterator_next_def list_ops subject_items_def)
    qed
  qed
qed

section \<open>The search\<close>

primrec search :: "(GeneralName result \<Rightarrow> 's \<Rightarrow> ('a option \<times> 's) result) \<Rightarrow> 's \<Rightarrow> GeneralName result list \<Rightarrow> ('a option \<times> 's) result" where
  "search f s [] = Ok (None, s)"
| "search f s (i # is) =
    res_bind (f i s) (\<lambda>(x, s'). case x of Some y \<Rightarrow> Ok (Some y, s') | None \<Rightarrow> search f s' is)"

lemma find_map_loop_search:
  "length (iterator_items it) < n \<Longrightarrow> find_map_loop n L f s it = search f s (iterator_items it)"
proof (induction n arbitrary: s it)
  case (Suc n)
  show ?case
  proof (cases "iterator_items it")
    case Nil
    with iterator_next [of it] obtain it' where "name_iterator_next L it = (None, it')"
      by (cases "name_iterator_next L it") auto
    with Nil show ?thesis by simp
  next
    case (Cons x xs)
    with iterator_next [of it] obtain it' where it': "name_iterator_next L it = (Some x, it')" "iterator_items it' = xs"
      by auto
    with Cons Suc show ?thesis by (auto intro!: res_bind_cong split: option.split)
  qed
qed simp

text \<open>The names of a certificate, given its subject, its alternative names and the use of the common name.\<close>

definition cert_items :: "bytes option \<Rightarrow> bytes option \<Rightarrow> SubjectCommonNameContents \<Rightarrow> GeneralName result list" where
  "cert_items subj san contents = iterator_items (name_iterator_new L subj san contents)"

lemma find_map_search: "find_map L f s (name_iterator_new L a b c) = search f s (cert_items a b c)"
proof -
  let ?it = "name_iterator_new L a b c"
  have "length (subject_items d e) \<le> 2" for d e
    by (auto simp: subject_items_def split: option.split result.split)
  moreover have "length (alt_names (it_subject_alt_name ?it)) \<le>
      (case it_subject_alt_name ?it of None \<Rightarrow> 0 | Some r \<Rightarrow> length (fst (u_read_bytes_to_end L r)))"
    using length_parse_items by (auto simp: alt_names_def lr.to_end_fst split: option.split)
  ultimately have "length (iterator_items ?it) < 3 + (case it_subject_alt_name ?it of None \<Rightarrow> 0
      | Some r \<Rightarrow> length (fst (u_read_bytes_to_end L r)))"
    unfolding iterator_items_def Let_def
    by (smt (verit) add.commute length_append add_le_mono le_imp_less_Suc less_Suc_eq_le numeral_2_eq_2 numeral_3_eq_3 plus_nat.simps trans_le_add1 add_Suc_right le_trans)
  then show ?thesis unfolding find_map_def cert_items_def by (rule find_map_loop_search)
qed

section \<open>Which names there are\<close>

lemma total_general_name_from_der [total_intros]: "total k (general_name_from_der L)"
  unfolding general_name_from_der_def Let_def by (intro total_intros)

lemma raises_general_name_from_der: "raises {BadDer} (general_name_from_der L)"
  unfolding general_name_from_der_def Let_def read_tag_and_get_value_def by (intro raises_intros) simp_all

lemma parse_items_raises:
  assumes "raises E p"
  shows "Err e \<in> set (parse_items p r) \<Longrightarrow> e \<in> E"
proof (induction r rule: length_induct)
  case (1 r)
  then have "r \<noteq> []" by auto
  obtain y r' where y: "p r = (y, r')" by force
  have "Err e = y \<or> length r' < length r \<and> Err e \<in> set (parse_items p r')"
    using 1(2) \<open>r \<noteq> []\<close> y by (subst (asm) parse_items.simps) (auto split: result.splits if_splits)
  with 1 y assms show ?case unfolding raises_def by metis
qed

text \<open>The names that can be read, and whether something unreadable follows.\<close>

lemma alt_names_shape:
  obtains ns where "alt_names san = map Ok ns" | ns where "alt_names san = map Ok ns @ [Err BadDer]"
proof (cases san)
  case None
  with that(1) [of "[]"] show ?thesis by (simp add: alt_names_def)
next
  case (Some r)
  from parse_items_shape [of "general_name_from_der L" r]
  obtain ns where "parse_items (general_name_from_der L) r = map Ok ns \<or>
    (\<exists>e. \<not> is_ok e \<and> parse_items (general_name_from_der L) r = map Ok ns @ [e])" by blast
  then show ?thesis
  proof
    assume "parse_items (general_name_from_der L) r = map Ok ns"
    with Some that(1) show ?thesis by (simp add: alt_names_def)
  next
    assume "\<exists>e. \<not> is_ok e \<and> parse_items (general_name_from_der L) r = map Ok ns @ [e]"
    then obtain e where e: "\<not> is_ok e" "parse_items (general_name_from_der L) r = map Ok ns @ [e]" by blast
    have "fine True e" by (rule parse_items_fine [OF total_general_name_from_der, of _ r]) (simp add: e)
    with e(1) obtain x where x: "e = Err x" by (cases e) auto
    have "x \<in> {BadDer}" by (rule parse_items_raises [OF raises_general_name_from_der, of _ r]) (simp add: e x)
    with e x Some that(2) show ?thesis by (simp add: alt_names_def)
  qed
qed

lemma search_names:
  assumes "\<And>n. f (Ok n) () = Ok (if hit n then Some (Ok ()) else None, ())"
    and "\<And>e. f (Err e) () = Ok (Some (Err e), ())"
  shows "search f () (map Ok ns) = Ok (if \<exists>n \<in> set ns. hit n then Some (Ok ()) else None, ())"
    and "search f () (map Ok ns @ [Err e]) = Ok (Some (if \<exists>n \<in> set ns. hit n then Ok () else Err e), ())"
  by (induction ns) (auto simp: assms)

section \<open>Verification of a subject name\<close>

text \<open>The reference: a certificate is valid for the names in its subject alternative name only.\<close>

fun name_asked_for :: "SubjectNameRef \<Rightarrow> GeneralName \<Rightarrow> bool" where
  "name_asked_for (SN_DnsName (DnsNameRef r)) (GN_DnsName p) =
    (dns_id_ok Presented WildcardsYes p \<and> dns_reference_match p r)"
| "name_asked_for (SN_IpAddress (V4 _ os)) (GN_IpAddress p) = (p = os)"
| "name_asked_for (SN_IpAddress (V6 _ os)) (GN_IpAddress p) = (p = os)"
| "name_asked_for _ _ = False"

text \<open>The subject names that the crate makes.\<close>

fun subject_name_ok :: "SubjectNameRef \<Rightarrow> bool" where
  "subject_name_ok (SN_DnsName (DnsNameRef r)) = dns_id_ok Reference WildcardsNo r"
| "subject_name_ok (SN_IpAddress (V4 _ os)) = (length os = 4)"
| "subject_name_ok (SN_IpAddress (V6 _ os)) = (length os = 16)"

lemma dns_closure_run:
  assumes "dns_id_ok Reference WildcardsNo r"
  shows "verify_dns_name_closure L r (Ok n) () =
    Ok (if name_asked_for (SN_DnsName (DnsNameRef r)) n then Some (Ok ()) else None, ())"
  using assms by (cases n) (auto simp: verify_dns_name_closure_def presented_id_matches_reference_run)

lemma ip_closure_run:
  assumes "length os = 4 \<or> length os = 16"
  shows "verify_ip_address_closure L os (Ok n) () =
    Ok (if (case n of GN_IpAddress p \<Rightarrow> p = os | _ \<Rightarrow> False) then Some (Ok ()) else None, ())"
  using assms by (cases n) (auto simp: verify_ip_address_closure_def ip_reference_run)

lemma cert_items_ignore:
  "cert_items subj san CN_Ignore =
    alt_names san @ (if list_all is_ok (alt_names san) then (case subj of None \<Rightarrow> [] | Some d \<Rightarrow> [Ok (GN_DirectoryName d)]) else [])"
  by (cases subj; cases san) (auto simp: cert_items_def iterator_items_def name_iterator_new_def subject_items_def
    alt_names_def list_ops Let_def)

lemma search_result:
  assumes f: "\<And>n. f (Ok n) () = Ok (if hit n then Some (Ok ()) else None, ())"
    "\<And>e. f (Err e) () = Ok (Some (Err e), ())"
    and subj: "\<And>d. \<not> hit (GN_DirectoryName d)"
  shows "res_bind (search f () (cert_items subj san CN_Ignore))
      (\<lambda>(found, _). case found of Some r \<Rightarrow> r | None \<Rightarrow> Err CertNotValidForName) =
    (if \<exists>n. Ok n \<in> set (alt_names san) \<and> hit n then Ok ()
     else Err (if list_all is_ok (alt_names san) then CertNotValidForName else BadDer))"
proof (rule alt_names_shape [of san])
  fix ns
  assume ns: "alt_names san = map Ok ns"
  then have all: "list_all is_ok (alt_names san)" by (simp add: list_all_iff)
  define ms where "ms = ns @ (case subj of None \<Rightarrow> [] | Some d \<Rightarrow> [GN_DirectoryName d])"
  have "cert_items subj san CN_Ignore = map Ok ms"
    using all by (simp add: cert_items_ignore ms_def ns split: option.split)
  moreover have "(\<exists>n \<in> set ms. hit n) = (\<exists>n. Ok n \<in> set (alt_names san) \<and> hit n)"
    by (auto simp: ms_def ns subj image_iff split: option.splits)
  ultimately show ?thesis using all by (simp add: search_names(1) [where f = f and hit = hit, OF f])
next
  fix ns
  assume ns: "alt_names san = map Ok ns @ [Err BadDer]"
  then have "\<not> list_all is_ok (alt_names san)" by simp
  moreover from this have "cert_items subj san CN_Ignore = map Ok ns @ [Err BadDer]"
    by (simp add: cert_items_ignore ns)
  moreover have "(\<exists>n \<in> set ns. hit n) = (\<exists>n. Ok n \<in> set (alt_names san) \<and> hit n)" by (auto simp: ns)
  ultimately show ?thesis by (simp add: search_names(2) [where f = f and hit = hit, OF f])
qed

lemma verify_cert_subject_name_run:
  assumes "subject_name_ok n"
  shows "verify_cert_subject_name L ee n =
    (let san = cert_subject_alt_name (cert_body (inner ee)) in
     if \<exists>p. Ok p \<in> set (alt_names san) \<and> name_asked_for n p then Ok ()
     else Err (if list_all is_ok (alt_names san) then CertNotValidForName else BadDer))"
proof -
  have closures: "verify_dns_name_closure L r (Err e) () = Ok (Some (Err e), ())"
    "verify_ip_address_closure L os (Err e) () = Ok (Some (Err e), ())" for r os e
    by (simp_all add: verify_dns_name_closure_def verify_ip_address_closure_def)
  consider (dns) r where "n = SN_DnsName (DnsNameRef r)" | (ip) t os where "n = SN_IpAddress (V4 t os) \<or> n = SN_IpAddress (V6 t os)"
    by (metis DnsNameRef.exhaust IpAddrRef.exhaust SubjectNameRef.exhaust)
  then show ?thesis
  proof cases
    case dns
    with assms have r: "dns_id_ok Reference WildcardsNo r" by simp
    then have "dns_name_ref_into_str (DnsNameRef r) = Ok r"
      by (auto simp: str_from_utf8_unwrap_def dest: dns_id_ascii)
    then show ?thesis
      unfolding dns verify_cert_subject_name_def verify_cert_dns_name_def Let_def find_map_search
      using search_result [where f = "verify_dns_name_closure L r", OF dns_closure_run [OF r] closures(1)] by simp
  next
    case ip
    with assms have os: "length os = 4 \<or> length os = 16" by auto
    have asked: "name_asked_for n p = (case p of GN_IpAddress q \<Rightarrow> q = os | _ \<Rightarrow> False)" for p
      using ip by (cases p) auto
    have "verify_cert_subject_name L ee n =
        res_bind (search (verify_ip_address_closure L os) ()
          (cert_items None (cert_subject_alt_name (cert_body (inner ee))) CN_Ignore))
          (\<lambda>(found, _). case found of Some r \<Rightarrow> r | None \<Rightarrow> Err CertNotValidForName)"
      using ip unfolding verify_cert_subject_name_def Let_def find_map_search by auto
    then show ?thesis
      unfolding asked Let_def using search_result [where f = "verify_ip_address_closure L os", OF ip_closure_run [OF os] closures(2)] by simp
  qed
qed

section \<open>Name constraints\<close>

lemma general_subtree_shorter: "general_subtree L r = (Ok n, r') \<Longrightarrow> length r' < length r"
  unfolding general_subtree_def and_then_eq_Ok of_result_eq_Ok by (auto dest: expect_tag_shorter)

interpretation subtrees: item_parser "general_subtree L"
  by unfold_locales (rule general_subtree_shorter)

lemma total_general_subtree [total_intros]: "total k (general_subtree L)"
  unfolding general_subtree_def der_read_all_def by (intro total_intros)

text \<open>One subtree, as a step of a fold.\<close>

definition subtree_step :: "Subtrees \<Rightarrow> GeneralName \<Rightarrow> bool \<times> bool \<Rightarrow> GeneralName \<Rightarrow> (bool \<times> bool) result" where
  "subtree_step k n s b =
    (case subtree_matches L k n b of
       None \<Rightarrow> Ok s
     | Some m \<Rightarrow> res_bind m (\<lambda>m.
         case k of
           PermittedSubtrees \<Rightarrow> Ok (if m then (True, snd s) else (fst s, True))
         | ExcludedSubtrees \<Rightarrow> if m then Err NameConstraintViolation else Ok s))"

lemma check_subtree_item: "check_subtree L k n s r = item_body (general_subtree L) (subtree_step k n) s r"
proof (cases "general_subtree L r")
  case (Pair x r')
  show ?thesis
  proof (cases x)
    case (Ok b)
    show ?thesis
    proof (cases "subtree_matches L k n b")
      case None
      with Pair Ok show ?thesis
        by (auto simp: check_subtree_def item_body_run subtree_step_def run_simps)
    next
      case (Some m)
      with Pair Ok show ?thesis
        by (cases m; cases k) (auto simp: check_subtree_def item_body_run subtree_step_def run_simps)
    qed
  qed (use Pair in \<open>simp_all add: check_subtree_def item_body_run run_simps\<close>)
qed

lemma check_subtree_loop:
  "fst (loop L (check_subtree L k n) s r) = fold_items (subtree_step k n) s (parse_items (general_subtree L) r)"
proof -
  have "check_subtree L k n = item_body (general_subtree L) (subtree_step k n)"
    by (intro ext) (rule check_subtree_item)
  then show ?thesis using subtrees.item_loop by simp
qed

definition bases :: "bytes \<Rightarrow> GeneralName list option" where
  "bases bs =
    (let xs = parse_items (general_subtree L) bs in
     if list_all is_ok xs then Some (List.map_filter (\<lambda>x. case x of Ok b \<Rightarrow> Some b | _ \<Rightarrow> None) xs) else None)"

text \<open>
  The reference: what a list of subtrees demands of a name. A list of permitted subtrees must have one that holds the name, if
  it has any of the name's kind; no excluded subtree may hold it. A name or a subtree that cannot
  be compared is refused.
\<close>

definition permitted_by :: "GeneralName list \<Rightarrow> GeneralName \<Rightarrow> bool" where
  "permitted_by bs n \<longleftrightarrow>
    (\<forall>b \<in> set bs. subtree_matches L PermittedSubtrees n b \<in> {None, Some (Ok True), Some (Ok False)}) \<and>
    ((\<exists>b \<in> set bs. subtree_matches L PermittedSubtrees n b = Some (Ok False)) \<longrightarrow>
      (\<exists>b \<in> set bs. subtree_matches L PermittedSubtrees n b = Some (Ok True)))"

definition not_excluded_by :: "GeneralName list \<Rightarrow> GeneralName \<Rightarrow> bool" where
  "not_excluded_by bs n \<longleftrightarrow> (\<forall>b \<in> set bs. subtree_matches L ExcludedSubtrees n b \<in> {None, Some (Ok False)})"

definition conforms :: "bytes option \<Rightarrow> bytes option \<Rightarrow> GeneralName \<Rightarrow> bool" where
  "conforms permitted excluded n \<longleftrightarrow>
    (\<forall>bs. permitted = Some bs \<longrightarrow> (\<exists>ts. bases bs = Some ts \<and> permitted_by ts n)) \<and>
    (\<forall>bs. excluded = Some bs \<longrightarrow> (\<exists>ts. bases bs = Some ts \<and> not_excluded_by ts n))"

lemma fold_permitted:
  "fold_items (subtree_step PermittedSubtrees n) s (map Ok bs) = Ok t \<longleftrightarrow>
    (\<forall>b \<in> set bs. subtree_matches L PermittedSubtrees n b \<in> {None, Some (Ok True), Some (Ok False)}) \<and>
    t = (fst s \<or> (\<exists>b \<in> set bs. subtree_matches L PermittedSubtrees n b = Some (Ok True)),
         snd s \<or> (\<exists>b \<in> set bs. subtree_matches L PermittedSubtrees n b = Some (Ok False)))"
proof (induction bs arbitrary: s)
  case (Cons b bs)
  show ?case
  proof (cases "subtree_matches L PermittedSubtrees n b")
    case None
    with Cons show ?thesis by (simp add: subtree_step_def)
  next
    case (Some m)
    then show ?thesis
    proof (cases m)
      case (Ok x)
      with Some Cons show ?thesis by (cases x) (simp_all add: subtree_step_def)
    qed (simp_all add: subtree_step_def)
  qed
qed auto

lemma fold_excluded:
  "fold_items (subtree_step ExcludedSubtrees n) s (map Ok bs) = Ok t \<longleftrightarrow> not_excluded_by bs n \<and> t = s"
proof (induction bs arbitrary: s)
  case (Cons b bs)
  show ?case
  proof (cases "subtree_matches L ExcludedSubtrees n b")
    case None
    with Cons show ?thesis by (simp add: subtree_step_def not_excluded_by_def)
  next
    case (Some m)
    then show ?thesis
    proof (cases m)
      case (Ok x)
      with Some Cons show ?thesis by (cases x) (simp_all add: subtree_step_def not_excluded_by_def)
    qed (simp_all add: subtree_step_def not_excluded_by_def)
  qed
qed (auto simp: not_excluded_by_def)

lemma fold_items_failure: "\<not> list_all is_ok xs \<Longrightarrow> fold_items f s xs \<noteq> Ok t"
  by (induction xs arbitrary: s) (auto simp: is_ok_iff)

lemma all_ok_map: "list_all is_ok xs \<Longrightarrow> \<exists>ys. xs = map Ok ys"
proof (induction xs)
  case (Cons x xs)
  then obtain y ys where "x = Ok y" "xs = map Ok ys" by (auto simp: is_ok_iff)
  then have "x # xs = map Ok (y # ys)" by simp
  then show ?case by (rule exI)
qed simp

lemma bases_Some: "bases bs = Some ts \<longleftrightarrow> parse_items (general_subtree L) bs = map Ok ts"
proof
  assume "bases bs = Some ts"
  then have "list_all is_ok (parse_items (general_subtree L) bs)"
    and *: "ts = List.map_filter (\<lambda>x. case x of Ok b \<Rightarrow> Some b | _ \<Rightarrow> None) (parse_items (general_subtree L) bs)"
    by (auto simp: bases_def Let_def split: if_splits)
  then obtain ys where ys: "parse_items (general_subtree L) bs = map Ok ys" using all_ok_map by blast
  have "List.map_filter (\<lambda>x. case x of Ok b \<Rightarrow> Some b | _ \<Rightarrow> None) (map Ok ys) = ys" for ys :: "GeneralName list"
    by (induction ys) (simp_all add: List.map_filter_def)
  with * ys show "parse_items (general_subtree L) bs = map Ok ts" by simp
next
  have "List.map_filter (\<lambda>x. case x of Ok b \<Rightarrow> Some b | _ \<Rightarrow> None) (map Ok ts) = ts" for ts :: "GeneralName list"
    by (induction ts) (simp_all add: List.map_filter_def)
  moreover assume "parse_items (general_subtree L) bs = map Ok ts"
  ultimately show "bases bs = Some ts" by (simp add: bases_def list_all_iff)
qed

lemma fold_bases:
  "fold_items f s (parse_items (general_subtree L) bs) = Ok t \<longleftrightarrow>
    (\<exists>ts. bases bs = Some ts \<and> fold_items f s (map Ok ts) = Ok t)"
proof (cases "bases bs")
  case None
  then have "\<not> list_all is_ok (parse_items (general_subtree L) bs)" by (auto simp: bases_def Let_def split: if_splits)
  with None show ?thesis by (auto simp: fold_items_failure)
next
  case (Some ts)
  then show ?thesis by (auto simp: bases_Some)
qed

lemma check_subtrees_None:
  "check_subtrees L n PermittedSubtrees p = None \<longleftrightarrow> (\<forall>bs. p = Some bs \<longrightarrow> (\<exists>ts. bases bs = Some ts \<and> permitted_by ts n))"
  "check_subtrees L n ExcludedSubtrees p = None \<longleftrightarrow> (\<forall>bs. p = Some bs \<longrightarrow> (\<exists>ts. bases bs = Some ts \<and> not_excluded_by ts n))"
proof -
  have run: "check_subtrees L n k (Some bs) = None \<longleftrightarrow>
      (\<exists>a b. fold_items (subtree_step k n) (False, False) (parse_items (general_subtree L) bs) = Ok (a, b) \<and> \<not> (b \<and> \<not> a))" for k bs
    by (auto simp: check_subtrees_def check_subtree_loop list_ops split: result.split)
  show "check_subtrees L n PermittedSubtrees p = None \<longleftrightarrow> (\<forall>bs. p = Some bs \<longrightarrow> (\<exists>ts. bases bs = Some ts \<and> permitted_by ts n))"
  proof (cases p)
    case (Some bs)
    then show ?thesis unfolding Some run fold_bases fold_permitted permitted_by_def by auto
  qed (simp add: check_subtrees_def)
  show "check_subtrees L n ExcludedSubtrees p = None \<longleftrightarrow> (\<forall>bs. p = Some bs \<longrightarrow> (\<exists>ts. bases bs = Some ts \<and> not_excluded_by ts n))"
  proof (cases p)
    case (Some bs)
    then show ?thesis unfolding Some run fold_bases fold_excluded by auto
  qed (simp add: check_subtrees_def)
qed

lemma conforms_iff: "check_presented_id_conforms_to_constraints L n p e = None \<longleftrightarrow> conforms p e n"
  unfolding check_presented_id_conforms_to_constraints_def conforms_def
  by (auto simp: check_subtrees_None [symmetric] split: option.split)

section \<open>The names of a chain\<close>

fun chain_certs :: "Cert \<Rightarrow> cert_fields list" where
  "chain_certs (Cert role f) = f # (case role of EndEntity \<Rightarrow> [] | Ca child \<Rightarrow> chain_certs child)"

definition chain_conforms :: "SubjectCommonNameContents \<Rightarrow> bytes option \<Rightarrow> bytes option \<Rightarrow> Cert \<Rightarrow> bool" where
  "chain_conforms contents permitted excluded c \<longleftrightarrow>
    (\<forall>f \<in> set (chain_certs c).
      \<forall>x \<in> set (cert_items (Some (cert_subject f)) (cert_subject_alt_name f) contents).
        \<exists>n. x = Ok n \<and> conforms permitted excluded n)"

lemma check_subtrees_not_Ok: "check_subtrees L n k p \<noteq> Some (Ok x)"
  by (auto simp: check_subtrees_def split: option.splits result.splits)

lemma conforms_not_Ok: "check_presented_id_conforms_to_constraints L n p e \<noteq> Some (Ok x)"
  by (auto simp: check_presented_id_conforms_to_constraints_def check_subtrees_not_Ok split: option.splits)

lemma search_constraints:
  "search (name_constraints_closure L p e) () xs = Ok (None, ()) \<longleftrightarrow>
    (\<forall>x \<in> set xs. \<exists>n. x = Ok n \<and> conforms p e n)"
proof (induction xs)
  case (Cons x xs)
  show ?case
  proof (cases x)
    case (Ok n)
    with Cons show ?thesis
      by (cases "check_presented_id_conforms_to_constraints L n p e")
        (auto simp: name_constraints_closure_def simp flip: conforms_iff)
  qed (auto simp: name_constraints_closure_def)
qed simp

lemma search_constraints_found:
  "search (name_constraints_closure L p e) () xs \<noteq> Ok (Some (Ok y), ())"
proof (induction xs)
  case (Cons x xs)
  show ?case
  proof (cases x)
    case (Ok n)
    with Cons conforms_not_Ok [of n p e] show ?thesis
      by (cases "check_presented_id_conforms_to_constraints L n p e") (auto simp: name_constraints_closure_def)
  qed (auto simp: name_constraints_closure_def)
qed simp

lemma constraints_continue:
  assumes "\<And>y. s \<noteq> Ok (Some (Ok y), ())"
  shows "res_bind s (\<lambda>(result, _).
      case result of Some (Err err) \<Rightarrow> Err err | Some Panic \<Rightarrow> Panic | Some Diverge \<Rightarrow> Diverge | _ \<Rightarrow> k) = Ok () \<longleftrightarrow>
    s = Ok (None, ()) \<and> k = Ok ()"
proof (cases s)
  case (Ok x)
  obtain a where a: "x = (a, ())" by (cases x) auto
  show ?thesis
  proof (cases a)
    case (Some r)
    with assms Ok a show ?thesis by (cases r) auto
  qed (simp add: Ok a)
qed simp_all

lemma check_names_of_chain_iff: "check_names_of_chain L contents p e c = Ok () \<longleftrightarrow> chain_conforms contents p e c"
proof (induction c rule: cert_chain_induct)
  case (EndEntity f)
  show ?case
    unfolding check_names_of_chain.simps find_map_search EndEntityOrCa.case
      constraints_continue [OF search_constraints_found] search_constraints
    by (simp add: chain_conforms_def)
next
  case (Ca child f)
  show ?case
    unfolding check_names_of_chain.simps find_map_search EndEntityOrCa.case
      constraints_continue [OF search_constraints_found] search_constraints Ca
    by (auto simp: chain_conforms_def)
qed

section \<open>The name constraints extension\<close>

definition subtrees_octets :: "u8 \<Rightarrow> bytes option \<Rightarrow> bytes" where
  "subtrees_octets t s = (case s of None \<Rightarrow> [] | Some v \<Rightarrow> der_encode t v)"

lemma parse_subtrees_iff:
  "parse_subtrees L t r = (Ok x, r') \<longleftrightarrow>
    (case x of
       None \<Rightarrow> r' = r \<and> (r = [] \<or> hd r \<noteq> tag_u8 t)
     | Some v \<Rightarrow> length v < 65535 \<and> r = der_encode (tag_u8 t) v @ r')"
proof (cases "r \<noteq> [] \<and> hd r = tag_u8 t")
  case True
  then have "peek L (tag_u8 t) r = (Ok True, r)" by (cases r) (auto simp: run_simps)
  with True show ?thesis
    by (auto simp: parse_subtrees_def and_then_eq_Ok expect_tag_iff ok_eq_Ok split: option.split)
next
  case False
  then have "peek L (tag_u8 t) r = (Ok False, r)" by (cases r) (auto simp: run_simps)
  with False show ?thesis
    by (auto simp: parse_subtrees_def and_then_eq_Ok ok_eq_Ok der_encode_def split: option.split)
qed

definition constraints_hold :: "SubjectCommonNameContents \<Rightarrow> bytes option \<Rightarrow> Cert \<Rightarrow> bool" where
  "constraints_hold contents constraints c \<longleftrightarrow>
    (\<forall>bs. constraints = Some bs \<longrightarrow>
      (\<exists>p e. bs = subtrees_octets 0xA0 p @ subtrees_octets 0xA1 e \<and>
        (\<forall>v. p = Some v \<or> e = Some v \<longrightarrow> length v < 65535) \<and> chain_conforms contents p e c))"

lemma check_name_constraints_iff:
  "read_all_optional L BadDer (check_name_constraints L c contents) nc = Ok () \<longleftrightarrow> constraints_hold contents nc c"
proof (cases nc)
  case None
  then show ?thesis
    by (simp add: check_name_constraints_def read_all_optional_run constraints_hold_def)
next
  case (Some bs)
  have tags: "tag_u8 Tag_ContextSpecificConstructed0 = 0xA0" "tag_u8 Tag_ContextSpecificConstructed1 = 0xA1"
    by (simp_all add: CONSTRUCTED_def CONTEXT_SPECIFIC_def)
  have "read_all_optional L BadDer (check_name_constraints L c contents) nc = Ok () \<longleftrightarrow>
      (\<exists>p r. parse_subtrees L Tag_ContextSpecificConstructed0 bs = (Ok p, r) \<and>
        (\<exists>e. parse_subtrees L Tag_ContextSpecificConstructed1 r = (Ok e, []) \<and> chain_conforms contents p e c))"
    unfolding Some check_name_constraints_def read_all_optional_run
    by (simp add: read_all_eq_Ok and_then_eq_Ok of_result_eq_Ok check_names_of_chain_iff)
  also have "\<dots> \<longleftrightarrow> (\<exists>p e. (\<exists>r. parse_subtrees L Tag_ContextSpecificConstructed0 bs = (Ok p, r) \<and>
      parse_subtrees L Tag_ContextSpecificConstructed1 r = (Ok e, [])) \<and> chain_conforms contents p e c)"
    by blast
  also have "\<dots> \<longleftrightarrow> constraints_hold contents nc c"
  proof -
    have "(\<exists>r. parse_subtrees L Tag_ContextSpecificConstructed0 bs = (Ok p, r) \<and>
        parse_subtrees L Tag_ContextSpecificConstructed1 r = (Ok e, [])) \<longleftrightarrow>
      bs = subtrees_octets 0xA0 p @ subtrees_octets 0xA1 e \<and> (\<forall>v. p = Some v \<or> e = Some v \<longrightarrow> length v < 65535)" for p e
      unfolding parse_subtrees_iff tags subtrees_octets_def
      by (cases p; cases e) (auto simp: der_encode_def)
    then show ?thesis unfolding Some constraints_hold_def by auto
  qed
  finally show ?thesis .
qed

section \<open>No panic\<close>

lemma total_common_name_attributes [total_intros]: "total k (common_name_attributes L)"
  unfolding common_name_attributes_def
proof (rule loop_total)
  show "progress (\<lambda>_. and_then (at_end L) (\<lambda>e. if e then ok (Inr None)
      else and_then (expect_tag L Tag_OID) (\<lambda>name_oid.
        if name_oid = COMMON_NAME then and_then (expect_tag L Tag_UTF8String) (\<lambda>value. ok (Inr (Some value)))
        else and_then (read_tag_and_get_value L) (\<lambda>_. ok (Inl ())))))"
    by (rule progressI) (fastforce simp: and_then_eq_Ok at_end_run ok_eq_Ok split: if_splits dest!: expect_tag_shorter read_tag_shorter)
qed (intro total_intros)

lemma common_name_fine: "fine k (common_name L bs)"
proof -
  have "total k (nested L Tag_Set (TrailingData TypeId_CommonNameOuter)
      (nested L Tag_Sequence (TrailingData TypeId_CommonNameInner) (common_name_attributes L)))"
    by (intro total_intros)
  then show ?thesis unfolding common_name_def total_def by blast
qed

lemma ip_constraint_fine: "fine k (ip_presented_id_matches_constraint L n c)"
proof -
  consider "length n \<notin> {4, 16}" | "length n = 4 \<or> length n = 16" "length c \<notin> {8, 32}"
    | "length n = 4 \<and> length c = 32 \<or> length n = 16 \<and> length c = 8"
    | "length n = 4 \<and> length c = 8 \<or> length n = 16 \<and> length c = 32" by auto
  then show ?thesis
  proof cases
    case 4
    then show ?thesis
      using ip_constraint_cidr [of n c] ip_constraint_bad_mask [of n c] by (metis fine_simps(1,2) insertE singletonD)
  qed (use ip_constraint_lengths in auto)
qed

lemma subtree_matches_fine: "subtree_matches L k n b = Some m \<Longrightarrow> fine t m"
  using ip_constraint_fine presented_id_matches_constraint_run
  by (cases n; cases b) (auto split: if_splits)

lemma check_subtrees_fine: "check_subtrees L n k p = Some m \<Longrightarrow> fine t m"
proof -
  assume m: "check_subtrees L n k p = Some m"
  then obtain bs where p: "p = Some bs" by (auto simp: check_subtrees_def split: option.splits)
  have step: "fine t (subtree_step k n s b)" for s b
    by (auto simp: subtree_step_def intro!: res_bind_fine dest: subtree_matches_fine split: option.split Subtrees.split)
  have "fine t (fold_items (subtree_step k n) (False, False) (parse_items (general_subtree L) bs))"
    by (rule fold_items_fine [OF _ step]) (rule parse_items_fine [OF total_general_subtree])
  with m p show ?thesis
    by (auto simp: check_subtrees_def check_subtree_loop list_ops split: result.splits if_splits)
qed

lemma conforms_fine: "check_presented_id_conforms_to_constraints L n p e = Some m \<Longrightarrow> fine t m"
  by (auto simp: check_presented_id_conforms_to_constraints_def split: option.splits dest: check_subtrees_fine)

lemma alt_names_fine: "x \<in> set (alt_names san) \<Longrightarrow> fine t x"
  by (cases san) (auto simp: alt_names_def intro: parse_items_fine [OF total_general_name_from_der])

lemma subject_items_fine: "x \<in> set (subject_items d c) \<Longrightarrow> fine t x"
proof (cases c)
  case (Some n)
  then show "x \<in> set (subject_items d c) \<Longrightarrow> fine t x"
    using common_name_fine [of t n]
    by (cases "common_name L n") (auto simp: subject_items_def split: option.splits)
qed (auto simp: subject_items_def split: option.splits)

lemma cert_items_fine: "x \<in> set (cert_items a b c) \<Longrightarrow> fine t x"
  by (auto simp: cert_items_def iterator_items_def Let_def split: if_splits intro: alt_names_fine subject_items_fine)

lemma search_constraints_fine:
  "\<forall>x \<in> set xs. fine True x \<Longrightarrow> \<exists>r. search (name_constraints_closure L p e) () xs = Ok (r, ()) \<and>
    (\<forall>m. r = Some m \<longrightarrow> fine True m)"
proof (induction xs)
  case (Cons x xs)
  show ?case
  proof (cases x)
    case (Ok n)
    with Cons show ?thesis
      by (cases "check_presented_id_conforms_to_constraints L n p e")
        (auto simp: name_constraints_closure_def dest: conforms_fine)
  qed (use Cons.prems in \<open>auto simp: name_constraints_closure_def\<close>)
qed simp

lemma constraints_continue_fine:
  assumes "\<forall>x \<in> set xs. fine True x" "fine True k"
  shows "fine True (res_bind (search (name_constraints_closure L p e) () xs) (\<lambda>(result, _).
      case result of Some (Err err) \<Rightarrow> Err err | Some Panic \<Rightarrow> Panic | Some Diverge \<Rightarrow> Diverge | _ \<Rightarrow> k))"
proof -
  from search_constraints_fine [OF assms(1)] obtain r where
    r: "search (name_constraints_closure L p e) () xs = Ok (r, ())" "\<forall>m. r = Some m \<longrightarrow> fine True m" by blast
  show ?thesis
  proof (cases r)
    case (Some m)
    with r assms(2) show ?thesis by (cases m) auto
  qed (simp add: r assms(2))
qed

lemma check_names_of_chain_fine: "fine True (check_names_of_chain L contents p e c)"
  by (induction c rule: cert_chain_induct)
    (simp_all only: check_names_of_chain.simps find_map_search EndEntityOrCa.case,
     auto intro!: constraints_continue_fine cert_items_fine)

lemma check_name_constraints_fine: "fine True (read_all_optional L BadDer (check_name_constraints L c contents) nc)"
proof (cases nc)
  case (Some bs)
  have "total True (and_then (parse_subtrees L Tag_ContextSpecificConstructed0) (\<lambda>p.
       and_then (parse_subtrees L Tag_ContextSpecificConstructed1) (\<lambda>e.
         of_result (check_names_of_chain L contents p e c))))"
    unfolding parse_subtrees_def by (intro total_intros check_names_of_chain_fine)
  then show ?thesis
    unfolding Some check_name_constraints_def read_all_optional_run option.case by (rule read_all_fine)
qed (simp add: check_name_constraints_def read_all_optional_run)

section \<open>Names that were accepted\<close>

lemma subject_name_accepted:
  assumes "subject_name_ref_try_from_ascii L s = Ok (Some n)"
  shows "subject_name_ok n \<and> subject_name_ref_as_ref n = s"
proof -
  obtain v4 where v4: "parse_ipv4_address L s = Ok v4"
    "\<forall>a. v4 = Some a \<longleftrightarrow> (\<exists>os. a = V4 s os \<and> length os = 4 \<and> s = ipv4_to_string os)"
    using parse_ipv4_run by blast
  obtain v6 where v6: "parse_ipv6_address L s = Ok v6"
    "\<forall>a. v6 = Some a \<longleftrightarrow> (\<exists>os. a = V6 s os \<and> length os = 16 \<and> map ascii_lower s = ipv6_to_uncompressed_string os)"
    using parse_ipv6_run by blast
  from assms v4(1) v6(1) consider a where "v4 = Some a" "n = SN_IpAddress a" | a where "v6 = Some a" "n = SN_IpAddress a"
    | "dns_name_ref_try_from_ascii L s = Ok (Some (DnsNameRef s))" "n = SN_DnsName (DnsNameRef s)"
    by (auto simp: subject_name_ref_try_from_ascii_def dns_name_ref_try_from_ascii_def is_valid_dns_id_eq
      split: option.splits if_splits)
  then show ?thesis
  proof cases
    case 1
    with v4(2) obtain os where "a = V4 s os" "length os = 4" by blast
    with 1 show ?thesis by simp
  next
    case 2
    with v6(2) obtain os where "a = V6 s os" "length os = 16" by blast
    with 2 show ?thesis by simp
  next
    case 3
    then show ?thesis by (auto simp: dns_name_ref_try_from_ascii_def is_valid_dns_id_eq split: if_splits)
  qed
qed

section \<open>The list of DNS names\<close>

fun listed :: "GeneralName \<Rightarrow> GeneralDnsNameRef option" where
  "listed (GN_DnsName n) =
    (if dns_id_ok Reference WildcardsNo n then Some (General_DnsName (DnsNameRef n))
     else if dns_id_ok Reference WildcardsYes n then Some (General_Wildcard (WildcardDnsNameRef n)) else None)"
| "listed _ = None"

lemma list_dns_names_step:
  "list_dns_names_closure L (Ok n) ns = Ok (None, ns @ (case listed n of None \<Rightarrow> [] | Some x \<Rightarrow> [x]))"
  by (cases n) (auto simp: list_dns_names_closure_def dns_name_ref_try_from_ascii_def wildcard_try_from_ascii_def
    is_valid_dns_id_eq)

lemma search_list:
  "search (list_dns_names_closure L) s (map Ok ns @ xs) = search (list_dns_names_closure L) (s @ List.map_filter listed ns) xs"
  by (induction ns arbitrary: s) (auto simp: list_dns_names_step List.map_filter_def)

lemma cert_items_shape:
  obtains ns where "cert_items a b c = map Ok ns" | ns e where "cert_items a b c = map Ok ns @ [Err e]"
proof -
  let ?it = "name_iterator_new L a b c"
  let ?si = "subject_items (it_subject_directory_name ?it) (it_subject_common_name ?it)"
  have subj: "(\<exists>ns. ?si = map Ok ns) \<or> (\<exists>ns e. ?si = map Ok ns @ [Err e])"
  proof (cases "it_subject_common_name ?it")
    case None
    then show ?thesis
      by (auto simp: subject_items_def intro!: exI [of _ "[]"] exI [of _ "[x]" for x] split: option.split)
  next
    case (Some n)
    define d where "d = (case it_subject_directory_name ?it of None \<Rightarrow> [] | Some d \<Rightarrow> [GN_DirectoryName d])"
    have si: "?si = map Ok d @ (case common_name L n of Ok (Some n) \<Rightarrow> [Ok (GN_DnsName n)] | Ok None \<Rightarrow> []
        | Err e \<Rightarrow> [Err e] | Panic \<Rightarrow> [Panic] | Diverge \<Rightarrow> [Diverge])"
      using Some by (simp add: subject_items_def d_def split: option.split)
    show ?thesis
    proof (cases "common_name L n")
      case (Ok x)
      then have "?si = map Ok (d @ (case x of None \<Rightarrow> [] | Some n \<Rightarrow> [GN_DnsName n]))"
        unfolding si by (simp split: option.split)
      then show ?thesis by (intro disjI1) (rule exI)
    next
      case (Err e)
      with si have "?si = map Ok d @ [Err e]" by simp
      then show ?thesis by blast
    qed (use common_name_fine [of True n] in simp_all)
  qed
  show thesis
  proof (rule alt_names_shape [of "it_subject_alt_name ?it"])
    fix ns
    assume ns: "alt_names (it_subject_alt_name ?it) = map Ok ns"
    then have c: "cert_items a b c = map Ok ns @ ?si"
      by (simp add: cert_items_def iterator_items_def list_all_iff)
    from subj show thesis
    proof (elim disjE exE)
      fix ms
      assume "?si = map Ok ms"
      with c have "cert_items a b c = map Ok (ns @ ms)" by simp
      then show thesis by (rule that(1))
    next
      fix ms e
      assume "?si = map Ok ms @ [Err e]"
      with c have "cert_items a b c = map Ok (ns @ ms) @ [Err e]" by simp
      then show thesis by (rule that(2))
    qed
  next
    fix ns
    assume ns: "alt_names (it_subject_alt_name ?it) = map Ok ns @ [Err BadDer]"
    then have "cert_items a b c = map Ok ns @ [Err BadDer]"
      by (simp add: cert_items_def iterator_items_def)
    then show thesis by (rule that(2))
  qed
qed

lemma list_cert_dns_names_run:
  "let xs = cert_items (Some (cert_subject (cert_body (inner ee)))) (cert_subject_alt_name (cert_body (inner ee))) CN_DnsName in
   (\<forall>ns. xs = map Ok ns \<longrightarrow> list_cert_dns_names L ee = Ok (List.map_filter listed ns)) \<and>
   (\<not> list_all is_ok xs \<longrightarrow> (\<exists>e. Err e \<in> set xs \<and> list_cert_dns_names L ee = Err e))"
proof -
  define xs where "xs = cert_items (Some (cert_subject (cert_body (inner ee)))) (cert_subject_alt_name (cert_body (inner ee))) CN_DnsName"
  have run: "list_cert_dns_names L ee = res_bind (search (list_dns_names_closure L) [] xs)
      (\<lambda>(result, names). case result of Some err \<Rightarrow> Err err | None \<Rightarrow> Ok names)"
    by (simp add: list_cert_dns_names_def Let_def find_map_search xs_def)
  have ok: "list_cert_dns_names L ee = Ok (List.map_filter listed ns)" if "xs = map Ok ns" for ns
    using search_list [of "[]" ns "[]"] that by (simp add: run)
  have err: "list_cert_dns_names L ee = Err e" if "xs = map Ok ns @ [Err e]" for ns e
    using search_list [of "[]" ns "[Err e]"] that by (simp add: run list_dns_names_closure_def)
  show ?thesis unfolding xs_def [symmetric] Let_def
  proof (rule cert_items_shape [of "Some (cert_subject (cert_body (inner ee)))" "cert_subject_alt_name (cert_body (inner ee))" CN_DnsName,
        folded xs_def])
    fix ns assume "xs = map Ok ns"
    with ok show "(\<forall>ns. xs = map Ok ns \<longrightarrow> list_cert_dns_names L ee = Ok (List.map_filter listed ns)) \<and>
      (\<not> list_all is_ok xs \<longrightarrow> (\<exists>e. Err e \<in> set xs \<and> list_cert_dns_names L ee = Err e))" by (simp add: list_all_iff)
  next
    fix ns e assume "xs = map Ok ns @ [Err e]"
    with ok err show "(\<forall>ns. xs = map Ok ns \<longrightarrow> list_cert_dns_names L ee = Ok (List.map_filter listed ns)) \<and>
      (\<not> list_all is_ok xs \<longrightarrow> (\<exists>e. Err e \<in> set xs \<and> list_cert_dns_names L ee = Err e))" by force
  qed
qed

section \<open>Properties\<close>

lemma general_name_encoded:
  assumes "length v < 65535"
  shows "general_name_from_der L (der_encode 0x82 v @ r) = (Ok (GN_DnsName v), r)"
    "general_name_from_der L (der_encode 0x87 v @ r) = (Ok (GN_IpAddress v), r)"
    "general_name_from_der L (der_encode 0x30 v @ r) = (Err BadDer, r)"
proof -
  have "read_tag_and_get_value L (der_encode t v @ r) = (Ok (t, v), r)" if "low_tag t" for t
    using that assms by (simp add: read_tag_default_iff)
  then have "read_tag_and_get_value L (der_encode t v @ r) = (Ok (t, v), r)" if "t \<in> {0x82, 0x87, 0x30}" for t
    using that by (auto simp: low_tag_def der_limits)
  then show "general_name_from_der L (der_encode 0x82 v @ r) = (Ok (GN_DnsName v), r)"
    "general_name_from_der L (der_encode 0x87 v @ r) = (Ok (GN_IpAddress v), r)"
    "general_name_from_der L (der_encode 0x30 v @ r) = (Err BadDer, r)"
    by (simp_all add: general_name_from_der_def and_then_run CONTEXT_SPECIFIC_def CONSTRUCTED_def run_simps)
qed

lemma parse_items_encoded:
  assumes "length v < 65535"
  shows "parse_items (general_name_from_der L) (der_encode 0x82 v @ r) = Ok (GN_DnsName v) # parse_items (general_name_from_der L) r"
    "parse_items (general_name_from_der L) (der_encode 0x87 v @ r) = Ok (GN_IpAddress v) # parse_items (general_name_from_der L) r"
    "parse_items (general_name_from_der L) (der_encode 0x30 v @ r) = [Err BadDer]"
  using general_name_encoded [OF assms, of r] general_name_shorter
  by (auto intro!: parse_items_Ok parse_items_fail simp: der_encode_def)

lemma bases_encoded:
  assumes "length v < 65000"
  shows "bases (der_encode 0x30 (der_encode 0x82 v)) = Some [GN_DnsName v]"
proof -
  have l: "length (der_encode 0x82 v) < 65535"
    using assms by (cases "length v < 128"; cases "length v < 256")
      (simp_all add: der_encode_def der_encode_length_short der_encode_length_1 der_encode_length_2)
  have "general_subtree L (der_encode 0x30 (der_encode 0x82 v)) = (Ok (GN_DnsName v), [])"
    using general_name_encoded(1) [of v "[]"] l assms
    by (auto simp: general_subtree_def and_then_eq_Ok of_result_eq_Ok expect_tag_iff der_read_all_def read_all_eq_Ok CONSTRUCTED_def
      intro!: exI [of _ "der_encode 0x82 v"])
  then have "parse_items (general_subtree L) (der_encode 0x30 (der_encode 0x82 v)) = Ok (GN_DnsName v) # parse_items (general_subtree L) []"
    by (intro subtrees.items_Ok) (auto simp: der_encode_def)
  then show ?thesis by (simp add: bases_Some)
qed

text \<open>C9: a certificate is valid for a name asked for exactly when its subject alternative name has a matching entry, of the
  entries in front of the first that cannot be read. Otherwise the answer is an error that says
  whether all entries could be read; the common name of the subject plays no part.\<close>

theorem subject_name_verification:
  assumes "untrusted_reader U rest later" and "subject_name_ok n"
  shows "verify_cert_subject_name U ee n =
    (let san = cert_subject_alt_name (cert_body (inner ee)) in
     if \<exists>p. Ok p \<in> set (alt_names san) \<and> name_asked_for n p then Ok ()
     else Err (if list_all is_ok (alt_names san) then CertNotValidForName else BadDer))"
  unfolding untrusted_reader.verify_cert_subject_name_indep [OF assms(1)]
  by (rule verify_cert_subject_name_run [OF assms(2)])

theorem subject_name_verification_witness:
  "verify_cert_subject_name list_reader
      \<lparr>inner = Cert EndEntity (small_fields\<lparr>cert_subject_alt_name := Some [0x87, 4, 10, 0, 0, 1, 0x82, 5, 0x2A, 0x2E, 0x61, 0x2E, 0x62]\<rparr>)\<rparr>
      (SN_DnsName (DnsNameRef [0x77, 0x2E, 0x61, 0x2E, 0x62])) = Ok ()"
proof -
  have "subject_name_ok (SN_DnsName (DnsNameRef [0x77, 0x2E, 0x61, 0x2E, 0x62]))" by code_simp
  moreover have "alt_names (Some [0x87, 4, 10, 0, 0, 1, 0x82, 5, 0x2A, 0x2E, 0x61, 0x2E, 0x62]) =
      [Ok (GN_IpAddress [10, 0, 0, 1]), Ok (GN_DnsName [0x2A, 0x2E, 0x61, 0x2E, 0x62])]"
    using parse_items_encoded(2) [of "[10, 0, 0, 1]" "[0x82, 5, 0x2A, 0x2E, 0x61, 0x2E, 0x62]"]
      parse_items_encoded(1) [of "[0x2A, 0x2E, 0x61, 0x2E, 0x62]" "[]"] by (simp add: der_encode_short alt_names_def)
  moreover have "name_asked_for (SN_DnsName (DnsNameRef [0x77, 0x2E, 0x61, 0x2E, 0x62])) (GN_DnsName [0x2A, 0x2E, 0x61, 0x2E, 0x62])"
    by code_simp
  ultimately show ?thesis
    using subject_name_verification [OF lr.untrusted_reader_axioms,
      of "SN_DnsName (DnsNameRef [0x77, 0x2E, 0x61, 0x2E, 0x62])"
        "\<lparr>inner = Cert EndEntity (small_fields\<lparr>cert_subject_alt_name := Some [0x87, 4, 10, 0, 0, 1, 0x82, 5, 0x2A, 0x2E, 0x61, 0x2E, 0x62]\<rparr>)\<rparr>"]
    by auto
qed

text \<open>C37: text that is accepted as a subject name gives a well-formed name of the right kind, a DNS name of the grammar
  or an address of four or sixteen octets, that keeps the text.\<close>

theorem subject_name_accepted_ok:
  assumes "untrusted_reader U rest later" and "subject_name_ref_try_from_ascii U s = Ok (Some n)"
  shows "subject_name_ok n \<and> subject_name_ref_as_ref n = s"
  using assms(2) unfolding untrusted_reader.subject_name_ref_try_from_ascii_indep [OF assms(1)]
  by (rule subject_name_accepted)

theorem subject_name_accepted_ok_witness:
  "subject_name_ref_try_from_ascii list_reader [0x61] = Ok (Some (SN_DnsName (DnsNameRef [0x61]))) \<and>
    subject_name_ok (SN_DnsName (DnsNameRef [0x61]))"
proof -
  have "subject_name_ref_try_from_ascii list_reader [0x61] = Ok (Some (SN_DnsName (DnsNameRef [0x61])))" by code_simp
  with subject_name_accepted_ok [OF lr.untrusted_reader_axioms this] show ?thesis by simp
qed



text \<open>C33: neither the checks of name constraints nor the verification of a well-formed name can panic or run forever, whatever
  octets the certificates hold.\<close>

theorem names_never_panic:
  assumes "untrusted_reader U rest later"
  shows "fine True (read_all_optional U BadDer (check_name_constraints U c contents) constraints) \<and>
    (subject_name_ok n \<longrightarrow> fine True (verify_cert_subject_name U ee n))"
  unfolding untrusted_reader.check_name_constraints_indep [OF assms]
    untrusted_reader.verify_cert_subject_name_indep [OF assms]
  by (simp add: check_name_constraints_fine verify_cert_subject_name_run Let_def)

theorem names_never_panic_witness:
  "fine True (verify_cert_subject_name list_reader \<lparr>inner = Cert EndEntity small_fields\<rparr> (SN_IpAddress (V4 [] [1, 2, 3, 4])))"
  using names_never_panic [OF lr.untrusted_reader_axioms, of _ _ _ "SN_IpAddress (V4 [] [1, 2, 3, 4])"
    "\<lparr>inner = Cert EndEntity small_fields\<rparr>"] by simp



end
