(* ===== verification/Budget.thy ===== *)
theory Budget
  imports Verify_Cert Name_Search
begin

text \<open>
  Which errors the parts of path building give. The search treats \<open>MaximumSignatureChecksExceeded\<close> in a
  special way, so it matters that nothing but the signature counter gives this error: no parser, no
  check on a certificate, no name constraint and no revocation list.
\<close>

section \<open>Errors of results\<close>

definition errs :: "error set \<Rightarrow> 'a result \<Rightarrow> bool" where
  "errs E x \<longleftrightarrow> (\<forall>e. x = Err e \<longrightarrow> e \<in> E)"

lemma errs_simps [simp]: "errs E (Ok x)" "errs E (Err e) \<longleftrightarrow> e \<in> E" "errs E Panic" "errs E Diverge"
  by (auto simp: errs_def)

lemma errs_bind [raises_intros]: "errs E m \<Longrightarrow> (\<And>x. m = Ok x \<Longrightarrow> errs E (f x)) \<Longrightarrow> errs E (res_bind m f)"
  by (cases m) auto

lemma errs_Err [raises_intros]: "e \<in> E \<Longrightarrow> errs E (Err e)"
  by simp

lemma errs_Ok [raises_intros]: "errs E (Ok x)" "errs E Panic" "errs E Diverge"
  by simp_all

lemma errs_run [raises_intros]: "raises E p \<Longrightarrow> errs E (fst (p r))"
  unfolding raises_def errs_def by (metis prod.collapse)

lemma errs_read_all [raises_intros]: "raises E p \<Longrightarrow> e \<in> E \<Longrightarrow> errs E (read_all L e p bs)"
  using read_all_raises unfolding errs_def by blast

lemma errs_if [raises_intros]: "errs E x \<Longrightarrow> errs E y \<Longrightarrow> errs E (if b then x else y)"
  by simp

lemma errs_case_prod [raises_intros]: "(\<And>a b. errs E (f a b)) \<Longrightarrow> errs E (case x of (a, b) \<Rightarrow> f a b)"
  by (cases x) simp

lemma errs_case_option [raises_intros]:
  "errs E x \<Longrightarrow> (\<And>a. errs E (f a)) \<Longrightarrow> errs E (case m of None \<Rightarrow> x | Some a \<Rightarrow> f a)"
  by (cases m) simp_all

lemma raises_of_result [raises_intros]: "errs E x \<Longrightarrow> raises E (of_result x)"
  unfolding raises_def errs_def of_result_def by auto

lemma raises_rd_loop: "(\<And>s. raises E (body s)) \<Longrightarrow> raises E (rd_loop n body s)"
proof (induction n arbitrary: s)
  case (Suc n)
  have "raises E (case x of Inl s' \<Rightarrow> rd_loop n body s' | Inr y \<Rightarrow> ok y)" for x
    using Suc by (cases x) (auto intro: raises_ok)
  with Suc.prems show ?case by (auto intro: raises_and_then)
qed (auto intro: raises_of_result)

lemma raises_loop [raises_intros]:
  assumes "\<And>s. raises E (body s)"
  shows "raises E (loop L body s)"
proof -
  have "raises E (rd_loop n body s)" for n using assms by (rule raises_rd_loop)
  then show ?thesis unfolding raises_def loop_list by blast
qed

lemma raises_attempt [raises_intros]: "raises E (attempt p)"
  unfolding raises_def attempt_run by (auto split: prod.splits result.splits)

lemma raises_on_other [raises_intros]:
  "raises E p \<Longrightarrow> (\<And>x s'. raises E (k x s')) \<Longrightarrow> raises E (on_other p s k)"
  unfolding on_other_def
  by (cases "p s"; cases "fst (p s)") (auto simp: raises_def of_result_def)

lemma raises_nested_of_mut [raises_intros]:
  "e \<in> E \<Longrightarrow> BadDer \<in> E \<Longrightarrow> (\<And>s. raises E (p s)) \<Longrightarrow> raises E (nested_of_mut L t t' e p s)"
  unfolding nested_of_mut_def by (intro raises_intros)

lemma errs_fold_items:
  "(\<And>x. x \<in> set xs \<Longrightarrow> errs E x) \<Longrightarrow> (\<And>s x. errs E (f s x)) \<Longrightarrow> errs E (fold_items f s xs)"
  by (induction xs arbitrary: s) (auto intro!: errs_bind)

section \<open>The parts of path building\<close>

abbreviation others :: "error set" where
  "others \<equiv> - {MaximumSignatureChecksExceeded}"

lemma others_der [raises_intros]:
  "raises others (read_tag_and_get_value L)" "raises others (nonnegative_integer L)" "raises others (u8_from_der L)"
  "raises others (bool_from_der L)" "errs others (bit_string_flags L v)"
  unfolding read_tag_and_get_value_def nonnegative_integer_def u8_from_der_def bool_from_der_def bit_string_flags_def Let_def
  by (intro raises_intros; simp)+

lemma others_time [raises_intros]: "raises others (time_from_der L)"
proof -
  have "errs others (days_in_month y m)" "errs others (time_from_ymdhms_utc y m d h mi s)" for y m d h mi s
    by (auto simp: days_in_month_def time_from_ymdhms_utc_def days_before_year_since_unix_epoch_def
      days_before_month_in_year_def Let_def intro!: errs_bind)
  then show ?thesis
    unfolding time_from_der_def read_year_def read_two_digits_def read_digit_def Let_def
    by (intro raises_intros) (simp_all)
qed

lemma others_extension [raises_intros]:
  "raises others (extension_from_der L)" "errs others (unsupported e)"
  "errs others p \<Longrightarrow> errs others (set_extension_once d p)"
  "(\<And>n. errs others (h n)) \<Longrightarrow> errs others (remember_extension e h s)"
  unfolding extension_from_der_def set_extension_once_def remember_extension_def unsupported_def
  by (intro raises_intros; simp)+

lemma others_cert_from_der: "errs others (cert_from_der L der role)"
proof -
  have "errs others (remember_cert_extension L c e)" for c e
    unfolding remember_cert_extension_def Let_def by (intro raises_intros; simp)
  then show ?thesis
    unfolding cert_from_der_def signed_data_from_der_def cert_tbs_def version3_def lenient_certificate_serial_number_def
      cert_extensions_def Let_def
    by (intro raises_intros; simp)
qed

lemma others_basic_constraints [raises_intros]: "errs others (basic_constraints_ok used ca len n)"
  by (cases used; cases ca; cases len) (simp_all add: basic_constraints_ok_def)

lemma others_issuer_independent: "errs others (check_issuer_independent_properties L c time used n eku)"
  unfolding check_issuer_independent_properties_def check_validity_def check_basic_constraints_def eku_check_def eku_loop_def
    read_all_optional_run
  by (intro raises_intros; (simp split: ExtendedKeyUsage.split)?)

lemma others_general_name [raises_intros]: "raises others (general_name_from_der L)" "raises others (general_subtree L)"
  unfolding general_subtree_def general_name_from_der_def der_read_all_def Let_def by (intro raises_intros; simp)+

lemma others_subtree_matches: "subtree_matches L k n b = Some m \<Longrightarrow> errs others m"
proof -
  have "errs others (ip_presented_id_matches_constraint L x y)" for x y
  proof -
    consider "length x \<notin> {4, 16}" | "length x = 4 \<or> length x = 16" "length y \<notin> {8, 32}"
      | "length x = 4 \<and> length y = 32 \<or> length x = 16 \<and> length y = 8"
      | "length x = 4 \<and> length y = 8 \<or> length x = 16 \<and> length y = 32" by auto
    then show ?thesis
    proof cases
      case 4
      show ?thesis
      proof (cases "\<exists>n \<le> 8 * length x. cidr_mask n (drop (length x) y)")
        case True
        with 4 ip_constraint_cidr [of x y] have "\<exists>b. ip_presented_id_matches_constraint L x y = Ok b" by blast
        then show ?thesis by auto
      next
        case False
        with 4 ip_constraint_bad_mask [of x y]
        have "ip_presented_id_matches_constraint L x y \<in> {Ok False, Err InvalidNetworkMaskConstraint}" by blast
        then show ?thesis by auto
      qed
    qed (use ip_constraint_lengths in auto)
  qed
  then show "subtree_matches L k n b = Some m \<Longrightarrow> errs others m"
    by (cases n; cases b) (auto simp: presented_id_matches_constraint_run split: if_splits)
qed

lemma others_check_subtrees: "check_subtrees L n k p = Some m \<Longrightarrow> errs others m"
proof -
  have step: "errs others (subtree_step k n s b)" for s b
    unfolding subtree_step_def
    by (auto intro!: errs_bind dest: others_subtree_matches split: option.split Subtrees.split)
  have "errs others (fst (loop L (check_subtree L k n) s r))" for s r
    unfolding check_subtree_loop
    by (intro errs_fold_items step) (auto simp: errs_def dest: parse_items_raises [OF others_general_name(2)])
  then show "check_subtrees L n k p = Some m \<Longrightarrow> errs others m"
    by (auto simp: check_subtrees_def errs_def split: option.splits result.splits if_splits)
qed

lemma others_conforms: "check_presented_id_conforms_to_constraints L n p e = Some m \<Longrightarrow> errs others m"
  by (auto simp: check_presented_id_conforms_to_constraints_def split: option.splits dest: others_check_subtrees)

lemma others_cert_items: "x \<in> set (cert_items a b c) \<Longrightarrow> errs others x"
proof -
  have cn: "errs others (common_name L n)" for n
    unfolding common_name_def common_name_attributes_def by (intro raises_intros; simp)
  have "x \<in> set (subject_items d c) \<Longrightarrow> errs others x" for d c
  proof (cases c)
    case (Some n)
    then show "x \<in> set (subject_items d c) \<Longrightarrow> errs others x"
      using cn [of n] by (cases "common_name L n") (auto simp: subject_items_def split: option.splits)
  qed (auto simp: subject_items_def split: option.splits)
  moreover have "x \<in> set (alt_names san) \<Longrightarrow> errs others x" for san
    by (cases san) (auto simp: alt_names_def errs_def dest: parse_items_raises [OF others_general_name(1)])
  ultimately show "x \<in> set (cert_items a b c) \<Longrightarrow> errs others x"
    by (auto simp: cert_items_def iterator_items_def Let_def split: if_splits)
qed

lemma others_search_constraints:
  "(\<And>x. x \<in> set xs \<Longrightarrow> errs others x) \<Longrightarrow> search (name_constraints_closure L p e) () xs = Ok (Some m, ()) \<Longrightarrow> errs others m"
proof (induction xs)
  case (Cons x xs)
  show ?case
  proof (cases x)
    case (Ok n)
    with Cons show ?thesis
      by (cases "check_presented_id_conforms_to_constraints L n p e")
        (auto simp: name_constraints_closure_def dest: others_conforms)
  next
    case (Err z)
    with Cons.prems(1) [of x] Cons.prems(2) show ?thesis by (auto simp: name_constraints_closure_def)
  qed (use Cons.prems(2) in \<open>auto simp: name_constraints_closure_def\<close>)
qed simp

lemma others_names_of_chain [raises_intros]: "errs others (check_names_of_chain L contents p e c)"
proof -
  have continue: "errs others (res_bind (search (name_constraints_closure L p e) () xs) (\<lambda>(result, _).
      case result of Some (Err err) \<Rightarrow> Err err | Some Panic \<Rightarrow> Panic | Some Diverge \<Rightarrow> Diverge | _ \<Rightarrow> k))"
    if "\<forall>x \<in> set xs. fine True x \<and> errs others x" "errs others k" for xs k
  proof -
    from search_constraints_fine [of xs p e] that obtain r where
      r: "search (name_constraints_closure L p e) () xs = Ok (r, ())" by blast
    show ?thesis
    proof (cases r)
      case (Some m)
      with others_search_constraints [of xs p e m] r that have "errs others m" by auto
      with r Some that(2) show ?thesis by (cases m) auto
    qed (simp add: r that(2))
  qed
  show ?thesis
    by (induction c rule: cert_chain_induct)
      (simp_all only: check_names_of_chain.simps find_map_search EndEntityOrCa.case,
       auto intro!: continue cert_items_fine others_cert_items)
qed

lemma others_name_constraints: "errs others (read_all_optional L BadDer (check_name_constraints L c contents) nc)"
  unfolding check_name_constraints_def read_all_optional_run parse_subtrees_def
  by (intro raises_intros; simp)

section \<open>Signatures and revocation\<close>

lemma others_verify_signed_data [raises_intros]: "errs others (verify_signed_data L algs spki d)"
proof -
  have "raises others (spki_from_der L)" unfolding spki_from_der_def by (intro raises_intros; simp)
  then have "errs others (der_read_all L TypeId_SubjectPublicKeyInfo (spki_from_der L) spki)"
    unfolding der_read_all_def by (intro raises_intros; simp)
  then show ?thesis
    unfolding verify_signed_data_refines verify_signed_data_spec_def
    by (auto intro!: errs_bind split: option.split)
qed

lemma others_revoked_cert [raises_intros]: "raises others (revoked_cert_from_der L)"
proof -
  have reason: "raises others (revocation_reason_from_der L)"
    unfolding revocation_reason_from_der_def revocation_reason_try_from_def by (intro raises_intros; simp)
  have ext: "errs others (remember_revoked_cert_extension L c e)" for c e
    unfolding remember_revoked_cert_extension_def der_read_all_def by (intro raises_intros reason; simp)
  show ?thesis
    unfolding revoked_cert_from_der_def revoked_cert_extensions_def lenient_certificate_serial_number_def Let_def
    by (intro raises_intros ext; simp)
qed

lemma others_find_serial [raises_intros]: "errs others (find_serial L crl sn)"
  by (cases crl) (simp add: owned_find_serial_def, simp only: find_serial.simps borrowed_find_serial_def, intro raises_intros)

lemma others_distribution_point_name [raises_intros]: "raises others (distribution_point_name_from_der L)"
  unfolding distribution_point_name_from_der_def Let_def by (intro raises_intros; simp)

lemma errs_case_result:
  "errs E x \<Longrightarrow> (\<And>a. errs E (f a)) \<Longrightarrow> (\<And>e. x = Err e \<Longrightarrow> errs E (g e)) \<Longrightarrow>
    errs E (case x of Ok a \<Rightarrow> f a | Err e \<Rightarrow> g e | Panic \<Rightarrow> Panic | Diverge \<Rightarrow> Diverge)"
  by (cases x) simp_all

lemma others_uri_name_in_common [raises_intros]: "raises others (uri_name_in_common L g)"
proof -
  have "raises others (uri_name_turn L g)" for g
    unfolding uri_name_turn_def find_uri_def
    by (intro raises_intros) (auto intro!: raises_intros split: GeneralName.split)
  then show ?thesis unfolding uri_name_in_common_def by (intro raises_intros)
qed

lemma others_authoritative [raises_intros]: "errs others (authoritative_for L idp c)"
proof -
  have turn: "raises others (authoritative_turn L g)" for g
    unfolding authoritative_turn_def
    by (intro raises_intros) (auto intro!: raises_intros split: DistributionPointName.split)
  have "raises others (loop L (authoritative_turn L) g)" for g by (intro raises_intros turn)
  then show ?thesis
    unfolding authoritative_for_def
    by (auto intro!: errs_run split: option.split result.split DistributionPointName.split)
qed

lemma others_crl_authoritative [raises_intros]: "errs others (crl_authoritative L crl c)"
  unfolding crl_authoritative_def by (auto intro!: raises_intros split: option.split result.split)

lemma others_find_crl [raises_intros]: "errs others (find_crl L c cs)"
proof (induction cs)
  case (Cons crl cs)
  then show ?case unfolding find_crl.simps by (intro raises_intros)
qed simp

lemma others_crl_signature [raises_intros]: "errs others (res_map_err crl_signature_err (crl_verify_signature L crl algs spki))"
proof -
  have "errs others x \<Longrightarrow> errs others (res_map_err crl_signature_err x)" for x :: "unit result"
    by (cases x) (auto simp: crl_signature_err_def)
  then show ?thesis by (cases crl) (auto intro: others_verify_signed_data)
qed

lemma others_check_crls: "errs others (check_crls L algs c subj spki ku ro)"
proof -
  have ku: "errs others (key_usage_check L m ku)" for m
    unfolding key_usage_check_def by (intro raises_intros; simp)
  show ?thesis
    unfolding check_crls_def
    by (intro raises_intros ku) (auto intro!: raises_intros ku split: UnknownStatusPolicy.split)
qed

end
