(* ===== verification/Cert_Checks.thy ===== *)
theory Cert_Checks
  imports Verify_Cert Cert_Format
begin

text \<open>
  The checks on a single certificate during path building, stated on the octets of its fields: the validity
  period, the basic constraints and the extended key usage.
\<close>

text \<open>The period is not empty, and the given time lies in it, both ends included.\<close>

definition valid_at :: "Time \<Rightarrow> bytes \<Rightarrow> bool" where
  "valid_at t v \<longleftrightarrow>
    (\<exists>b1 b2 not_before not_after. v = b1 @ b2 \<and> encodes_time b1 not_before \<and> encodes_time b2 not_after \<and>
      not_before \<le> not_after \<and> not_before \<le> t \<and> t \<le> not_after)"

lemma check_validity_iff: "read_all L BadDer (check_validity L t) v = Ok () \<longleftrightarrow> valid_at t v"
proof -
  have "read_all L BadDer (check_validity L t) v = Ok () \<longleftrightarrow>
      (\<exists>nb r1 na. time_from_der L v = (Ok nb, r1) \<and> time_from_der L r1 = (Ok na, []) \<and> nb \<le> na \<and> nb \<le> t \<and> t \<le> na)"
    unfolding check_validity_def read_all_eq_Ok and_then_eq_Ok guard_eq_Ok ok_eq_Ok not_less by blast
  also have "\<dots> \<longleftrightarrow> valid_at t v"
    unfolding time_from_der_encodes valid_at_def by auto
  finally show ?thesis .
qed

text \<open>
  A certificate that issued another is a CA and allows as many further CA certificates below it; an
  end-entity certificate is no CA.
\<close>

definition path_len_octets :: "u8 option \<Rightarrow> bytes" where
  "path_len_octets len = (case len of None \<Rightarrow> [] | Some l \<Rightarrow> if l < 128 then [2, 1, l] else [2, 2, 0, l])"

definition basic_constraints_hold :: "UsedAsCa \<Rightarrow> nat \<Rightarrow> bytes option \<Rightarrow> bool" where
  "basic_constraints_hold used n bc \<longleftrightarrow>
    (case bc of
       None \<Rightarrow> used = No
     | Some v \<Rightarrow>
         (\<exists>ca len. \<exists>f \<in> critical_octets ca. v = f @ path_len_octets len \<and> (ca \<longleftrightarrow> used = Yes) \<and>
           (\<forall>l. len = Some l \<and> used = Yes \<longrightarrow> n \<le> unat l)))"

lemma basic_constraints_ok_iff:
  "basic_constraints_ok used ca len n = Ok () \<longleftrightarrow> (ca \<longleftrightarrow> used = Yes) \<and> (\<forall>l. len = Some l \<and> used = Yes \<longrightarrow> n \<le> l)"
  by (cases used; cases ca; cases len) (auto simp: basic_constraints_ok_def)

lemma bool_from_der_front:
  "bool_from_der L v = (Ok ca, path_len_octets len) \<longleftrightarrow> (\<exists>f \<in> critical_octets ca. v = f @ path_len_octets len)"
  unfolding bool_from_der_iff
  by (cases len) (auto simp: critical_octets_def path_len_octets_def split: if_splits)

lemma check_basic_constraints_iff:
  "read_all_optional L BadDer (check_basic_constraints L used n) bc = Ok () \<longleftrightarrow> basic_constraints_hold used n bc"
proof (cases bc)
  case None
  then show ?thesis
    by (cases used) (auto simp: check_basic_constraints_def read_all_optional_run basic_constraints_hold_def basic_constraints_ok_iff)
next
  case (Some v)
  define q where "q e = (if \<not> e then and_then (u8_from_der L) (\<lambda>b. ok (Some (unat b))) else ok None)" for e
  have q: "q (r = []) r = (Ok m, r1) \<longleftrightarrow> (\<exists>len. m = map_option unat len \<and> r = path_len_octets len @ r1 \<and> (len = None \<longrightarrow> r = []))" for r m r1
  proof (cases "r = []")
    case True
    then show ?thesis by (auto simp: q_def ok_eq_Ok path_len_octets_def split: option.splits if_splits)
  next
    case False
    then have "q (r = []) r = (Ok m, r1) \<longleftrightarrow> (\<exists>b. r = path_len_octets (Some b) @ r1 \<and> m = Some (unat b))"
      unfolding q_def and_then_eq_Ok ok_eq_Ok u8_from_der_iff path_len_octets_def by (auto simp: and_then_eq_Ok ok_eq_Ok u8_from_der_iff)
    with False show ?thesis by (metis (no_types, lifting) map_option_eq_Some not_None_eq option.simps(9))
  qed
  have "read_all_optional L BadDer (check_basic_constraints L used n) bc = Ok () \<longleftrightarrow>
      (\<exists>ca r. bool_from_der L v = (Ok ca, r) \<and> (\<exists>m. q (r = []) r = (Ok m, []) \<and> basic_constraints_ok used ca m n = Ok ()))"
    unfolding Some check_basic_constraints_def read_all_optional_run option.case q_def [symmetric]
    by (simp add: read_all_eq_Ok and_then_eq_Ok at_end_run of_result_eq_Ok)
  also have "\<dots> \<longleftrightarrow>
      (\<exists>ca r. bool_from_der L v = (Ok ca, r) \<and> (\<exists>len. r = path_len_octets len \<and> basic_constraints_ok used ca (map_option unat len) n = Ok ()))"
  proof -
    have "path_len_octets None = []" by (simp add: path_len_octets_def)
    then have "(\<exists>m. (\<exists>len. m = map_option unat len \<and> r = path_len_octets len @ [] \<and> (len = None \<longrightarrow> r = [])) \<and> B m) \<longleftrightarrow>
        (\<exists>len. r = path_len_octets len \<and> B (map_option unat len))" for r and B :: "nat option \<Rightarrow> bool"
      by auto
    then show ?thesis unfolding q by simp
  qed
  also have "\<dots> \<longleftrightarrow> basic_constraints_hold used n bc"
  proof -
    have front: "(\<exists>ca r. bool_from_der L v = (Ok ca, r) \<and> (\<exists>len. r = path_len_octets len \<and> B ca len)) \<longleftrightarrow>
        (\<exists>ca len. (\<exists>f \<in> critical_octets ca. v = f @ path_len_octets len) \<and> B ca len)" for B
      unfolding bool_from_der_front [symmetric] by blast
    have ok: "basic_constraints_ok used ca (map_option unat len) n = Ok () \<longleftrightarrow>
        (ca \<longleftrightarrow> used = Yes) \<and> (\<forall>l. len = Some l \<and> used = Yes \<longrightarrow> n \<le> unat l)" for ca len
      unfolding basic_constraints_ok_iff by (cases len) auto
    show ?thesis unfolding front ok basic_constraints_hold_def Some option.case by blast
  qed
  finally show ?thesis .
qed

text \<open>
  The key purpose asked for is among the listed ones; what follows it is not looked at. A certificate
  without the extension is good for every purpose that is not strictly required.
\<close>

fun purpose :: "ExtendedKeyUsage \<Rightarrow> bytes" where
  "purpose (Required k) = oid_value k"
| "purpose (RequiredIfPresent k) = oid_value k"

lemma purpose_equals: "key_purpose_id_equals eku v \<longleftrightarrow> v = purpose eku"
  by (cases eku) auto

definition purpose_allowed :: "ExtendedKeyUsage \<Rightarrow> bytes option \<Rightarrow> bool" where
  "purpose_allowed eku ext \<longleftrightarrow>
    (case ext of
       None \<Rightarrow> (\<exists>k. eku = RequiredIfPresent k)
     | Some v \<Rightarrow>
         (\<exists>vs post. v = items_octets Tag_OID vs @ der_encode 6 (purpose eku) @ post \<and>
           length (purpose eku) < 65535 \<and> (\<forall>w \<in> set vs. w \<noteq> purpose eku \<and> length w < 65535)))"

lemma eku_progress:
  "progress (\<lambda>_. and_then (expect_tag L Tag_OID) (\<lambda>value.
      if key_purpose_id_equals eku value then and_then (skip_to_end L) (\<lambda>_. ok (Inr ()))
      else and_then (at_end L) (\<lambda>e. if e then of_result (Err RequiredEkuNotFound) else ok (Inl ()))))"
  by (rule progressI) (fastforce simp: and_then_eq_Ok at_end_run skip_to_end_run ok_eq_Ok of_result_eq_Ok
    split: if_splits dest!: expect_tag_shorter)

lemma eku_body_iff:
  "and_then (expect_tag L Tag_OID) (\<lambda>value.
      if key_purpose_id_equals eku value then and_then (skip_to_end L) (\<lambda>_. ok (Inr ()))
      else and_then (at_end L) (\<lambda>e. if e then of_result (Err RequiredEkuNotFound) else ok (Inl ()))) r = (Ok x, r1) \<longleftrightarrow>
    (\<exists>v r2. length v < 65535 \<and> r = der_encode 6 v @ r2 \<and>
      (if v = purpose eku then x = Inr () \<and> r1 = [] else r2 \<noteq> [] \<and> x = Inl () \<and> r1 = r2))"
proof -
  have "(if key_purpose_id_equals eku v then and_then (skip_to_end L) (\<lambda>_. ok (Inr ()))
      else and_then (at_end L) (\<lambda>e. if e then of_result (Err RequiredEkuNotFound) else ok (Inl ()))) r2 = (Ok x, r1) \<longleftrightarrow>
    (if v = purpose eku then x = Inr () \<and> r1 = [] else r2 \<noteq> [] \<and> x = Inl () \<and> r1 = r2)" for v r2
    by (auto simp: purpose_equals and_then_eq_Ok skip_to_end_run at_end_run ok_eq_Ok of_result_eq_Ok)
  then show ?thesis unfolding and_then_eq_Ok [of "expect_tag L Tag_OID"] expect_tag_iff by auto
qed

lemma eku_loop_iff:
  "eku_loop L eku r = (Ok (), r') \<longleftrightarrow> r' = [] \<and>
    (\<exists>vs post. r = items_octets Tag_OID vs @ der_encode 6 (purpose eku) @ post \<and>
      length (purpose eku) < 65535 \<and> (\<forall>w \<in> set vs. w \<noteq> purpose eku \<and> length w < 65535))"
proof -
  let ?body = "\<lambda>_::unit. and_then (expect_tag L Tag_OID) (\<lambda>value.
      if key_purpose_id_equals eku value then and_then (skip_to_end L) (\<lambda>_. ok (Inr ()))
      else and_then (at_end L) (\<lambda>e. if e then of_result (Err RequiredEkuNotFound) else ok (Inl ())))"
  let ?r = "\<lambda>r. r' = [] \<and>
    (\<exists>vs post. r = items_octets Tag_OID vs @ der_encode 6 (purpose eku) @ post \<and>
      length (purpose eku) < 65535 \<and> (\<forall>w \<in> set vs. w \<noteq> purpose eku \<and> length w < 65535))"
  have "loop L ?body s r = (Ok (), r') \<longleftrightarrow> ?r r" for s
    using eku_progress [of eku]
  proof (induction s r rule: loop_induct)
    case (step s r)
    have "loop L ?body s r = (Ok (), r') \<longleftrightarrow>
        (\<exists>x r1. ?body s r = (Ok x, r1) \<and> (case x of Inl s' \<Rightarrow> loop L ?body s' | Inr y \<Rightarrow> ok y) r1 = (Ok (), r'))"
      by (subst loop_unfold [OF eku_progress]) (rule and_then_eq_Ok)
    also have "\<dots> \<longleftrightarrow> (\<exists>v r2. length v < 65535 \<and> r = der_encode 6 v @ r2 \<and>
        (if v = purpose eku then r' = [] else r2 \<noteq> [] \<and> loop L ?body () r2 = (Ok (), r')))"
    proof -
      have ite: "(\<exists>x r1. (\<exists>v r2. A v r2 \<and> (if P v then x = Inr () \<and> r1 = [] else r2 \<noteq> [] \<and> x = Inl () \<and> r1 = r2)) \<and> K x r1) \<longleftrightarrow>
          (\<exists>v r2. A v r2 \<and> (if P v then K (Inr ()) [] else r2 \<noteq> [] \<and> K (Inl ()) r2))"
        for A P and K :: "unit + unit \<Rightarrow> bytes \<Rightarrow> bool"
        by (metis (full_types))
      let ?K = "\<lambda>x r1. (case x of Inl s' \<Rightarrow> loop L ?body s' | Inr y \<Rightarrow> ok y) r1 = (Ok (), r')"
      have "(\<exists>x r1. ?body s r = (Ok x, r1) \<and> ?K x r1) \<longleftrightarrow>
          (\<exists>v r2. (length v < 65535 \<and> r = der_encode 6 v @ r2) \<and>
            (if v = purpose eku then ?K (Inr ()) [] else r2 \<noteq> [] \<and> ?K (Inl ()) r2))"
        unfolding eku_body_iff
        using ite [of "\<lambda>v r2. length v < 65535 \<and> r = der_encode 6 v @ r2" "\<lambda>v. v = purpose eku" ?K] by (simp only: conj_assoc)
      then show ?thesis by (simp only: conj_assoc sum.case ok_eq_Ok simp_thms)
    qed
    also have "\<dots> \<longleftrightarrow> (\<exists>v r2. length v < 65535 \<and> r = der_encode 6 v @ r2 \<and>
        (if v = purpose eku then r' = [] else r2 \<noteq> [] \<and> ?r r2))"
    proof (intro ex_cong1 conj_cong if_cong refl)
      fix v r2
      assume v: "length v < 65535" "r = der_encode 6 v @ r2" "v \<noteq> purpose eku" "r2 \<noteq> []"
      show "loop L ?body () r2 = (Ok (), r') \<longleftrightarrow> ?r r2"
        by (rule step) (use v in \<open>auto simp only: eku_body_iff split: if_split\<close>)
    qed
    also have "\<dots> \<longleftrightarrow> ?r r"
    proof
      assume "\<exists>v r2. length v < 65535 \<and> r = der_encode 6 v @ r2 \<and> (if v = purpose eku then r' = [] else r2 \<noteq> [] \<and> ?r r2)"
      then obtain v r2 where v: "length v < 65535" "r = der_encode 6 v @ r2"
        "if v = purpose eku then r' = [] else r2 \<noteq> [] \<and> ?r r2" by blast
      show "?r r"
      proof (cases "v = purpose eku")
        case True
        with v show ?thesis by (intro conjI exI [of _ "[]"] exI [of _ r2]) (auto simp: items_octets_def)
      next
        case False
        with v obtain vs post where "r' = []" "r2 = items_octets Tag_OID vs @ der_encode 6 (purpose eku) @ post"
          "length (purpose eku) < 65535" "\<forall>w \<in> set vs. w \<noteq> purpose eku \<and> length w < 65535" by auto
        with v False show ?thesis by (intro conjI exI [of _ "v # vs"] exI [of _ post]) (auto simp: items_octets_def)
      qed
    next
      assume "?r r"
      then obtain vs post where *: "r' = []" "r = items_octets Tag_OID vs @ der_encode 6 (purpose eku) @ post"
        "length (purpose eku) < 65535" "\<forall>w \<in> set vs. w \<noteq> purpose eku \<and> length w < 65535" by blast
      show "\<exists>v r2. length v < 65535 \<and> r = der_encode 6 v @ r2 \<and> (if v = purpose eku then r' = [] else r2 \<noteq> [] \<and> ?r r2)"
      proof (cases vs)
        case Nil
        with * show ?thesis by (intro exI [of _ "purpose eku"] exI [of _ post]) (auto simp: items_octets_def)
      next
        case (Cons v ws)
        have "?r (items_octets Tag_OID ws @ der_encode 6 (purpose eku) @ post)" using * Cons by auto
        with * Cons show ?thesis
          by (intro exI [of _ v] exI [of _ "items_octets Tag_OID ws @ der_encode 6 (purpose eku) @ post"])
            (auto simp: items_octets_def der_encode_def)
      qed
    qed
    finally show ?case .
  qed
  then show ?thesis unfolding eku_loop_def .
qed

lemma eku_check_iff: "read_all_optional L BadDer (eku_check L eku) ext = Ok () \<longleftrightarrow> purpose_allowed eku ext"
  unfolding eku_check_def read_all_optional_run purpose_allowed_def
  by (cases eku) (auto simp: read_all_eq_Ok eku_loop_iff split: option.split)

lemma check_issuer_independent_iff:
  "check_issuer_independent_properties L c time used n eku = Ok () \<longleftrightarrow>
    valid_at time (cert_validity (cert_body c)) \<and> basic_constraints_hold used n (cert_basic_constraints (cert_body c)) \<and>
    purpose_allowed eku (cert_eku (cert_body c))"
  unfolding check_issuer_independent_properties_def
  by (simp add: check_validity_iff check_basic_constraints_iff eku_check_iff)

section \<open>Properties\<close>

lemma small_validity_at_epoch: "valid_at 0 small_validity"
proof -
  have "small_validity = epoch_octets @ epoch_octets"
    by (simp add: small_validity_def epoch_octets_def numeral_2_eq_2)
  with epoch_encodes show ?thesis unfolding valid_at_def by blast
qed

text \<open>C8: a certificate passes the checks that do not depend on its issuer exactly when the given time lies in its validity
  period, both ends included; it is a CA just when it is used as one, with a path length that allows
  the CA certificates below it; and its extended key usage lists the purpose, or is absent where the purpose
  is not strictly required.\<close>

theorem cert_checks_exact:
  assumes "untrusted_reader U rest later"
  shows "check_issuer_independent_properties U c time used n eku = Ok () \<longleftrightarrow>
    valid_at time (cert_validity (cert_body c)) \<and> basic_constraints_hold used n (cert_basic_constraints (cert_body c)) \<and>
    purpose_allowed eku (cert_eku (cert_body c))"
  unfolding untrusted_reader.check_issuer_independent_properties_indep [OF assms] by (rule check_issuer_independent_iff)

theorem cert_checks_exact_witness:
  "check_issuer_independent_properties list_reader
      (Cert EndEntity (small_fields\<lparr>cert_basic_constraints := Some [1, 1, 0xff, 2, 1, 3]\<rparr>)) 0 Yes 3 (ku_inner server_auth) = Ok ()"
proof -
  have "basic_constraints_hold Yes 3 (Some [1, 1, 0xff, 2, 1, 3])"
    unfolding basic_constraints_hold_def option.case
    by (intro exI [of _ True] exI [of _ "Some 3"] bexI [of _ "[1, 1, 0xff]"])
      (simp_all add: critical_octets_def path_len_octets_def)
  moreover have "purpose_allowed (ku_inner server_auth) None" by (simp add: purpose_allowed_def server_auth_def)
  ultimately show ?thesis
    using small_validity_at_epoch cert_checks_exact [OF lr.untrusted_reader_axioms,
      of "Cert EndEntity (small_fields\<lparr>cert_basic_constraints := Some [1, 1, 0xff, 2, 1, 3]\<rparr>)" 0 Yes 3 "ku_inner server_auth"]
    by (simp add: small_fields_def)
qed

lemma res_bind_Panic: "res_bind m f = Panic \<longleftrightarrow> m = Panic \<or> (\<exists>v. m = Ok v \<and> f v = Panic)"
  by (cases m) auto

text \<open>C32: an issuer may sign revocation lists exactly when it has no key usage extension, or one that starts with a well-formed
  bit string in which the flag for signing lists, number 6, is set. The check panics on an empty bit string and on nothing
  else.\<close>

theorem key_usage_exact:
  assumes "untrusted_reader U rest later"
  shows "(key_usage_check U CrlSign ku = Ok () \<longleftrightarrow>
      (\<forall>bs. ku = Some bs \<longrightarrow> (\<exists>v f r. length v < 65535 \<and> bs = der_encode 3 v @ r \<and> bit_string_flags U v = Ok f \<and> bit_set f 6))) \<and>
    (key_usage_check U CrlSign ku = Panic \<longleftrightarrow> (\<exists>r. ku = Some ([3, 1, 0] @ r)))"
proof (cases ku)
  case (Some bs)
  have tag: "fst (expect_tag L Tag_BitString bs) = Ok v \<longleftrightarrow> length v < 65535 \<and> (\<exists>r. bs = der_encode 3 v @ r)" for v
  proof -
    have "fst (expect_tag L Tag_BitString bs) = Ok v \<longleftrightarrow> (\<exists>r. expect_tag L Tag_BitString bs = (Ok v, r))"
      by (cases "expect_tag L Tag_BitString bs") auto
    then show ?thesis by (simp add: expect_tag_iff)
  qed
  have "total True (expect_tag L Tag_BitString)" by (intro total_intros)
  then have "fst (expect_tag L Tag_BitString bs) \<noteq> Panic" by (auto simp: total_def fine_def)
  moreover have "der_encode 3 [0] = [3, 1, 0]" by (simp add: der_encode_short)
  ultimately show ?thesis
    unfolding untrusted_reader.key_usage_check_indep [OF assms] untrusted_reader.bit_string_flags_indep [OF assms]
    using Some tag [of "[0]"]
    by (auto simp: key_usage_check_def list_ops tag bit_string_flags_panic_iff res_bind_Panic split: if_splits)
qed (simp add: key_usage_check_def)

theorem key_usage_exact_witness:
  "key_usage_check list_reader CrlSign (Some [3, 2, 1, 2]) = Ok () \<and> key_usage_check list_reader CrlSign (Some [3, 1, 0]) = Panic"
proof -
  have "bit_string_flags list_reader [1, 2] = Ok \<lparr>raw_bits = [2]\<rparr>" "bit_set \<lparr>raw_bits = [2]\<rparr> 6" by code_simp+
  moreover have "[3, 2, 1, 2] = der_encode 3 [1, 2] @ []" by (simp add: der_encode_short)
  ultimately have "\<exists>v f r. length v < 65535 \<and> [3, 2, 1, 2] = der_encode 3 v @ r \<and> bit_string_flags list_reader v = Ok f \<and> bit_set f 6"
    by (intro exI [of _ "[1, 2]"] exI [of _ "\<lparr>raw_bits = [2]\<rparr>"] exI [of _ "[]"]) simp
  then have "key_usage_check list_reader CrlSign (Some [3, 2, 1, 2]) = Ok ()"
    using key_usage_exact [OF lr.untrusted_reader_axioms, of "Some [3, 2, 1, 2]"] by simp
  then show ?thesis using key_usage_exact [OF lr.untrusted_reader_axioms, of "Some [3, 1, 0]"] by simp
qed

end
