(* ===== verification/Path_Search.thy ===== *)
theory Path_Search
  imports Budget Cert_Checks
begin

text \<open>
  What the search for a certification path finds. The abstract specification is the inductive relation
  \<open>trusted\<close>: a certificate that passes its own checks is trusted when a trust anchor issued it, or when it
  was issued by an intermediate certificate that is trusted, where a chain of issuers is followed to its
  trust anchor and every link of the chain has a valid signature and is not revoked. The search is
  sound for it, comes to an end, and is complete as long as its budget of one hundred signature checks
  lasts.
\<close>

section \<open>Signatures along a chain\<close>

definition link_ok ::
    "SignatureVerificationAlgorithm list \<Rightarrow> RevocationOptions option \<Rightarrow> bytes \<Rightarrow> bytes \<Rightarrow> bytes option \<Rightarrow> Cert \<Rightarrow> bool" where
  "link_ok algs revo spki subj ku c \<longleftrightarrow>
    verify_signed_data L algs spki (cert_signed_data (cert_body c)) = Ok () \<and>
    (\<forall>ro. revo = Some ro \<longrightarrow> (\<exists>x. check_crls L algs c subj spki ku ro = Ok x))"

fun chain_signed ::
    "SignatureVerificationAlgorithm list \<Rightarrow> RevocationOptions option \<Rightarrow> bytes \<Rightarrow> bytes \<Rightarrow> bytes option \<Rightarrow> Cert \<Rightarrow> bool" where
  "chain_signed algs revo spki subj ku (Cert role f) \<longleftrightarrow>
    link_ok algs revo spki subj ku (Cert role f) \<and>
    (case role of EndEntity \<Rightarrow> True | Ca child \<Rightarrow> chain_signed algs revo (cert_spki f) (cert_subject f) (cert_key_usage f) child)"

text \<open>The work at one link of the chain.\<close>

definition check_link ::
    "SignatureVerificationAlgorithm list \<Rightarrow> RevocationOptions option \<Rightarrow> bytes \<Rightarrow> bytes \<Rightarrow> bytes option \<Rightarrow> Cert \<Rightarrow> unit result" where
  "check_link algs revo spki subj ku c =
    res_bind (verify_signed_data L algs spki (cert_signed_data (cert_body c))) (\<lambda>_.
      case revo of
        None \<Rightarrow> Ok ()
      | Some ro \<Rightarrow> res_bind (check_crls L algs c subj spki ku ro) (\<lambda>_. Ok ()))"

lemma check_link_Ok: "check_link algs revo spki subj ku c = Ok () \<longleftrightarrow> link_ok algs revo spki subj ku c"
  by (auto simp: check_link_def link_ok_def split: option.split)

lemma check_signatures_loop_step:
  "check_signatures_loop L algs revo spki subj ku (Cert role f) n =
    (if n \<ge> 100 then (Err MaximumSignatureChecksExceeded, Suc n)
     else
       (case check_link algs revo spki subj ku (Cert role f) of
          Ok _ \<Rightarrow>
            (case role of
               Ca child \<Rightarrow> check_signatures_loop L algs revo (cert_spki f) (cert_subject f) (cert_key_usage f) child (Suc n)
             | EndEntity \<Rightarrow> (Ok (), Suc n))
        | r \<Rightarrow> (r, Suc n)))"
  by (auto simp: check_link_def Let_def split: option.split)

declare check_signatures_loop.simps [simp del]

lemma check_signatures_loop_Ok:
  "check_signatures_loop L algs revo spki subj ku c n = (Ok u, m) \<longleftrightarrow>
    chain_signed algs revo spki subj ku c \<and> m = n + length (chain_certs c) \<and> m \<le> 100"
proof (induction c arbitrary: spki subj ku n rule: cert_chain_induct)
  case (EndEntity f)
  show ?case
    unfolding check_signatures_loop_step
    by (cases "check_link algs revo spki subj ku (Cert EndEntity f)") (auto simp flip: check_link_Ok)
next
  case (Ca child f)
  have "0 < length (chain_certs child)" by (cases child) simp
  with Ca show ?case
    unfolding check_signatures_loop_step
    by (cases "check_link algs revo spki subj ku (Cert (Ca child) f)") (auto simp flip: check_link_Ok)
qed

text \<open>The counter only grows, and passes its limit when the budget is the reason for the failure.\<close>

lemma check_signatures_loop_counter:
  "check_signatures_loop L algs revo spki subj ku c n = (x, m) \<Longrightarrow> n < m"
proof (induction c arbitrary: spki subj ku n rule: cert_chain_induct)
  case (EndEntity f)
  then show ?case
    unfolding check_signatures_loop_step by (auto split: if_splits result.splits)
next
  case (Ca child f)
  from Ca.prems show ?case
    unfolding check_signatures_loop_step
    by (auto split: if_splits result.splits dest: Ca.IH)
qed

lemma check_signatures_loop_limit:
  assumes "check_signatures_loop L algs revo spki subj ku c n = (Err MaximumSignatureChecksExceeded, m)"
    and "\<And>spki subj ku c. check_link algs revo spki subj ku c \<noteq> Err MaximumSignatureChecksExceeded"
  shows "100 < m"
  using assms(1)
proof (induction c arbitrary: spki subj ku n rule: cert_chain_induct)
  case (EndEntity f)
  then show ?case
    using assms(2) unfolding check_signatures_loop_step by (auto split: if_splits result.splits)
next
  case (Ca child f)
  from Ca.prems show ?case
    using assms(2) unfolding check_signatures_loop_step
    by (auto split: if_splits result.splits dest: Ca.IH)
qed

section \<open>The specification\<close>

definition node_ok :: "ChainOptions \<Rightarrow> Time \<Rightarrow> Cert \<Rightarrow> nat \<Rightarrow> bool" where
  "node_ok opts time c n \<longleftrightarrow>
    check_issuer_independent_properties L c time (used_as_ca (ee_or_ca c)) n (ku_inner (opt_eku opts)) = Ok () \<and>
    (used_as_ca (ee_or_ca c) = Yes \<longrightarrow> n < MAX_SUB_CA_COUNT)"

definition anchored :: "ChainOptions \<Rightarrow> Cert \<Rightarrow> TrustAnchor \<Rightarrow> bool" where
  "anchored opts c a \<longleftrightarrow>
    cert_issuer (cert_body c) = ta_subject a \<and>
    constraints_hold (common_name_contents opts c) (ta_name_constraints a) c \<and>
    chain_signed (supported_sig_algs opts) (revocation opts) (ta_subject_public_key_info a) (ta_subject a) None c"

definition issued_by :: "ChainOptions \<Rightarrow> Cert \<Rightarrow> bytes \<Rightarrow> Cert \<Rightarrow> bool" where
  "issued_by opts c der i \<longleftrightarrow>
    cert_from_der L der (Ca c) = Ok i \<and>
    cert_subject (cert_body i) = cert_issuer (cert_body c) \<and>
    \<not> in_chain (cert_body i) c \<and>
    constraints_hold (common_name_contents opts c) (cert_name_constraints (cert_body i)) c"

definition next_count :: "Cert \<Rightarrow> nat \<Rightarrow> nat" where
  "next_count c n = (case used_as_ca (ee_or_ca c) of No \<Rightarrow> n | Yes \<Rightarrow> n + 1)"

inductive trusted :: "ChainOptions \<Rightarrow> Time \<Rightarrow> Cert \<Rightarrow> nat \<Rightarrow> bool" for opts time where
  anchor: "node_ok opts time c n \<Longrightarrow> a \<in> set (trust_anchors opts) \<Longrightarrow> anchored opts c a \<Longrightarrow> trusted opts time c n"
| issuer: "node_ok opts time c n \<Longrightarrow> der \<in> set (intermediate_certs opts) \<Longrightarrow> issued_by opts c der i \<Longrightarrow>
    trusted opts time i (next_count c n) \<Longrightarrow> trusted opts time c n"

section \<open>The loop over candidates\<close>

text \<open>An outcome that ends the search: success, the exhausted budget, a panic.\<close>

fun final :: "unit result \<Rightarrow> bool" where
  "final (Err e) = (e = MaximumSignatureChecksExceeded)"
| "final _ = True"

lemma loop_Ok:
  assumes "loop_while_non_fatal_error e vs f s = (Ok u, s')"
  shows "\<exists>v \<in> set vs. \<exists>s1. f v s1 = (Ok (), s')"
  using assms
  by (induction e vs f s rule: loop_while_non_fatal_error.induct)
    (auto split: prod.splits result.splits if_splits)

lemma loop_mono:
  assumes "loop_while_non_fatal_error e vs f s = (x, s')" and "\<And>v s x s'. v \<in> set vs \<Longrightarrow> f v s = (x, s') \<Longrightarrow> s \<le> (s' :: nat)"
  shows "s \<le> s'"
  using assms
proof (induction e vs f s rule: loop_while_non_fatal_error.induct)
  case (2 e v vs f s)
  obtain y s1 where y: "f v s = (y, s1)" by force
  with 2(3) have "s \<le> s1" by auto
  moreover have "s1 \<le> s'" if "y = Err z" "z \<noteq> MaximumSignatureChecksExceeded" for z
    using 2(1) [OF y [symmetric, unfolded that(1)] refl that(2)] 2(2,3) y that by auto
  ultimately show ?case using 2(2) y by (cases y) (auto split: if_splits)
qed simp

text \<open>A candidate that is accepted whatever the counter is found, unless the search ends before or the budget is gone.\<close>

lemma loop_complete:
  assumes "loop_while_non_fatal_error e vs f s = (x, s')"
    and "v \<in> set vs"
    and "\<And>s1 y s2. s \<le> s1 \<Longrightarrow> f v s1 = (y, s2) \<Longrightarrow> y = Ok () \<or> y = Panic \<or> 100 < s2"
    and "\<And>v s1 y s2. v \<in> set vs \<Longrightarrow> f v s1 = (y, s2) \<Longrightarrow> s1 \<le> s2 \<and> y \<noteq> Diverge"
    and "\<And>v s1 s2. v \<in> set vs \<Longrightarrow> f v s1 = (Err MaximumSignatureChecksExceeded, s2) \<Longrightarrow> 100 < (s2 :: nat)"
  shows "x = Ok () \<or> x = Panic \<or> 100 < s'"
  using assms
proof (induction e vs f s rule: loop_while_non_fatal_error.induct)
  case (2 e w vs f s)
  obtain y s1 where y: "f w s = (y, s1)" by force
  from 2(5) [of w] y have s1: "s \<le> s1" "y \<noteq> Diverge" by auto
  show ?case
  proof (cases "final y")
    case True
    with 2(2) y s1 2(6) [of w] show ?thesis by (cases y) auto
  next
    case False
    then obtain z where z: "y = Err z" "z \<noteq> MaximumSignatureChecksExceeded" by (cases y) auto
    with 2(2) y have rest: "loop_while_non_fatal_error (most_specific e z) vs f s1 = (x, s')" by simp
    show ?thesis
    proof (cases "v \<in> set vs")
      case True
      show ?thesis
      proof (rule 2(1) [OF y [symmetric, unfolded z(1)] refl z(2) rest True])
        show "\<And>s1' y s2. s1 \<le> s1' \<Longrightarrow> f v s1' = (y, s2) \<Longrightarrow> y = Ok () \<or> y = Panic \<or> 100 < s2"
          using 2(4) s1 by (meson le_trans)
      qed (meson 2(5,6) list.set_intros(2))+
    next
      case False
      with 2(3) have "v = w" by simp
      with 2(4) [of s] y z s1 have "100 < s1" by auto
      moreover have "s1 \<le> s'" using rest 2(5) by (intro loop_mono [OF rest]) auto
      ultimately show ?thesis by simp
    qed
  qed
qed simp

section \<open>One candidate\<close>

lemma check_link_others: "check_link algs revo spki subj ku c \<noteq> Err MaximumSignatureChecksExceeded"
proof -
  have "errs others (check_link algs revo spki subj ku c)"
    unfolding check_link_def by (auto intro!: raises_intros others_check_crls split: option.split)
  then show ?thesis by (auto simp: errs_def)
qed

definition check_constraints :: "ChainOptions \<Rightarrow> Cert \<Rightarrow> bytes option \<Rightarrow> unit result" where
  "check_constraints opts c nc = read_all_optional L BadDer (check_name_constraints L c (common_name_contents opts c)) nc"

lemma check_constraints_facts:
  "check_constraints opts c nc = Ok () \<longleftrightarrow> constraints_hold (common_name_contents opts c) nc c"
  "fine True (check_constraints opts c nc)" "errs others (check_constraints opts c nc)"
  by (simp_all add: check_constraints_def check_name_constraints_iff check_name_constraints_fine others_name_constraints)

abbreviation try_anchor :: "ChainOptions \<Rightarrow> Cert \<Rightarrow> TrustAnchor \<Rightarrow> nat \<Rightarrow> unit result \<times> nat" where
  "try_anchor opts c \<equiv> try_trust_anchor L opts c (common_name_contents opts c)"

lemma try_anchor_run:
  "try_anchor opts c a s =
    (if cert_issuer (cert_body c) \<noteq> ta_subject a then (Err UnknownIssuer, s)
     else
       (case check_constraints opts c (ta_name_constraints a) of
          Ok _ \<Rightarrow>
            check_signatures_loop L (supported_sig_algs opts) (revocation opts) (ta_subject_public_key_info a)
              (ta_subject a) None c s
        | r \<Rightarrow> (r, s)))"
  unfolding try_trust_anchor_def check_signatures_def check_constraints_def ..

lemma try_anchor_Ok:
  "try_anchor opts c a s = (Ok u, s') \<longleftrightarrow> anchored opts c a \<and> s' = s + length (chain_certs c) \<and> s' \<le> 100"
  unfolding try_anchor_run anchored_def check_constraints_facts(1) [symmetric]
  by (auto simp: check_signatures_loop_Ok split: result.split)

lemma try_anchor_counter: "try_anchor opts c a s = (x, s') \<Longrightarrow> s \<le> s'"
  unfolding try_anchor_run
  by (auto split: if_splits result.splits dest: check_signatures_loop_counter)

lemma try_anchor_limit: "try_anchor opts c a s = (Err MaximumSignatureChecksExceeded, s') \<Longrightarrow> 100 < s'"
  unfolding try_anchor_run using check_constraints_facts(3) [of opts c "ta_name_constraints a"]
  by (auto simp: errs_def split: if_splits result.splits dest: check_signatures_loop_limit [OF _ check_link_others])

lemma chain_signed_accepted:
  "chain_signed algs revo spki subj ku c \<Longrightarrow> check_signatures_loop L algs revo spki subj ku c n = (x, m) \<Longrightarrow> x = Ok () \<or> 100 < m"
proof (induction c arbitrary: spki subj ku n rule: cert_chain_induct)
  case (EndEntity f)
  then show ?case unfolding check_signatures_loop_step by (auto simp flip: check_link_Ok split: if_splits)
next
  case (Ca child f)
  from Ca.prems show ?case
    unfolding check_signatures_loop_step by (auto simp flip: check_link_Ok split: if_splits dest: Ca.IH)
qed

lemma try_anchor_accepts:
  assumes "anchored opts c a" "try_anchor opts c a s = (x, s')"
  shows "x = Ok () \<or> 100 < s'"
proof -
  from assms(1) have "cert_issuer (cert_body c) = ta_subject a" "check_constraints opts c (ta_name_constraints a) = Ok ()"
    and s: "chain_signed (supported_sig_algs opts) (revocation opts) (ta_subject_public_key_info a) (ta_subject a) None c"
    by (auto simp: anchored_def check_constraints_facts)
  with assms(2) have "check_signatures_loop L (supported_sig_algs opts) (revocation opts) (ta_subject_public_key_info a)
      (ta_subject a) None c s = (x, s')"
    by (simp add: try_anchor_run)
  with s show ?thesis by (rule chain_signed_accepted)
qed

abbreviation try_issuer :: "ChainOptions \<Rightarrow> (Cert \<Rightarrow> nat \<Rightarrow> nat \<Rightarrow> unit result \<times> nat) \<Rightarrow> Cert \<Rightarrow> nat \<Rightarrow> bytes \<Rightarrow> nat \<Rightarrow> unit result \<times> nat" where
  "try_issuer opts rec c n \<equiv> try_intermediate L rec c (common_name_contents opts c) n"

lemma try_issuer_run:
  "try_issuer opts rec c n der s =
    (case cert_from_der L der (Ca c) of
       Ok i \<Rightarrow>
         if cert_subject (cert_body i) \<noteq> cert_issuer (cert_body c) \<or> in_chain (cert_body i) c then (Err UnknownIssuer, s)
         else
           (case check_constraints opts c (cert_name_constraints (cert_body i)) of
              Ok _ \<Rightarrow> rec i (next_count c n) s
            | r \<Rightarrow> (r, s))
     | Err e \<Rightarrow> (Err e, s)
     | Panic \<Rightarrow> (Panic, s)
     | Diverge \<Rightarrow> (Diverge, s))"
  by (simp add: try_intermediate_def check_constraints_def next_count_def Let_def split: result.split)

lemma try_issuer_issued: "issued_by opts c der i \<Longrightarrow> try_issuer opts rec c n der s = rec i (next_count c n) s"
  unfolding issued_by_def check_constraints_facts(1) [symmetric] by (simp add: try_issuer_run)

lemma try_issuer_cases:
  assumes "try_issuer opts rec c n der s = (x, s')"
  obtains i where "issued_by opts c der i" "rec i (next_count c n) s = (x, s')"
  | e where "x = Err e" "e \<noteq> MaximumSignatureChecksExceeded" "s' = s"
proof (cases "cert_from_der L der (Ca c)")
  case (Ok i)
  show thesis
  proof (cases "cert_subject (cert_body i) \<noteq> cert_issuer (cert_body c) \<or> in_chain (cert_body i) c")
    case True
    with Ok assms that(2) show thesis by (auto simp: try_issuer_run)
  next
    case False
    note nc = check_constraints_facts [of opts c "cert_name_constraints (cert_body i)"]
    show thesis
    proof (cases "check_constraints opts c (cert_name_constraints (cert_body i))")
      case (Err e)
      with nc(3) Ok False assms show thesis by (intro that(2) [of e]) (auto simp: try_issuer_run)
    next
      case ok: (Ok u)
      with nc(1) Ok False have "issued_by opts c der i" by (simp add: issued_by_def)
      moreover from assms have "rec i (next_count c n) s = (x, s')"
        unfolding try_issuer_issued [OF \<open>issued_by opts c der i\<close>] .
      ultimately show thesis by (rule that(1))
    qed (use nc(2) in simp_all)
  qed
next
  case (Err e)
  with others_cert_from_der [of der "Ca c"] assms that(2) show thesis by (auto simp: try_issuer_run)
qed (use cert_from_der_fine [of True der "Ca c"] in simp_all)

section \<open>The search\<close>

lemma build_chain_inner_run:
  "build_chain_inner (Suc fuel) L opts time c n s =
    (let used = used_as_ca (ee_or_ca c) in
     case check_issuer_independent_properties L c time used n (ku_inner (opt_eku opts)) of
       Ok _ \<Rightarrow>
         if used = Yes \<and> n \<ge> MAX_SUB_CA_COUNT then (Err UnknownIssuer, s)
         else if used = No \<and> n \<noteq> 0 then (Panic, s)
         else
           (case loop_while_non_fatal_error UnknownIssuer (trust_anchors opts) (try_anchor opts c) s of
              (Ok _, s') \<Rightarrow> (Ok (), s')
            | (Err err, s') \<Rightarrow>
                loop_while_non_fatal_error err (intermediate_certs opts)
                  (try_issuer opts (build_chain_inner fuel L opts time) c n) s'
            | (Panic, s') \<Rightarrow> (Panic, s')
            | (Diverge, s') \<Rightarrow> (Diverge, s'))
     | r \<Rightarrow> (r, s))"
  by simp

declare build_chain_inner.simps [simp del]

text \<open>
  How far a certificate is from the end of the recursion: an end-entity certificate is level 0, the
  certificate that issued it level 1.
\<close>

definition level :: "Cert \<Rightarrow> nat \<Rightarrow> nat" where
  "level c n = (case used_as_ca (ee_or_ca c) of No \<Rightarrow> 0 | Yes \<Rightarrow> Suc n)"

definition enough :: "nat \<Rightarrow> Cert \<Rightarrow> nat \<Rightarrow> bool" where
  "enough fuel c n \<longleftrightarrow>
    MAX_SUB_CA_COUNT + 2 \<le> fuel + level c n \<and> level c n \<le> MAX_SUB_CA_COUNT + 1 \<and>
    (used_as_ca (ee_or_ca c) = No \<longrightarrow> n = 0)"

lemma enough_next:
  assumes "enough (Suc fuel) c n" "node_ok opts time c n" "issued_by opts c der i"
  shows "enough fuel i (next_count c n)"
proof -
  from assms(3) have "ee_or_ca i = Ca c" by (auto simp: issued_by_def cert_from_der_iff)
  then show ?thesis
    using assms(1,2)
    by (cases "used_as_ca (ee_or_ca c)") (auto simp: enough_def level_def next_count_def node_ok_def)
qed

lemma check_issuer_independent_fine: "fine k (check_issuer_independent_properties L c time used n eku)"
proof -
  have b: "fine k (basic_constraints_ok used ca len n)" for ca len
    by (cases used; cases ca; cases len) (simp_all add: basic_constraints_ok_def)
  have e: "total k (eku_loop L eku)" for eku
    unfolding eku_loop_def
  proof (rule loop_total)
    show "progress (\<lambda>_. and_then (expect_tag L Tag_OID) (\<lambda>value.
        if key_purpose_id_equals eku value then and_then (skip_to_end L) (\<lambda>_. ok (Inr ()))
        else and_then (at_end L) (\<lambda>e. if e then of_result (Err RequiredEkuNotFound) else ok (Inl ()))))"
      by (rule progressI) (fastforce simp: and_then_eq_Ok at_end_run skip_to_end_run ok_eq_Ok of_result_eq_Ok
        split: if_splits dest!: expect_tag_shorter)
  qed (intro total_intros)
  show ?thesis
    unfolding check_issuer_independent_properties_def check_validity_def check_basic_constraints_def eku_check_def
      read_all_optional_run
    by (auto intro!: res_bind_fine total_intros b e split: option.split ExtendedKeyUsage.split)
qed

section \<open>Revocation checks come to an end\<close>

lemma total_case_gn:
  "(\<And>a. total k (f1 a)) \<Longrightarrow> (\<And>a. total k (f2 a)) \<Longrightarrow> (\<And>a. total k (f3 a)) \<Longrightarrow> (\<And>a. total k (f4 a)) \<Longrightarrow> (\<And>a. total k (f5 a)) \<Longrightarrow>
    total k (case_GeneralName f1 f2 f3 f4 f5 n)"
  by (cases n) simp_all

lemma revoked_cert_shorter: "revoked_cert_from_der L r = (Ok c, r') \<Longrightarrow> length r' < length r"
  unfolding revoked_cert_from_der_def by (rule nested_shorter)

interpretation entries: item_parser "revoked_cert_from_der L"
  by unfold_locales (rule revoked_cert_shorter)

lemma total_revoked_cert [total_intros]: "total k (revoked_cert_from_der L)"
proof -
  have reason: "total k (revocation_reason_from_der L)"
    unfolding revocation_reason_from_der_def revocation_reason_try_from_def by (intro total_intros; simp)
  have ext: "fine k (remember_revoked_cert_extension L c e)" for c e
    unfolding remember_revoked_cert_extension_def der_read_all_def
    by (auto intro!: remember_extension_fine res_bind_fine set_extension_once_fine total_intros reason simp: unsupported_def)
  have loop: "total k (revoked_cert_extensions L c)" for c
    unfolding revoked_cert_extensions_def
    by (intro loop_total nested_of_mut_progress) (intro total_intros ext)
  have "fine k (fst (revoked_cert_extensions L c r))" for c r using loop [of c] by (simp add: total_def)
  then show ?thesis
    unfolding revoked_cert_from_der_def lenient_certificate_serial_number_def Let_def
    by (intro total_intros)
qed

lemma find_serial_fine: "fine k (find_serial L crl sn)"
proof (cases crl)
  case (Borrowed_Crl c)
  have "total k (loop L (\<lambda>_. and_then (at_end L) (\<lambda>e. if e then ok (Inr None)
      else and_then (revoked_cert_from_der L) (\<lambda>revoked_cert.
        if serial_number revoked_cert = sn then ok (Inr (Some revoked_cert)) else ok (Inl ())))) ())"
    by (intro loop_total progressI, auto simp: and_then_eq_Ok at_end_run ok_eq_Ok split: if_splits dest!: revoked_cert_shorter)
      (intro total_intros)
  then show ?thesis unfolding Borrowed_Crl find_serial.simps borrowed_find_serial_def total_def by blast
qed (simp add: owned_find_serial_def)

text \<open>A general name that cannot be parsed takes at least its tag off the reader.\<close>

lemma general_name_reads:
  assumes "general_name_from_der L (b # r1) = (x, r')"
  shows "length r' \<le> length r1"
proof -
  define q where "q = (if b AND HIGH_TAG_RANGE_START = HIGH_TAG_RANGE_START then of_result (Err BadDer)
    else and_then (read_length L) (\<lambda>len. if len \<ge> TWO_BYTE_DER_SIZE then of_result (Err BadDer)
      else and_then (read_bytes L len) (\<lambda>inner. ok (b, inner))))"
  define k where "k = (\<lambda>(tag, value).
       if tag = CONTEXT_SPECIFIC OR 2 then ok (GN_DnsName value)
       else if tag = CONTEXT_SPECIFIC OR CONSTRUCTED OR 4 then ok (GN_DirectoryName value)
       else if tag = CONTEXT_SPECIFIC OR 7 then ok (GN_IpAddress value)
       else if tag = CONTEXT_SPECIFIC OR 6 then ok (GN_UniformResourceIdentifier value)
       else if tag \<in> {CONTEXT_SPECIFIC OR CONSTRUCTED OR 0, CONTEXT_SPECIFIC OR 1, CONTEXT_SPECIFIC OR CONSTRUCTED OR 3,
         CONTEXT_SPECIFIC OR CONSTRUCTED OR 5, CONTEXT_SPECIFIC OR 8}
       then ok (GN_Unsupported (tag AND NOT (CONTEXT_SPECIFIC OR CONSTRUCTED)))
       else of_result (Err BadDer) :: (bytes, GeneralName) parser)"
  have "lr.follows (and_then q k) (and_then q k)"
    unfolding q_def k_def by (intro lr.and_then_follows sim_case_prod sim_if lr.err_sim lr.ok_sim lr.read_length_sim lr.read_bytes_sim refl)
  then have "suffix r' r1" if "and_then q k r1 = (x, r')" using that by (auto elim: simE)
  moreover have "general_name_from_der L (b # r1) = and_then q k r1"
    unfolding general_name_from_der_def read_tag_and_get_value_def read_tag_and_get_value_limited_def Let_def k_def q_def
    by (simp add: and_then_run read_byte_run)
  ultimately show ?thesis using assms by (simp add: suffix_length_le)
qed

lemma name_loop_progress:
  assumes "\<And>s n r x r'. f s n r = (Ok (Inl x), r') \<Longrightarrow> r' = r"
  shows "progress (\<lambda>s. and_then (at_end L) (\<lambda>e. if e then ok (Inr y) else and_then (attempt (general_name_from_der L)) (f s)))"
proof (rule progressI)
  fix s r s' r'
  assume run: "and_then (at_end L) (\<lambda>e. if e then ok (Inr y) else and_then (attempt (general_name_from_der L)) (f s)) r = (Ok (Inl s'), r')"
  then obtain b r1 where r: "r = b # r1" by (cases r) (auto simp: and_then_run at_end_run ok_run)
  with run obtain m r2 where m: "attempt (general_name_from_der L) r = (Ok m, r2)" "f s m r2 = (Ok (Inl s'), r')"
    by (auto simp: and_then_eq_Ok at_end_run)
  obtain x where "general_name_from_der L r = (x, r2)"
    using m(1) by (auto simp: attempt_run split: prod.splits result.splits)
  with r have "length r2 \<le> length r1" using general_name_reads by blast
  with assms [OF m(2)] r show "length r' < length r" by simp
qed

lemma total_find_uri [total_intros]: "total k (find_uri L uri)"
  unfolding find_uri_def
  by (intro loop_total name_loop_progress) (auto simp: ok_run split: if_splits intro!: total_intros)

lemma total_uri_name_in_common [total_intros]: "total k (uri_name_in_common L g)"
proof -
  have "progress (uri_name_turn L)"
    unfolding uri_name_turn_def
    by (rule name_loop_progress)
      (auto simp: ok_run on_other_def of_result_def split: option.splits GeneralName.splits prod.splits result.splits if_splits)
  moreover have "total k (uri_name_turn L g)" for g
    unfolding uri_name_turn_def by (intro total_intros total_case_gn)
  ultimately show ?thesis unfolding uri_name_in_common_def by (rule loop_total)
qed

lemma flags_end [total_intros]: "fine False (bit_string_flags L bs)"
  using bit_string_flags_fine [of bs] by (auto simp: fine_def)

lemma field_loop_total:
  assumes "\<And>s r s' r'. p s r = (Ok s', r') \<Longrightarrow> length r' < length r" "\<And>s. total k (p s)"
  shows "total k (loop L (\<lambda>s. and_then (at_end L) (\<lambda>e. if e then ok (Inr s) else and_then (p s) (\<lambda>r. ok (Inl r)))) s)"
  by (intro loop_total progressI, use assms(1) in \<open>fastforce simp: and_then_eq_Ok at_end_run ok_eq_Ok split: if_splits\<close>)
    (intro total_intros assms(2))

lemma total_distribution_point [total_intros]: "total False (crl_distribution_point_from_der L)"
proof -
  have "dp_field L s r = (Ok s', r') \<Longrightarrow> length r' < length r" for s r s' r'
    unfolding dp_field_def Let_def and_then_eq_Ok
    by (auto simp: of_result_def split: if_splits dest!: read_tag_shorter)
  moreover have "total False (dp_field L s)" for s
    unfolding dp_field_def Let_def
    by (intro total_intros; auto intro!: res_bind_fine set_extension_once_fine total_intros)
  ultimately show ?thesis
    unfolding crl_distribution_point_from_der_def by (intro total_intros field_loop_total)
qed

lemma names_end:
  "fine k (dp_names L d)" "fine k (idp_names L i)"
proof -
  have "fine k (fst (distribution_point_name_from_der L r))" for r
    using total_distribution_point_name_from_der [of k] by (simp add: total_def)
  then show "fine k (dp_names L d)" "fine k (idp_names L i)"
    unfolding dp_names_def idp_names_def by (auto intro!: res_bind_fine split: option.split)
qed

lemma total_case_dpn: "(\<And>a. total k (f a)) \<Longrightarrow> (\<And>a. total k (g a)) \<Longrightarrow> total k (case_DistributionPointName f g n)"
  by (cases n) simp_all

lemma authoritative_end: "fine False (authoritative_for L idp c)"
proof -
  define continue :: "bytes \<Rightarrow> DistributionPointName option option \<Rightarrow> (bytes, bytes + bool) parser" where
    "continue g names = (case names of
        None \<Rightarrow> ok (Inr False)
      | Some None \<Rightarrow> ok (Inr False)
      | Some (Some (NameRelativeToCrlIssuer _)) \<Rightarrow> ok (Inr False)
      | Some (Some (FullName general_names)) \<Rightarrow>
          on_other (uri_name_in_common L (der_iterator_new L general_names)) g
            (\<lambda>found g'. if found then ok (Inr True) else ok (Inl g')))" for g names
  have continue: "continue g names r = (Ok x, r') \<Longrightarrow> r' = r" for g names r x r'
    unfolding continue_def
    by (auto simp: ok_eq_Ok on_other_def of_result_def
      split: option.splits DistributionPointName.splits prod.splits result.splits if_splits)
  have "progress (authoritative_turn L)"
  proof (rule progressI)
    fix g r g' r'
    assume "authoritative_turn L g r = (Ok (Inl g'), r')"
    then obtain dp r1 where r1: "attempt (crl_distribution_point_from_der L) r = (Ok (Some dp), r1)"
      and k: "(if crl_issuer dp \<noteq> None \<or> reasons dp \<noteq> None then ok (Inr False)
        else and_then (attempt (of_result (dp_names L dp))) (continue g)) r1 = (Ok (Inl g'), r')"
      unfolding authoritative_turn_def continue_def
      by (auto simp: and_then_eq_Ok [of "at_end L"] and_then_eq_Ok [of "attempt (crl_distribution_point_from_der L)"]
        at_end_run ok_eq_Ok split: if_splits option.splits)
    have "crl_distribution_point_from_der L r = (Ok dp, r1)"
      using r1 by (auto simp: attempt_run split: prod.splits result.splits)
    then have "length r1 < length r" unfolding crl_distribution_point_from_der_def by (rule nested_shorter)
    moreover from k have "r' = r1"
      using continue by (auto simp: and_then_eq_Ok ok_eq_Ok attempt_run of_result_def split: if_splits result.splits)
    ultimately show "length r' < length r" by simp
  qed
  moreover have "total False (authoritative_turn L g)" for g
    unfolding authoritative_turn_def by (intro total_intros total_case_dpn names_end)
  ultimately have "total False (loop L (authoritative_turn L) g)" for g by (rule loop_total)
  then show ?thesis
    using names_end(2) [of False idp] unfolding authoritative_for_def total_def
    by (auto split: option.split result.split DistributionPointName.split)
qed

lemma idp_end: "fine False (idp_from_der L der)"
proof -
  have b: "fine False (decode_bool L v)" for v
  proof -
    have "total False (and_then (read_byte L) (\<lambda>b. and_then (at_end L) (\<lambda>e.
        if \<not> e then of_result (Err BadDer) else if b = 0xFF then ok True else if b = 0x00 then ok False
        else of_result (Err BadDer))))" by (intro total_intros)
    then show ?thesis unfolding decode_bool_def total_def by blast
  qed
  have "idp_field L s r = (Ok s', r') \<Longrightarrow> length r' < length r" for s r s' r'
    unfolding idp_field_def Let_def and_then_eq_Ok
    by (auto simp: of_result_def split: if_splits dest!: read_tag_shorter)
  moreover have "total False (idp_field L s)" for s
    unfolding idp_field_def Let_def
    by (intro total_intros; auto intro!: res_bind_fine set_extension_once_fine total_intros b)
  ultimately have "total False (nested L Tag_Sequence (TrailingData TypeId_IssuingDistributionPoint) (idp_fields L))"
    unfolding idp_fields_def by (intro total_intros field_loop_total)
  then have "fine False (fst (nested L Tag_Sequence (TrailingData TypeId_IssuingDistributionPoint) (idp_fields L) r))" for r
    by (simp add: total_def)
  then show ?thesis
    unfolding idp_from_der_def using names_end(2) [of False]
    by (intro res_bind_fine) (auto simp: fine_def split: option.split result.split DistributionPointName.split)
qed

lemma check_crls_end: "fine False (check_crls L algs c subj spki ku ro)"
proof -
  have "fine False (crl_authoritative L crl c)" for crl
    using idp_end authoritative_end unfolding crl_authoritative_def fine_def by (auto split: option.split result.split)
  then have "fine False (find_crl L c cs)" for cs by (induction cs) (auto intro!: res_bind_fine)
  moreover have "fine False (key_usage_check L m ku)" for m
  proof -
    have "fine False (fst (expect_tag L Tag_BitString r))" for r
      using total_expect_tag by (simp add: total_def)
    then show ?thesis unfolding key_usage_check_def by (auto intro!: res_bind_fine total_intros split: option.split)
  qed
  moreover have "fine False (crl_verify_signature L crl algs spki)" for crl
    by (cases crl) (auto intro: verify_signed_data_fine)
  ultimately show ?thesis
    unfolding check_crls_def
    by (auto intro!: res_bind_fine find_serial_fine split: option.split UnknownStatusPolicy.split)
qed

lemma check_link_end: "fine (revo = None) (check_link algs revo spki subj ku c)"
  unfolding check_link_def
  by (auto intro!: res_bind_fine verify_signed_data_fine check_crls_end split: option.split)

lemma check_signatures_loop_end: "fine (revo = None) (fst (check_signatures_loop L algs revo spki subj ku c n))"
proof (induction c arbitrary: spki subj ku n rule: cert_chain_induct)
  case (EndEntity f)
  show ?case
    unfolding check_signatures_loop_step using check_link_end [of revo algs spki subj ku "Cert EndEntity f"]
    by (auto split: result.split)
next
  case (Ca child f)
  then show ?case
    unfolding check_signatures_loop_step using check_link_end [of revo algs spki subj ku "Cert (Ca child) f"]
    by (auto split: result.split)
qed

lemma try_anchor_end: "fine (revocation opts = None) (fst (try_anchor opts c a s))"
  unfolding try_anchor_run
  using check_constraints_facts(2) [of opts c "ta_name_constraints a"]
    check_signatures_loop_end [of "revocation opts" "supported_sig_algs opts" "ta_subject_public_key_info a" "ta_subject a" None c s]
  by (auto split: result.split)

section \<open>The search as a whole\<close>

lemma loop_end:
  assumes "loop_while_non_fatal_error e vs f s = (x, s')" "\<And>v s x s'. v \<in> set vs \<Longrightarrow> f v s = (x, s') \<Longrightarrow> fine k x"
  shows "fine k x"
  using assms
proof (induction e vs f s rule: loop_while_non_fatal_error.induct)
  case (2 e v vs f s)
  obtain y s1 where y: "f v s = (y, s1)" by force
  with 2(3) have "fine k y" by auto
  moreover have "fine k x" if "y = Err z" "z \<noteq> MaximumSignatureChecksExceeded" for z
    using 2(1) [OF y [symmetric, unfolded that(1)] refl that(2)] 2(2,3) y that by auto
  ultimately show ?case using 2(2) y by (cases y) (auto split: if_splits)
qed auto

lemma loop_limit:
  assumes "loop_while_non_fatal_error e vs f s = (Err MaximumSignatureChecksExceeded, s')"
    and "e = MaximumSignatureChecksExceeded \<Longrightarrow> 100 < s"
    and "\<And>v s x s'. v \<in> set vs \<Longrightarrow> f v s = (x, s') \<Longrightarrow> s \<le> s'"
    and "\<And>v s s'. v \<in> set vs \<Longrightarrow> f v s = (Err MaximumSignatureChecksExceeded, s') \<Longrightarrow> 100 < (s' :: nat)"
  shows "100 < s'"
  using assms
proof (induction e vs f s rule: loop_while_non_fatal_error.induct)
  case (2 e v vs f s)
  obtain y s1 where y: "f v s = (y, s1)" by force
  with 2(4) have s1: "s \<le> s1" by auto
  show ?case
  proof (cases "final y")
    case True
    with 2(2,5) y show ?thesis by (cases y) auto
  next
    case False
    then obtain z where z: "y = Err z" "z \<noteq> MaximumSignatureChecksExceeded" by (cases y) auto
    with 2(2) y have rest: "loop_while_non_fatal_error (most_specific e z) vs f s1 = (Err MaximumSignatureChecksExceeded, s')" by simp
    show ?thesis
    proof (rule 2(1) [OF y [symmetric, unfolded z(1)] refl z(2) rest])
      assume "most_specific e z = MaximumSignatureChecksExceeded"
      with z have "e = MaximumSignatureChecksExceeded" by (auto simp: most_specific_def split: if_splits)
      with 2(3) s1 show "100 < s1" by simp
    qed (meson 2(4,5) list.set_intros(2))+
  qed
qed simp

lemma inner_cases:
  assumes "build_chain_inner (Suc fuel) L opts time c n s = (x, s')" "enough (Suc fuel) c n"
  obtains (refused) e where "\<not> node_ok opts time c n" "x = Err e" "e \<noteq> MaximumSignatureChecksExceeded" "s' = s"
  | (anchors) "node_ok opts time c n" "loop_while_non_fatal_error UnknownIssuer (trust_anchors opts) (try_anchor opts c) s = (x, s')"
      "\<nexists>e. x = Err e"
  | (issuers) err s1 where "node_ok opts time c n"
      "loop_while_non_fatal_error UnknownIssuer (trust_anchors opts) (try_anchor opts c) s = (Err err, s1)"
      "loop_while_non_fatal_error err (intermediate_certs opts) (try_issuer opts (build_chain_inner fuel L opts time) c n) s1 = (x, s')"
proof -
  let ?i = "check_issuer_independent_properties L c time (used_as_ca (ee_or_ca c)) n (ku_inner (opt_eku opts))"
  have no: "\<not> (used_as_ca (ee_or_ca c) = No \<and> n \<noteq> 0)" using assms(2) by (auto simp: enough_def)
  show thesis
  proof (cases ?i)
    case (Ok u)
    show thesis
    proof (cases "node_ok opts time c n")
      case False
      with Ok assms(1) show thesis
        by (intro refused [of UnknownIssuer]) (auto simp: build_chain_inner_run node_ok_def Let_def)
    next
      case True
      obtain y s1 where y: "loop_while_non_fatal_error UnknownIssuer (trust_anchors opts) (try_anchor opts c) s = (y, s1)" by force
      have run: "build_chain_inner (Suc fuel) L opts time c n s =
          (case loop_while_non_fatal_error UnknownIssuer (trust_anchors opts) (try_anchor opts c) s of
              (Ok _, s') \<Rightarrow> (Ok (), s')
            | (Err err, s') \<Rightarrow>
                loop_while_non_fatal_error err (intermediate_certs opts)
                  (try_issuer opts (build_chain_inner fuel L opts time) c n) s'
            | (Panic, s') \<Rightarrow> (Panic, s')
            | (Diverge, s') \<Rightarrow> (Diverge, s'))"
        using Ok True no by (auto simp: build_chain_inner_run node_ok_def Let_def)
      show thesis
      proof (cases y)
        case (Err e)
        with y run assms(1) show thesis by (intro issuers [OF True, of e s1]) auto
      qed (use y run assms(1) in \<open>auto intro!: anchors [OF True]\<close>)
    qed
  next
    case (Err e)
    with others_issuer_independent [of c time "used_as_ca (ee_or_ca c)" n "ku_inner (opt_eku opts)"] assms(1) show thesis
      by (intro refused [of e]) (auto simp: build_chain_inner_run node_ok_def Let_def)
  qed (use check_issuer_independent_fine [of True c time] in \<open>metis fine_simps(3,4)\<close>)+
qed

lemma enough_Suc: "enough fuel c n \<Longrightarrow> \<exists>f. fuel = Suc f"
  by (cases fuel) (auto simp: enough_def)

text \<open>What every outcome of a search satisfies, below a given amount of fuel.\<close>

definition search_ok :: "nat \<Rightarrow> ChainOptions \<Rightarrow> Time \<Rightarrow> bool" where
  "search_ok fuel opts time \<longleftrightarrow>
    (\<forall>c n s x s'. enough fuel c n \<longrightarrow> build_chain_inner fuel L opts time c n s = (x, s') \<longrightarrow>
      s \<le> s' \<and> fine (revocation opts = None) x \<and> (x = Err MaximumSignatureChecksExceeded \<longrightarrow> 100 < s'))"

lemma try_issuer_ok:
  assumes "search_ok fuel opts time" "enough (Suc fuel) c n" "node_ok opts time c n"
    and "try_issuer opts (build_chain_inner fuel L opts time) c n der s = (x, s')"
  shows "s \<le> s' \<and> fine (revocation opts = None) x \<and> (x = Err MaximumSignatureChecksExceeded \<longrightarrow> 100 < s')"
  using assms(4)
proof (cases rule: try_issuer_cases)
  case (1 i)
  from enough_next [OF assms(2,3) 1(1)] 1(2) assms(1) show ?thesis unfolding search_ok_def by blast
qed simp

lemma search_ok_all: "search_ok fuel opts time"
proof (induction fuel)
  case 0
  show ?case unfolding search_ok_def using enough_Suc by blast
next
  case (Suc fuel)
  show ?case unfolding search_ok_def
  proof (intro allI impI)
    fix c n s x s'
    assume en: "enough (Suc fuel) c n" and run: "build_chain_inner (Suc fuel) L opts time c n s = (x, s')"
    have anchor: "s \<le> s' \<and> fine (revocation opts = None) x \<and> (x = Err MaximumSignatureChecksExceeded \<longrightarrow> 100 < s')"
      if "loop_while_non_fatal_error UnknownIssuer (trust_anchors opts) (try_anchor opts c) s = (x, s')" for x s'
    proof (intro conjI impI)
      show "s \<le> s'" by (rule loop_mono [OF that try_anchor_counter])
      show "fine (revocation opts = None) x"
        using try_anchor_end by (intro loop_end [OF that]) (metis fst_conv)
      assume x: "x = Err MaximumSignatureChecksExceeded"
      show "100 < s'" by (rule loop_limit [OF that [unfolded x] _ try_anchor_counter try_anchor_limit]) simp
    qed
    from run en show "s \<le> s' \<and> fine (revocation opts = None) x \<and> (x = Err MaximumSignatureChecksExceeded \<longrightarrow> 100 < s')"
    proof (cases rule: inner_cases)
      case (refused e)
      then show ?thesis by simp
    next
      case anchors
      then show ?thesis using anchor by blast
    next
      case (issuers err s1)
      note a = anchor [OF issuers(2)]
      note i = try_issuer_ok [OF Suc en issuers(1)]
      show ?thesis
      proof (intro conjI impI)
        have "s1 \<le> s'" by (rule loop_mono [OF issuers(3)]) (use i in blast)
        with a show "s \<le> s'" by simp
        show "fine (revocation opts = None) x" by (rule loop_end [OF issuers(3)]) (use i in blast)
        assume x: "x = Err MaximumSignatureChecksExceeded"
        show "100 < s'"
        proof (rule loop_limit [OF issuers(3) [unfolded x]])
          show "err = MaximumSignatureChecksExceeded \<Longrightarrow> 100 < s1" using a by simp
        qed (use i in blast)+
      qed
    qed
  qed
qed

lemma inner_sound:
  "enough fuel c n \<Longrightarrow> build_chain_inner fuel L opts time c n s = (Ok (), s') \<Longrightarrow> trusted opts time c n \<and> s' \<le> 100"
proof (induction fuel arbitrary: c n s)
  case 0
  then show ?case using enough_Suc by blast
next
  case (Suc fuel)
  from Suc.prems(2,1) show ?case
  proof (cases rule: inner_cases)
    case (refused e)
    then show ?thesis by simp
  next
    case anchors
    from loop_Ok [OF anchors(2)] obtain a s1 where "a \<in> set (trust_anchors opts)" "try_anchor opts c a s1 = (Ok (), s')" by blast
    with anchors(1) show ?thesis by (auto simp: try_anchor_Ok intro: trusted.anchor)
  next
    case (issuers err s1)
    from loop_Ok [OF issuers(3)] obtain der s2 where der: "der \<in> set (intermediate_certs opts)"
      "try_issuer opts (build_chain_inner fuel L opts time) c n der s2 = (Ok (), s')" by blast
    from der(2) show ?thesis
    proof (cases rule: try_issuer_cases)
      case (1 i)
      from Suc.IH [OF enough_next [OF Suc.prems(1) issuers(1) 1(1)] 1(2)] der(1) issuers(1) 1(1) show ?thesis
        by (auto intro: trusted.issuer)
    qed simp
  qed
qed

lemma inner_complete:
  "trusted opts time c n \<Longrightarrow> enough fuel c n \<Longrightarrow> build_chain_inner fuel L opts time c n s = (x, s') \<Longrightarrow>
    x = Ok () \<or> x = Panic \<or> 100 < s'"
proof (induction arbitrary: fuel s x s' rule: trusted.induct)
  case (anchor c n a)
  obtain f where f: "fuel = Suc f" using enough_Suc anchor.prems(1) by blast
  have found: "x = Ok () \<or> x = Panic \<or> 100 < s'"
    if "loop_while_non_fatal_error UnknownIssuer (trust_anchors opts) (try_anchor opts c) s = (x, s')" for x s'
  proof (rule loop_complete [OF that anchor(2)])
    show "\<And>s1 y s2. s \<le> s1 \<Longrightarrow> try_anchor opts c a s1 = (y, s2) \<Longrightarrow> y = Ok () \<or> y = Panic \<or> 100 < s2"
      using try_anchor_accepts [OF anchor(3)] by blast
    show "\<And>v s1 y s2. try_anchor opts c v s1 = (y, s2) \<Longrightarrow> s1 \<le> s2 \<and> y \<noteq> Diverge"
      using try_anchor_counter try_anchor_end by (metis fine_simps(4) fst_conv)
  qed (rule try_anchor_limit)
  from anchor.prems(2,1) show ?case unfolding f
  proof (cases rule: inner_cases)
    case (refused e)
    with anchor(1) show ?thesis by simp
  next
    case anchors
    then show ?thesis using found by blast
  next
    case (issuers err s1)
    from found [OF issuers(2)] have "100 < s1" by simp
    moreover have "s1 \<le> s'"
      by (rule loop_mono [OF issuers(3)]) (use try_issuer_ok [OF search_ok_all anchor.prems(1) [unfolded f] issuers(1)] in blast)
    ultimately show ?thesis by simp
  qed
next
  case (issuer c n der i)
  obtain f where f: "fuel = Suc f" using enough_Suc issuer.prems(1) by blast
  note nxt = enough_next [OF issuer.prems(1) [unfolded f] issuer(1,3)]
  note ok = try_issuer_ok [OF search_ok_all issuer.prems(1) [unfolded f] issuer(1)]
  from issuer.prems(2,1) show ?case unfolding f
  proof (cases rule: inner_cases)
    case (refused e)
    with issuer(1) show ?thesis by simp
  next
    case anchors
    then show ?thesis
      using try_anchor_end loop_end [OF anchors(2), of False] by (cases x) (auto, metis fine_simps(4) fst_conv fine_def)
  next
    case (issuers err s1)
    show ?thesis
    proof (rule loop_complete [OF issuers(3) issuer(2)])
      show "\<And>s1' y s2. s1 \<le> s1' \<Longrightarrow> try_issuer opts (build_chain_inner f L opts time) c n der s1' = (y, s2) \<Longrightarrow>
          y = Ok () \<or> y = Panic \<or> 100 < s2"
        unfolding try_issuer_issued [OF issuer(3)] using issuer.IH [OF nxt] by blast
    qed (use ok in \<open>fastforce simp: fine_def\<close>)+
  qed
qed

section \<open>Revocation of the certificates of a path\<close>

lemma trusted_signed:
  "trusted opts time c n \<Longrightarrow> \<exists>spki subj ku. chain_signed (supported_sig_algs opts) (revocation opts) spki subj ku c"
proof (induction rule: trusted.induct)
  case (anchor c n a)
  then show ?case by (auto simp: anchored_def)
next
  case (issuer c n der i)
  from issuer(3) obtain f where i: "i = Cert (Ca c) f" by (cases i) (auto simp: issued_by_def cert_from_der_iff)
  from issuer.IH obtain spki subj ku where "chain_signed (supported_sig_algs opts) (revocation opts) spki subj ku i" by blast
  then show ?case by (auto simp: i)
qed

lemma chain_signed_link: "chain_signed algs revo spki subj ku c \<Longrightarrow> link_ok algs revo spki subj ku c"
  by (cases c) auto

lemma find_crl_Some:
  "find_crl L c cs = Ok (Some crl) \<Longrightarrow> crl \<in> set cs \<and> crl_authoritative L crl c = Ok True"
  by (induction cs) (auto split: if_splits)

lemma check_crls_Ok:
  assumes "check_crls L algs c subj spki ku ro = Ok x"
  shows "cert_issuer (cert_body c) = subj \<and>
    (depth ro = Depth_EndEntity \<and> ee_or_ca c \<noteq> EndEntity \<or>
     status_requirement ro = Allow \<and> find_crl L c (crls ro) = Ok None \<or>
     (\<exists>crl \<in> set (crls ro). crl_authoritative L crl c = Ok True \<and> (\<exists>u. crl_verify_signature L crl algs spki = Ok u) \<and>
       key_usage_check L CrlSign ku = Ok () \<and> find_serial L crl (cert_serial (cert_body c)) = Ok None))"
  using assms unfolding check_crls_def
  by (auto split: if_splits option.splits UnknownStatusPolicy.splits dest: find_crl_Some)

section \<open>The error that is reported\<close>

lemma loop_errors:
  assumes "loop_while_non_fatal_error d vs f s = (Err e, s')" "e \<noteq> MaximumSignatureChecksExceeded"
  shows "rank d \<le> rank e \<and> (\<forall>v \<in> set vs. \<exists>s1 z s2. f v s1 = (Err z, s2) \<and> rank z \<le> rank e) \<and>
    (e = d \<or> (\<exists>v \<in> set vs. \<exists>s1 s2. f v s1 = (Err e, s2)))"
  using assms
proof (induction d vs f s rule: loop_while_non_fatal_error.induct)
  case (2 d v vs f s)
  obtain y s1 where y: "f v s = (y, s1)" by force
  with 2(2,3) obtain z where z: "y = Err z" "z \<noteq> MaximumSignatureChecksExceeded" by (cases y) (auto split: if_splits)
  with 2(2) y have rest: "loop_while_non_fatal_error (most_specific d z) vs f s1 = (Err e, s')" by simp
  note IH = 2(1) [OF y [symmetric, unfolded z(1)] refl z(2) rest 2(3)]
  have "rank d \<le> rank e" "rank z \<le> rank e" using IH by auto
  moreover have "most_specific d z = d \<or> most_specific d z = z" by (auto simp: most_specific_def)
  ultimately show ?case using IH y z by auto
qed simp

section \<open>The entry point\<close>

lemma enough_entry: "ee_or_ca c = EndEntity \<Longrightarrow> enough (MAX_SUB_CA_COUNT + 2) c 0"
  by (simp add: enough_def level_def)

lemma build_chain_Ok_trusted:
  assumes "ee_or_ca c = EndEntity" "build_chain L opts c time = Ok ()"
  shows "trusted opts time c 0"
  using inner_sound [OF enough_entry [OF assms(1)], of opts time 0] assms(2)
  by (metis build_chain_def prod.collapse)

lemma build_chain_complete:
  assumes "ee_or_ca c = EndEntity" "trusted opts time c 0"
    and "snd (build_chain_inner (MAX_SUB_CA_COUNT + 2) L opts time c 0 0) \<le> 100"
  shows "build_chain L opts c time = Ok () \<or> build_chain L opts c time = Panic"
  using inner_complete [OF assms(2) enough_entry [OF assms(1)]] assms(3)
  by (metis build_chain_def prod.collapse linorder_not_le)

lemma build_chain_fine: "ee_or_ca c = EndEntity \<Longrightarrow> fine (revocation opts = None) (build_chain L opts c time)"
  using search_ok_all [of "MAX_SUB_CA_COUNT + 2" opts time] enough_entry
  unfolding search_ok_def build_chain_def by (metis prod.collapse)

lemma build_chain_counter:
  assumes "ee_or_ca c = EndEntity" "build_chain_inner (MAX_SUB_CA_COUNT + 2) L opts time c 0 0 = (x, s)"
  shows "(x = Ok () \<longrightarrow> s \<le> 100) \<and> (x = Err MaximumSignatureChecksExceeded \<longrightarrow> 100 < s)"
  using search_ok_all [of "MAX_SUB_CA_COUNT + 2" opts time] inner_sound [OF enough_entry [OF assms(1)], of opts time 0]
    enough_entry [OF assms(1)] assms(2)
  unfolding search_ok_def by blast

lemma accepted_not_revoked:
  assumes "ee_or_ca c = EndEntity" "trusted opts time c n" "revocation opts = Some ro" "status_requirement ro = Deny"
  shows "\<exists>crl \<in> set (crls ro). \<exists>spki. crl_authoritative L crl c = Ok True \<and>
    verify_signed_data L (supported_sig_algs opts) spki (cert_signed_data (cert_body c)) = Ok () \<and>
    crl_verify_signature L crl (supported_sig_algs opts) spki = Ok () \<and>
    find_serial L crl (cert_serial (cert_body c)) = Ok None"
proof -
  from trusted_signed [OF assms(2)] obtain spki subj ku where
    link: "link_ok (supported_sig_algs opts) (revocation opts) spki subj ku c" using chain_signed_link by blast
  with assms(3) obtain x where "check_crls L (supported_sig_algs opts) c subj spki ku ro = Ok x" by (auto simp: link_ok_def)
  from check_crls_Ok [OF this] assms(1,4) obtain crl where "crl \<in> set (crls ro)" "crl_authoritative L crl c = Ok True"
    "crl_verify_signature L crl (supported_sig_algs opts) spki = Ok ()" "find_serial L crl (cert_serial (cert_body c)) = Ok None" by auto
  moreover from link have "verify_signed_data L (supported_sig_algs opts) spki (cert_signed_data (cert_body c)) = Ok ()"
    by (simp add: link_ok_def)
  ultimately show ?thesis by blast
qed

section \<open>Properties\<close>

text \<open>C30: when no candidate is accepted, the error that is reported is the given one or that of a candidate, and no candidate
  failed with an error of a higher rank.\<close>

theorem reported_error:
  assumes "loop_while_non_fatal_error d vs f s = (Err e, s')" "e \<noteq> MaximumSignatureChecksExceeded"
  shows "rank d \<le> rank e \<and> (\<forall>v \<in> set vs. \<exists>s1 z s2. f v s1 = (Err z, s2) \<and> rank z \<le> rank e) \<and>
    (e = d \<or> (\<exists>v \<in> set vs. \<exists>s1 s2. f v s1 = (Err e, s2)))"
  using assms by (rule loop_errors)

theorem reported_error_witness:
  "loop_while_non_fatal_error UnknownIssuer [CertExpired, UnknownIssuer] (\<lambda>v s. (Err v, s + 1)) (0 :: nat) = (Err CertExpired, 2) \<and>
    rank UnknownIssuer \<le> rank CertExpired"
proof -
  have "loop_while_non_fatal_error UnknownIssuer [CertExpired, UnknownIssuer] (\<lambda>v s. (Err v, s + 1)) (0 :: nat) = (Err CertExpired, 2)"
    by (simp add: most_specific_def)
  from this reported_error [OF this] show ?thesis by simp
qed

section \<open>A small path\<close>

definition small_alg :: SignatureVerificationAlgorithm where
  "small_alg = \<lparr>public_key_alg_id = \<lparr>asn1_id_value = [5]\<rparr>, signature_alg_id = \<lparr>asn1_id_value = [9]\<rparr>,
     verify_fn = (\<lambda>key msg sig. key = [6] \<and> sig = [8])\<rparr>"

definition small_anchor :: TrustAnchor where
  "small_anchor = \<lparr>ta_subject = [], ta_subject_public_key_info = [0x30, 1, 5, 3, 2, 0, 6], ta_name_constraints = None\<rparr>"

definition small_options :: "RevocationOptions option \<Rightarrow> ChainOptions" where
  "small_options revo = \<lparr>opt_eku = server_auth, supported_sig_algs = [small_alg], trust_anchors = [small_anchor],
     intermediate_certs = [], revocation = revo\<rparr>"

lemma small_node_ok: "node_ok (small_options revo) 0 (Cert EndEntity small_fields) 0"
  using small_validity_at_epoch
  by (auto simp: node_ok_def check_issuer_independent_iff small_options_def small_fields_def basic_constraints_hold_def
    purpose_allowed_def server_auth_def)

lemma small_verified: "verify_signed_data L [small_alg] [0x30, 1, 5, 3, 2, 0, 6] (cert_signed_data small_fields) = Ok ()"
proof -
  have "der_read_all L TypeId_SubjectPublicKeyInfo (spki_from_der L) [0x30, 1, 5, 3, 2, 0, 6] = Ok \<lparr>algorithm_id_value = [5], key_value = [6]\<rparr>"
    by (simp add: der_read_all_def read_all_eq_Ok spki_from_der_iff der_encode_short)
  then show ?thesis
    by (simp add: verify_signed_data_refines verify_signed_data_spec_def small_alg_def small_fields_def)
qed

text \<open>An empty revocation list of the anchor, signed by the same key.\<close>

definition small_crl :: CertRevocationList where
  "small_crl = Owned_Crl \<lparr>ocrl_revoked_certs = Map.empty, ocrl_issuer = [], ocrl_issuing_distribution_point = None,
     ocrl_signed_data = signed_data_to_owned (cert_signed_data small_fields)\<rparr>"

definition small_revocation :: RevocationOptions where
  "small_revocation = \<lparr>crls = [small_crl], depth = Depth_Chain, status_requirement = Deny\<rparr>"

lemma small_crl_checked:
  "check_crls L [small_alg] (Cert EndEntity small_fields) [] [0x30, 1, 5, 3, 2, 0, 6] None small_revocation = Ok (Some CertNotRevoked)"
proof -
  have "crl_authoritative L small_crl (Cert EndEntity small_fields) = Ok True"
    by (simp add: crl_authoritative_def small_crl_def issuer_def crl_distribution_points_def small_fields_def)
  moreover have "cert_issuer small_fields = []" by (simp add: small_fields_def)
  ultimately show ?thesis
    using small_verified
    by (simp add: check_crls_def small_revocation_def key_usage_check_def) (simp add: small_crl_def owned_find_serial_def)
qed

lemma small_trusted:
  assumes "revo = None \<or> revo = Some small_revocation"
  shows "trusted (small_options revo) 0 (Cert EndEntity small_fields) 0"
proof (rule trusted.anchor [OF small_node_ok])
  show "small_anchor \<in> set (trust_anchors (small_options revo))" by (simp add: small_options_def)
  have "cert_issuer small_fields = []" by (simp add: small_fields_def)
  then show "anchored (small_options revo) (Cert EndEntity small_fields) small_anchor"
    using small_verified small_crl_checked assms
    by (auto simp: anchored_def small_options_def small_anchor_def constraints_hold_def link_ok_def)
qed

lemma small_counter:
  assumes "revo = None \<or> revo = Some small_revocation"
  shows "build_chain_inner (MAX_SUB_CA_COUNT + 2) L (small_options revo) 0 (Cert EndEntity small_fields) 0 0 = (Ok (), 1)"
proof -
  have "try_anchor (small_options revo) (Cert EndEntity small_fields) small_anchor 0 = (Ok (), 1)"
    using small_trusted [OF assms] by (cases rule: trusted.cases) (auto simp: try_anchor_Ok small_options_def)
  then show ?thesis
    using small_node_ok [of revo]
    by (simp add: MAX_SUB_CA_COUNT_def numeral_eq_Suc build_chain_inner_run node_ok_def Let_def)
      (simp add: small_options_def)
qed

end
