(* ===== verification/Crl_Format.thy ===== *)
theory Crl_Format
  imports Crl Cert_Format
begin

text \<open>
  What a parsed revocation list says about the octets it was parsed from: the entries with their reason and
  invalidity date, and the list itself with its extensions. Of every extension that is kept
  there is at most one, an unknown one is not critical.
\<close>

section \<open>Extensions by their arc\<close>

text \<open>The last octet of an identifier in the arc 2.5.29.\<close>

definition arc :: "Extension \<Rightarrow> u8 option" where
  "arc e = (case ext_id e of [a, b, n] \<Rightarrow> if a = 0x55 \<and> b = 0x1d then Some n else None | _ \<Rightarrow> None)"

lemma arc_Some: "arc e = Some n \<longleftrightarrow> ext_id e = [0x55, 0x1d, n]"
  by (auto simp: arc_def split: list.splits)

lemma remember_extension_eq:
  "remember_extension e h s =
    (case arc e of Some n \<Rightarrow> h n | None \<Rightarrow> if critical e then Err UnsupportedCriticalExtension else Ok s)"
proof (cases "arc e")
  case None
  then have "ext_id e \<noteq> [0x55, 0x1d, n]" for n by (metis arc_Some option.distinct(1))
  with None show ?thesis by (simp add: remember_extension_other)
next
  case (Some n)
  then have "e = \<lparr>critical = critical e, ext_id = [0x55, 0x1d, n], ext_value = ext_value e\<rparr>"
    by (cases e) (simp add: arc_Some)
  with Some show ?thesis by (metis option.simps(5) remember_extension_arc)
qed

definition with_arc :: "u8 \<Rightarrow> Extension list \<Rightarrow> Extension list" where
  "with_arc n es = filter (\<lambda>e. arc e = Some n) es"

lemma with_arc_simps [simp]:
  "with_arc n [] = []" "with_arc n (e # es) = (if arc e = Some n then e # with_arc n es else with_arc n es)"
  by (simp_all add: with_arc_def)

text \<open>A field is given by the only extension of its kind, or is empty when there is none.\<close>

definition given_by :: "(bytes \<Rightarrow> 'v \<Rightarrow> bool) \<Rightarrow> Extension list \<Rightarrow> 'v option \<Rightarrow> bool" where
  "given_by enc es x \<longleftrightarrow> (case x of None \<Rightarrow> es = [] | Some v \<Rightarrow> \<exists>e. es = [e] \<and> enc (ext_value e) v)"

primrec fills :: "(bytes \<Rightarrow> 'v \<Rightarrow> bool) \<Rightarrow> 'v option \<Rightarrow> Extension list \<Rightarrow> 'v option \<Rightarrow> bool" where
  "fills enc old [] new \<longleftrightarrow> new = old"
| "fills enc old (e # es) new \<longleftrightarrow> old = None \<and> (\<exists>x. enc (ext_value e) x \<and> fills enc (Some x) es new)"

lemma fills_given: "fills enc None es new \<longleftrightarrow> given_by enc es new"
proof (cases es)
  case (Cons e fs)
  then show ?thesis by (cases fs) (auto simp: given_by_def split: option.split)
qed (simp add: given_by_def split: option.split)

section \<open>Entries\<close>

definition reason_encodes :: "bytes \<Rightarrow> RevocationReason \<Rightarrow> bool" where
  "reason_encodes v r \<longleftrightarrow> v = [10, 1, reason_u8 r]"

lemma revocation_reason_try_from_iff: "revocation_reason_try_from v = Ok r \<longleftrightarrow> v = reason_u8 r"
  by (cases r) (auto simp: revocation_reason_try_from_def)

lemma reason_value_iff: "der_read_all L t (revocation_reason_from_der L) v = Ok r \<longleftrightarrow> reason_encodes v r"
proof -
  have "length w < 65535 \<and> v = der_encode 10 w \<and> w = [reason_u8 r] \<longleftrightarrow> w = [reason_u8 r] \<and> v = [10, 1, reason_u8 r]" for w
    by (auto simp: der_encode_short)
  then show ?thesis
    unfolding der_read_all_def read_all_eq_Ok revocation_reason_from_der_def and_then_eq_Ok expect_tag_iff of_result_eq_Ok
      read_byte_or_eq_Ok revocation_reason_try_from_iff reason_encodes_def by auto
qed

lemma remember_entry_Ok:
  "remember_revoked_cert_extension L c e = Ok c' \<longleftrightarrow>
    (if arc e = Some 21 then reason_code c = None \<and> (\<exists>r. reason_encodes (ext_value e) r \<and> c' = c\<lparr>reason_code := Some r\<rparr>)
     else if arc e = Some 24 then invalidity_date c = None \<and> (\<exists>t. encodes_time (ext_value e) t \<and> c' = c\<lparr>invalidity_date := Some t\<rparr>)
     else arc e \<noteq> Some 29 \<and> \<not> critical e \<and> c' = c)"
  unfolding remember_revoked_cert_extension_def remember_extension_eq
  by (auto simp: set_extension_once_Ok reason_value_iff read_all_eq_Ok time_from_der_encodes unsupported_def
      split: option.split if_splits)

definition entry_allowed :: "Extension list \<Rightarrow> bool" where
  "entry_allowed es \<longleftrightarrow> (\<forall>e \<in> set es. arc e \<noteq> Some 21 \<and> arc e \<noteq> Some 24 \<longrightarrow> arc e \<noteq> Some 29 \<and> \<not> critical e)"

lemma fold_entry:
  "fold_extensions (remember_revoked_cert_extension L) c es = Ok c' \<longleftrightarrow>
    entry_allowed es \<and> fills reason_encodes (reason_code c) (with_arc 21 es) (reason_code c') \<and>
    fills encodes_time (invalidity_date c) (with_arc 24 es) (invalidity_date c') \<and>
    serial_number c' = serial_number c \<and> revocation_date c' = revocation_date c"
proof (induction es arbitrary: c)
  case Nil
  show ?case by (cases c; cases c') (auto simp: entry_allowed_def)
next
  case (Cons e es)
  have "entry_allowed (e # es) \<longleftrightarrow>
      entry_allowed es \<and> (arc e \<noteq> Some 21 \<and> arc e \<noteq> Some 24 \<longrightarrow> arc e \<noteq> Some 29 \<and> \<not> critical e)"
    by (auto simp: entry_allowed_def)
  note allowed = this
  have step: "fold_extensions (remember_revoked_cert_extension L) c (e # es) = Ok c' \<longleftrightarrow>
      (\<exists>d. remember_revoked_cert_extension L c e = Ok d \<and> fold_extensions (remember_revoked_cert_extension L) d es = Ok c')"
    by simp
  consider "arc e = Some 21" | "arc e = Some 24" | "arc e \<noteq> Some 21" "arc e \<noteq> Some 24" by blast
  then show ?case
  proof cases
    case 1
    then have "fold_extensions (remember_revoked_cert_extension L) c (e # es) = Ok c' \<longleftrightarrow> reason_code c = None \<and>
        (\<exists>r. reason_encodes (ext_value e) r \<and> fold_extensions (remember_revoked_cert_extension L) (c\<lparr>reason_code := Some r\<rparr>) es = Ok c')"
      unfolding step remember_entry_Ok by auto
    with 1 show ?thesis by (simp only: Cons.IH allowed) auto
  next
    case 2
    then have "fold_extensions (remember_revoked_cert_extension L) c (e # es) = Ok c' \<longleftrightarrow> invalidity_date c = None \<and>
        (\<exists>t. encodes_time (ext_value e) t \<and> fold_extensions (remember_revoked_cert_extension L) (c\<lparr>invalidity_date := Some t\<rparr>) es = Ok c')"
      unfolding step remember_entry_Ok by auto
    with 2 show ?thesis by (simp only: Cons.IH allowed) auto
  next
    case 3
    then have "fold_extensions (remember_revoked_cert_extension L) c (e # es) = Ok c' \<longleftrightarrow> arc e \<noteq> Some 29 \<and> \<not> critical e \<and>
        fold_extensions (remember_revoked_cert_extension L) c es = Ok c'"
      unfolding step remember_entry_Ok by auto
    with 3 show ?thesis by (simp only: Cons.IH allowed) auto
  qed
qed

text \<open>The extensions of an entry may be left out or be an empty sequence.\<close>

definition entry_extensions :: "Extension list \<Rightarrow> bytes set" where
  "entry_extensions es =
    (if es = [] then {[], der_encode 0x30 []}
     else {der_encode 0x30 (items_octets Tag_Sequence vs) |vs. list_all2 (\<lambda>v e. v \<in> extension_octets e) vs es})"

definition entry_taken :: "Extension list \<Rightarrow> BorrowedRevokedCert \<Rightarrow> bool" where
  "entry_taken es c \<longleftrightarrow> entry_allowed es \<and> given_by reason_encodes (with_arc 21 es) (reason_code c) \<and>
    given_by encodes_time (with_arc 24 es) (invalidity_date c)"

definition entry_encodes :: "bytes \<Rightarrow> BorrowedRevokedCert \<Rightarrow> bool" where
  "entry_encodes v c \<longleftrightarrow> length v < 65535 \<and>
    (\<exists>b es. \<exists>x \<in> entry_extensions es. encodes_time b (revocation_date c) \<and> entry_taken es c \<and>
      v = der_encode 2 (serial_number c) @ b @ x)"

lemma and_then_step: "p r = (Ok x, r') \<Longrightarrow> and_then p f r = f x r'"
  by (simp add: and_then_run)

lemma fst_Ok: "fst p = Ok y \<longleftrightarrow> (\<exists>r. p = (Ok y, r))"
  by (cases p) auto

lemma extension_items_iff:
  assumes "length (items_octets t vs) < 65535"
  shows "(\<forall>v \<in> set vs. length v < 65535) \<and>
      decode_items (\<lambda>c. and_then (extension_from_der L) (\<lambda>e. of_result (f c e))) c vs = Some y \<longleftrightarrow>
    (\<exists>es. list_all2 (\<lambda>v e. v \<in> extension_octets e) vs es \<and> fold_extensions f c es = Ok y)"
proof -
  have "\<forall>v \<in> set vs. length v < 65535" using assms items_octets_longer [of _ vs t] by force
  with decode_extensions [OF this, of f c y] show ?thesis by blast
qed

lemma entry_loop_iff:
  assumes "length s < 65535"
  shows "fst (revoked_cert_extensions L c s) = Ok c' \<longleftrightarrow>
    (\<exists>vs. vs \<noteq> [] \<and> s = items_octets Tag_Sequence vs \<and> (\<exists>es. list_all2 (\<lambda>v e. v \<in> extension_octets e) vs es \<and>
      fold_extensions (remember_revoked_cert_extension L) c es = Ok c'))"
proof -
  have "fst (revoked_cert_extensions L c s) = Ok c' \<longleftrightarrow>
      (\<exists>vs. vs \<noteq> [] \<and> s = items_octets Tag_Sequence vs \<and> (\<forall>v \<in> set vs. length v < 65535) \<and>
        decode_items (\<lambda>c. and_then (extension_from_der L) (\<lambda>e. of_result (remember_revoked_cert_extension L c e))) c vs = Some c')"
    unfolding fst_Ok revoked_cert_extensions_def items_loop_iff by blast
  also have "\<dots> \<longleftrightarrow> (\<exists>vs. vs \<noteq> [] \<and> s = items_octets Tag_Sequence vs \<and> (\<exists>es. list_all2 (\<lambda>v e. v \<in> extension_octets e) vs es \<and>
      fold_extensions (remember_revoked_cert_extension L) c es = Ok c'))"
    using assms by (intro ex_cong1 conj_cong refl extension_items_iff) simp
  finally show ?thesis .
qed

lemma items_octets_Nil: "items_octets t vs = [] \<longleftrightarrow> vs = []"
  by (cases vs) (auto simp: items_octets_def der_encode_def)

lemma ex_nonempty: "(\<exists>es. P es) \<longleftrightarrow> P [] \<or> (\<exists>es. es \<noteq> [] \<and> P es)"
  by (metis)

lemma entry_extensions_iff:
  assumes "length x < 65535"
  shows "and_then (at_end L) (\<lambda>e. if e then ok c else and_then (expect_tag L Tag_Sequence) (\<lambda>s.
      if s = [] then ok c else of_result (fst (revoked_cert_extensions L c (u_new L s))))) x = (Ok c', []) \<longleftrightarrow>
    (\<exists>es. x \<in> entry_extensions es \<and> fold_extensions (remember_revoked_cert_extension L) c es = Ok c')" (is "?l \<longleftrightarrow> ?r")
proof -
  have seq: "tag_u8 Tag_Sequence = 0x30" by (simp add: CONSTRUCTED_def)
  have "?l \<longleftrightarrow> (if x = [] then c' = c else \<exists>s. x = der_encode 0x30 s \<and> (if s = [] then c' = c else fst (revoked_cert_extensions L c s) = Ok c'))"
  proof (cases "x = []")
    case False
    have "?l \<longleftrightarrow> (\<exists>s. length s < 65535 \<and> x = der_encode 0x30 s \<and> (if s = [] then c' = c else fst (revoked_cert_extensions L c s) = Ok c'))"
      using False by (auto simp: and_then_eq_Ok [of "at_end L"] at_end_run and_then_eq_Ok [of "expect_tag L Tag_Sequence"]
        expect_tag_iff seq ok_eq_Ok of_result_eq_Ok list_ops split: if_splits)
    moreover have "length s < 65535" if "x = der_encode 0x30 s" for s using that assms length_der_encode [of s "0x30"] by simp
    ultimately show ?thesis using False by auto
  qed (auto simp: and_then_run at_end_run ok_run)
  also have "\<dots> \<longleftrightarrow> ?r"
  proof -
    have ex_items: "es \<noteq> [] \<and> x \<in> entry_extensions es \<and> F es \<longleftrightarrow>
        (\<exists>vs. vs \<noteq> [] \<and> x = der_encode 0x30 (items_octets Tag_Sequence vs) \<and> list_all2 (\<lambda>v e. v \<in> extension_octets e) vs es \<and> F es)" for es F
      by (cases "es = []") (simp_all add: entry_extensions_def, metis list_all2_Nil)
    have small: "length s < 65535" if "x = der_encode 0x30 s" for s using that assms length_der_encode [of s "0x30"] by simp
    have "(\<exists>s. x = der_encode 0x30 s \<and> s \<noteq> [] \<and> fst (revoked_cert_extensions L c s) = Ok c') \<longleftrightarrow>
        (\<exists>s. x = der_encode 0x30 s \<and> s \<noteq> [] \<and> (\<exists>vs. vs \<noteq> [] \<and> s = items_octets Tag_Sequence vs \<and>
          (\<exists>es. list_all2 (\<lambda>v e. v \<in> extension_octets e) vs es \<and> fold_extensions (remember_revoked_cert_extension L) c es = Ok c')))"
      by (intro ex_cong1 conj_cong refl entry_loop_iff small)
    also have "\<dots> \<longleftrightarrow> (\<exists>es. es \<noteq> [] \<and> x \<in> entry_extensions es \<and> fold_extensions (remember_revoked_cert_extension L) c es = Ok c')"
      unfolding ex_items [where F = "\<lambda>es. fold_extensions (remember_revoked_cert_extension L) c es = Ok c'"]
      using items_octets_Nil [of Tag_Sequence] by blast
    finally have "(if x = [] then c' = c else \<exists>s. x = der_encode 0x30 s \<and> (if s = [] then c' = c else fst (revoked_cert_extensions L c s) = Ok c')) \<longleftrightarrow>
        (x = [] \<or> x = der_encode 0x30 []) \<and> c' = c \<or>
        (\<exists>es. es \<noteq> [] \<and> x \<in> entry_extensions es \<and> fold_extensions (remember_revoked_cert_extension L) c es = Ok c')"
      by (auto simp: der_encode_def [of _ "[]"]) (auto simp: entry_extensions_def der_encode_def)
    also have "\<dots> \<longleftrightarrow> ?r"
      by (subst (2) ex_nonempty) (auto simp: entry_extensions_def)
    finally show ?thesis .
  qed
  finally show ?thesis .
qed

lemma revoked_cert_from_der_iff:
  "revoked_cert_from_der L r = (Ok c, r') \<longleftrightarrow> (\<exists>v. entry_encodes v c \<and> r = der_encode 0x30 v @ r')"
proof -
  define tail where "tail c = and_then (at_end L) (\<lambda>e. if e then ok c else and_then (expect_tag L Tag_Sequence) (\<lambda>s.
      if s = [] then ok c else of_result (fst (revoked_cert_extensions L c (u_new L s)))))" for c
  have seq: "tag_u8 Tag_Sequence = 0x30" by (simp add: CONSTRUCTED_def)
  define start where "start sn t = \<lparr>serial_number = sn, revocation_date = t, reason_code = None, invalidity_date = None\<rparr>" for sn t
  have taken: "fold_extensions (remember_revoked_cert_extension L) (start sn t) es = Ok c \<longleftrightarrow>
      entry_taken es c \<and> serial_number c = sn \<and> revocation_date c = t" for sn t es
    unfolding fold_entry by (auto simp: start_def fills_given entry_taken_def)
  have "revoked_cert_from_der L r = (Ok c, r') \<longleftrightarrow>
      (\<exists>v. r = der_encode 0x30 v @ r' \<and> length v < 65535 \<and> (\<exists>sn t b x. length sn < 65535 \<and> v = der_encode 2 sn @ b @ x \<and> encodes_time b t \<and>
        tail (start sn t) x = (Ok c, [])))"
    unfolding revoked_cert_from_der_def nested_iff seq Let_def start_def [symmetric] tail_def [symmetric]
      lenient_certificate_serial_number_def and_then_eq_Ok [of "map_err _ _"] map_err_eq_Ok expect_tag_iff
      and_then_eq_Ok [of "time_from_der L"] time_from_der_encodes tag_u8.simps
    by (rule ex_cong1) blast
  also have "\<dots> \<longleftrightarrow> (\<exists>v. r = der_encode 0x30 v @ r' \<and> length v < 65535 \<and> (\<exists>sn t b x. v = der_encode 2 sn @ b @ x \<and> encodes_time b t \<and>
      (\<exists>es. x \<in> entry_extensions es \<and> entry_taken es c \<and> serial_number c = sn \<and> revocation_date c = t)))"
  proof (rule ex_cong1, rule conj_cong [OF refl], rule conj_cong [OF refl], rule ex_cong1, rule ex_cong1, rule ex_cong1, rule ex_cong1)
    fix v sn b x :: bytes and t
    assume v: "length v < 65535"
    show "(length sn < 65535 \<and> v = der_encode 2 sn @ b @ x \<and> encodes_time b t \<and> tail (start sn t) x = (Ok c, [])) \<longleftrightarrow>
      (v = der_encode 2 sn @ b @ x \<and> encodes_time b t \<and>
      (\<exists>es. x \<in> entry_extensions es \<and> entry_taken es c \<and> serial_number c = sn \<and> revocation_date c = t))"
      using v length_der_encode [of sn 2] unfolding tail_def
      by (intro iffI conjI; elim conjE; simp add: entry_extensions_iff taken)
  qed
  also have "\<dots> \<longleftrightarrow> (\<exists>v. entry_encodes v c \<and> r = der_encode 0x30 v @ r')"
    unfolding entry_encodes_def by blast
  finally show ?thesis .
qed

section \<open>Lists\<close>

definition crl_number_ok :: "bytes \<Rightarrow> bool" where
  "crl_number_ok v \<longleftrightarrow> (\<exists>n. minimal_unsigned n \<and> length n \<le> 20 \<and> v = der_encode 2 (integer_octets n))"

lemma crl_number_iff:
  "(\<exists>x. read_all L e (and_then (map_err f (nonnegative_integer L)) (\<lambda>n. if length n \<le> 20 then ok n else of_result (Err e'))) v = Ok x) \<longleftrightarrow>
    crl_number_ok v"
proof -
  have "length (integer_octets n) < 65535" if "length n \<le> 20" for n
    using that by (simp add: integer_octets_def split: if_splits)
  then show ?thesis
    unfolding read_all_eq_Ok and_then_eq_Ok map_err_eq_Ok nonnegative_integer_iff crl_number_ok_def
    by (auto simp: ok_eq_Ok of_result_eq_Ok split: if_splits)
qed

lemma remember_crl_Ok:
  "remember_crl_extension L c e = Ok c' \<longleftrightarrow>
    (if arc e = Some 20 then crl_number_ok (ext_value e) \<and> c' = c
     else if arc e = Some 28 then bcrl_issuing_distribution_point c = None \<and>
       c' = c\<lparr>bcrl_issuing_distribution_point := Some (ext_value e)\<rparr>
     else if arc e = Some 35 then c' = c
     else arc e \<noteq> Some 27 \<and> \<not> critical e \<and> c' = c)"
proof (cases "arc e = Some 20")
  case True
  then show ?thesis
    unfolding remember_crl_extension_def remember_extension_eq
    by (simp flip: crl_number_iff [where e = InvalidCrlNumber and f = "\<lambda>_. InvalidCrlNumber" and e' = InvalidCrlNumber]) auto
next
  case False
  then show ?thesis
    unfolding remember_crl_extension_def remember_extension_eq
    by (auto simp: set_extension_once_Ok unsupported_def split: option.split if_splits)
qed

definition crl_allowed :: "Extension \<Rightarrow> bool" where
  "crl_allowed e \<longleftrightarrow>
    (if arc e = Some 20 then crl_number_ok (ext_value e)
     else arc e = Some 28 \<or> arc e = Some 35 \<or> arc e \<noteq> Some 27 \<and> \<not> critical e)"

definition crl_taken :: "Extension list \<Rightarrow> BorrowedCertRevocationList \<Rightarrow> bool" where
  "crl_taken es c \<longleftrightarrow> list_all crl_allowed es \<and> given_by (=) (with_arc 28 es) (bcrl_issuing_distribution_point c)"

lemma fold_crl:
  "fold_extensions (remember_crl_extension L) c es = Ok c' \<longleftrightarrow>
    list_all crl_allowed es \<and>
    fills (=) (bcrl_issuing_distribution_point c) (with_arc 28 es) (bcrl_issuing_distribution_point c') \<and>
    c' = c\<lparr>bcrl_issuing_distribution_point := bcrl_issuing_distribution_point c'\<rparr>"
proof (induction es arbitrary: c)
  case Nil
  show ?case by (cases c; cases c') auto
next
  case (Cons e es)
  have step: "fold_extensions (remember_crl_extension L) c (e # es) = Ok c' \<longleftrightarrow>
      (\<exists>d. remember_crl_extension L c e = Ok d \<and> fold_extensions (remember_crl_extension L) d es = Ok c')"
    by simp
  show ?case
  proof (cases "arc e = Some 28")
    case True
    then have "fold_extensions (remember_crl_extension L) c (e # es) = Ok c' \<longleftrightarrow> bcrl_issuing_distribution_point c = None \<and>
        fold_extensions (remember_crl_extension L) (c\<lparr>bcrl_issuing_distribution_point := Some (ext_value e)\<rparr>) es = Ok c'"
      unfolding step remember_crl_Ok by auto
    with True show ?thesis by (simp only: Cons.IH) (auto simp: crl_allowed_def)
  next
    case False
    then have "fold_extensions (remember_crl_extension L) c (e # es) = Ok c' \<longleftrightarrow> crl_allowed e \<and>
        fold_extensions (remember_crl_extension L) c es = Ok c'"
      unfolding step remember_crl_Ok crl_allowed_def by auto
    with False show ?thesis by (simp only: Cons.IH) auto
  qed
qed

text \<open>No entries: the sequence of entries may be left out.\<close>

definition entries_octets :: "bytes \<Rightarrow> bytes set" where
  "entries_octets v = (if v = [] then {[], der_encode 0x30 []} else {der_encode 0x30 v})"

definition crl_extensions_octets :: "Extension list \<Rightarrow> bytes set" where
  "crl_extensions_octets es = {der_encode 0xA0 (der_encode 0x30 (items_octets Tag_Sequence vs)) |vs.
     vs \<noteq> [] \<and> list_all2 (\<lambda>v e. v \<in> extension_octets e) vs es \<and> length (der_encode 0x30 (items_octets Tag_Sequence vs)) < 65535}"

definition crl_tbs_octets :: "BorrowedCertRevocationList \<Rightarrow> Extension list \<Rightarrow> bytes set" where
  "crl_tbs_octets c es =
    {der_encode 2 [1] @ der_encode 0x30 (algorithm (bcrl_signed_data c)) @ der_encode 0x30 (bcrl_issuer c) @
       this_update @ next_update @ entries @ extensions |this_update next_update entries extensions.
     (\<exists>t. encodes_time this_update t) \<and> (\<exists>t. encodes_time next_update t) \<and>
     entries \<in> entries_octets (bcrl_revoked_certs c) \<and> extensions \<in> crl_extensions_octets es}"

definition crl_encodes :: "bytes \<Rightarrow> BorrowedCertRevocationList \<Rightarrow> Extension list \<Rightarrow> bool" where
  "crl_encodes der c es \<longleftrightarrow>
    (\<exists>tbs \<in> crl_tbs_octets c es. data (bcrl_signed_data c) = der_encode 0x30 tbs) \<and>
    length (bcrl_issuer c) < 65535 \<and> length (algorithm (bcrl_signed_data c)) < 65535 \<and>
    length (signature (bcrl_signed_data c)) < 65534 \<and>
    length (signed_octets (bcrl_signed_data c)) < 0xFFFFFFFF \<and>
    der = der_encode 0x30 (signed_octets (bcrl_signed_data c))"

lemma crl_extensions_iff:
  "nested L Tag_ContextSpecificConstructed0 e
      (nested_of_mut L Tag_Sequence Tag_Sequence e' (\<lambda>c. and_then (extension_from_der L) (\<lambda>e. of_result (remember_crl_extension L c e))) c) r
      = (Ok c', []) \<longleftrightarrow>
    (\<exists>es. r \<in> crl_extensions_octets es \<and> fold_extensions (remember_crl_extension L) c es = Ok c')"
proof -
  have tags: "tag_u8 Tag_ContextSpecificConstructed0 = 0xA0" "tag_u8 Tag_Sequence = 0x30"
    by (simp_all add: CONSTRUCTED_def CONTEXT_SPECIFIC_def)
  have small: "length (items_octets Tag_Sequence vs) < 65535" if "length (der_encode 0x30 (items_octets Tag_Sequence vs)) < 65535" for vs
    using that length_der_encode [of "items_octets Tag_Sequence vs" "0x30"] by simp
  have "(\<exists>v. length v < 65535 \<and> r = der_encode 0xA0 v @ [] \<and>
        (\<exists>vs. vs \<noteq> [] \<and> (\<forall>v \<in> set vs. length v < 65535) \<and> length (items_octets Tag_Sequence vs) < 65535 \<and>
          v = der_encode 0x30 (items_octets Tag_Sequence vs) @ [] \<and>
          decode_items (\<lambda>c. and_then (extension_from_der L) (\<lambda>e. of_result (remember_crl_extension L c e))) c vs = Some c')) \<longleftrightarrow>
      (\<exists>vs. vs \<noteq> [] \<and> length (der_encode 0x30 (items_octets Tag_Sequence vs)) < 65535 \<and>
        r = der_encode 0xA0 (der_encode 0x30 (items_octets Tag_Sequence vs)) \<and>
        (\<forall>v \<in> set vs. length v < 65535) \<and>
        decode_items (\<lambda>c. and_then (extension_from_der L) (\<lambda>e. of_result (remember_crl_extension L c e))) c vs = Some c')"
    using small by auto
  also have "\<dots> \<longleftrightarrow> (\<exists>vs. vs \<noteq> [] \<and> length (der_encode 0x30 (items_octets Tag_Sequence vs)) < 65535 \<and>
        r = der_encode 0xA0 (der_encode 0x30 (items_octets Tag_Sequence vs)) \<and>
        (\<exists>es. list_all2 (\<lambda>v e. v \<in> extension_octets e) vs es \<and> fold_extensions (remember_crl_extension L) c es = Ok c'))"
    by (intro ex_cong1 conj_cong refl extension_items_iff [of Tag_Sequence] small)
  finally show ?thesis
    unfolding nested_iff nested_of_mut_iff tags crl_extensions_octets_def by blast
qed

lemma entries_octets_iff: "x \<in> entries_octets v \<longleftrightarrow> x = der_encode 0x30 v \<or> x = [] \<and> v = []"
  by (auto simp: entries_octets_def)

lemma entries_iff:
  assumes "length r < 0xFFFFFFFF" and A0: "\<And>v y. f v y = (Ok c, []) \<Longrightarrow> \<exists>w. y = 0xA0 # w"
  shows "and_then (peek L (tag_u8 Tag_Sequence)) (\<lambda>present.
      and_then (if present then expect_tag_and_get_value_limited L Tag_Sequence MAX_DER_SIZE else ok []) f) r = (Ok c, []) \<longleftrightarrow>
    (\<exists>v. \<exists>x \<in> entries_octets v. \<exists>y. r = x @ y \<and> f v y = (Ok c, []))" (is "?l \<longleftrightarrow> ?r")
proof -
  have seq: "tag_u8 Tag_Sequence = 0x30" by (simp add: CONSTRUCTED_def)
  define present where "present \<longleftrightarrow> (\<exists>w. r = 0x30 # w)"
  have p: "peek L (tag_u8 Tag_Sequence) r = (Ok present, r)" by (cases r) (auto simp: present_def peek_run seq)
  have small: "length v < 0xFFFFFFFF" if "r = der_encode 0x30 v @ y" for v y
    using that assms(1) length_der_encode [of v "0x30"] by simp
  have limit: "MAX_DER_SIZE = 0xFFFFFFFF" by (simp add: der_limits)
  have "?l \<longleftrightarrow> (if present then \<exists>v y. length v < 0xFFFFFFFF \<and> r = der_encode 0x30 v @ y \<and> f v y = (Ok c, []) else f [] r = (Ok c, []))"
  proof (cases present)
    case True
    have "?l \<longleftrightarrow> and_then (expect_tag_and_get_value_limited L Tag_Sequence MAX_DER_SIZE) f r = (Ok c, [])"
      using True by (subst and_then_step [where p = "peek L (tag_u8 Tag_Sequence)", OF p]) simp
    then show ?thesis using True unfolding and_then_eq_Ok expect_tag_limited_iff seq limit by auto
  next
    case False
    have "?l \<longleftrightarrow> and_then (ok []) f r = (Ok c, [])"
      using False by (subst and_then_step [where p = "peek L (tag_u8 Tag_Sequence)", OF p]) simp
    then show ?thesis using False unfolding and_then_eq_Ok ok_eq_Ok by simp
  qed
  also have "\<dots> \<longleftrightarrow> (\<exists>v y. r = der_encode 0x30 v @ y \<and> f v y = (Ok c, [])) \<or> f [] r = (Ok c, [])"
  proof (cases present)
    case True
    then have "f [] r \<noteq> (Ok c, [])" using A0 [of "[]" r] by (auto simp: present_def)
    moreover from small have "(\<exists>v y. length v < 0xFFFFFFFF \<and> r = der_encode 0x30 v @ y \<and> f v y = (Ok c, [])) \<longleftrightarrow>
        (\<exists>v y. r = der_encode 0x30 v @ y \<and> f v y = (Ok c, []))" by blast
    ultimately show ?thesis using True by (simp only: if_True simp_thms)
  next
    case False
    then have "r \<noteq> der_encode 0x30 v @ y" for v y by (auto simp: present_def der_encode_def)
    with False show ?thesis by simp
  qed
  also have "\<dots> \<longleftrightarrow> ?r"
    unfolding Bex_def entries_octets_iff by (simp add: ex_disj_distrib conj_disj_distribR conj_disj_distribL)
  finally show ?thesis .
qed

lemma crl_extensions_start: "x \<in> crl_extensions_octets es \<Longrightarrow> \<exists>w. x = 0xA0 # w"
  by (auto simp: crl_extensions_octets_def der_encode_def)

lemma crl_tbs_iff:
  assumes "length r < 0xFFFFFFFF"
  shows "crl_tbs L d r = (Ok c, []) \<longleftrightarrow>
    bcrl_signed_data c = d \<and> length (algorithm d) < 65535 \<and> length (bcrl_issuer c) < 65535 \<and>
    (\<exists>es. r \<in> crl_tbs_octets c es \<and> crl_taken es c)" (is "?l \<longleftrightarrow> ?r")
proof -
  have tags: "tag_u8 Tag_Sequence = 0x30" by (simp add: CONSTRUCTED_def)
  have version: "(\<exists>v r1. u8_from_der L r = (Ok v, r1) \<and> \<not> v \<noteq> 1 \<and> P r1) \<longleftrightarrow> (\<exists>r1. r = der_encode 2 [1] @ r1 \<and> P r1)" for r P
    unfolding u8_from_der_iff by (auto simp: der_encode_short)
  define base where "base i v = \<lparr>bcrl_signed_data = d, bcrl_issuer = i, bcrl_issuing_distribution_point = None, bcrl_revoked_certs = v\<rparr>" for i v
  define exts where "exts b = nested L Tag_ContextSpecificConstructed0 MalformedExtensions
      (nested_of_mut L Tag_Sequence Tag_Sequence (TrailingData TypeId_CertRevocationListExtension)
        (\<lambda>c. and_then (extension_from_der L) (\<lambda>e. of_result (remember_crl_extension L c e))) b)" for b
  define tail where "tail i = and_then (peek L 0x30) (\<lambda>present.
      and_then (if present then expect_tag_and_get_value_limited L Tag_Sequence MAX_DER_SIZE else ok []) (\<lambda>v. exts (base i v)))" for i
  have taken: "exts (base i v) y = (Ok c, []) \<longleftrightarrow>
      (\<exists>es. y \<in> crl_extensions_octets es \<and> crl_taken es c \<and> bcrl_signed_data c = d \<and> bcrl_issuer c = i \<and> bcrl_revoked_certs c = v)" for i v y
    unfolding exts_def crl_extensions_iff fold_crl by (cases c) (auto simp: base_def fills_given crl_taken_def)
  have tail: "tail i x = (Ok c, []) \<longleftrightarrow>
      (\<exists>v. \<exists>en \<in> entries_octets v. \<exists>y. x = en @ y \<and> exts (base i v) y = (Ok c, []))" if "length x < 0xFFFFFFFF" for i x
    unfolding tail_def tags [symmetric] by (intro entries_iff that) (use crl_extensions_start taken in blast)
  have "?l \<longleftrightarrow> (\<exists>i b1 b2 x. r = der_encode 2 [1] @ der_encode 0x30 (algorithm d) @ der_encode 0x30 i @ b1 @ b2 @ x \<and>
      length (algorithm d) < 65535 \<and> length i < 65535 \<and> (\<exists>t. encodes_time b1 t) \<and> (\<exists>t. encodes_time b2 t) \<and> tail i x = (Ok c, []))"
    unfolding crl_tbs_def Let_def base_def [symmetric] exts_def [symmetric] tail_def [symmetric] and_then_eq_Ok [of "u8_from_der L"]
      and_then_eq_Ok [of "expect_tag L _"] and_then_eq_Ok [of "time_from_der L"] guard_eq_Ok version expect_tag_iff tags time_from_der_encodes
  proof (rule iffI, goal_cases)
    case 1
    then show ?case
      by (elim exE conjE, unfold not_not, hypsubst)
        (rule exI, rule exI, rule exI, rule exI, intro conjI, rule refl, assumption, assumption, rule exI, assumption, rule exI, assumption, assumption)
  next
    case 2
    then show ?case
      by (elim exE conjE)
        (rule exI, rule conjI, assumption, rule exI, rule exI, rule conjI, rule conjI, assumption, rule refl, rule conjI, simp,
          rule exI, rule exI, rule conjI, rule conjI, assumption, rule refl, rule exI, rule exI, rule conjI, rule exI, rule conjI, assumption,
          rule refl, rule exI, rule exI, rule conjI, rule exI, rule conjI, assumption, rule refl, assumption)
  qed
  also have "\<dots> \<longleftrightarrow> (\<exists>i b1 b2 x. r = der_encode 2 [1] @ der_encode 0x30 (algorithm d) @ der_encode 0x30 i @ b1 @ b2 @ x \<and>
      length (algorithm d) < 65535 \<and> length i < 65535 \<and> (\<exists>t. encodes_time b1 t) \<and> (\<exists>t. encodes_time b2 t) \<and>
      (\<exists>v. \<exists>en \<in> entries_octets v. \<exists>y. x = en @ y \<and> exts (base i v) y = (Ok c, [])))"
    using assms by (intro ex_cong1 conj_cong refl tail) simp
  also have "\<dots> \<longleftrightarrow> ?r"
    unfolding taken crl_tbs_octets_def by blast
  finally show ?thesis .
qed

lemma crl_from_der_iff:
  "crl_from_der L der = Ok c \<longleftrightarrow>
    (\<exists>es. crl_encodes der c es \<and> crl_taken es c) \<and>
    (\<forall>idp. bcrl_issuing_distribution_point c = Some idp \<longrightarrow> (\<exists>i. idp_from_der L idp = Ok i))"
proof -
  have seq: "tag_u8 Tag_Sequence = 0x30" by (simp add: CONSTRUCTED_def)
  have limit: "MAX_DER_SIZE = 0xFFFFFFFF" by (simp add: der_limits)
  have signed: "nested_limited L Tag_Sequence e (signed_data_from_der L MAX_DER_SIZE) MAX_DER_SIZE der = (Ok (tbs, d), []) \<longleftrightarrow>
      der = der_encode 0x30 (signed_octets d) \<and> length (signed_octets d) < 0xFFFFFFFF \<and> data d = der_encode 0x30 tbs \<and>
      length (algorithm d) < 65535 \<and> length (signature d) < 65534" for e tbs d
    unfolding nested_limited_iff signed_data_from_der_iff seq limit
    using length_der_encode [of tbs "0x30"] by (auto simp: signed_octets_def)
  have "crl_from_der L der = Ok c \<longleftrightarrow>
      (\<exists>tbs d. nested_limited L Tag_Sequence (TrailingData TypeId_CertRevocationList) (signed_data_from_der L MAX_DER_SIZE) MAX_DER_SIZE der
          = (Ok (tbs, d), []) \<and> crl_tbs L d tbs = (Ok c, [])) \<and>
      (\<forall>idp. bcrl_issuing_distribution_point c = Some idp \<longrightarrow> (\<exists>i. idp_from_der L idp = Ok i))"
    unfolding crl_from_der_def der_read_all_def read_all_eq_Ok crl_from_reader_def and_then_eq_Ok [of "nested_limited L _ _ _ _"]
      and_then_eq_Ok [of "of_result _"] of_result_eq_Ok
    by (auto simp: and_then_eq_Ok of_result_eq_Ok read_all_eq_Ok ok_eq_Ok split: option.splits) (rule exI [of _ c], auto)
  also have "(\<exists>tbs d. nested_limited L Tag_Sequence (TrailingData TypeId_CertRevocationList) (signed_data_from_der L MAX_DER_SIZE) MAX_DER_SIZE der
          = (Ok (tbs, d), []) \<and> crl_tbs L d tbs = (Ok c, [])) \<longleftrightarrow> (\<exists>es. crl_encodes der c es \<and> crl_taken es c)"
  proof -
    have "crl_tbs L d tbs = (Ok c, []) \<longleftrightarrow> bcrl_signed_data c = d \<and> length (algorithm d) < 65535 \<and> length (bcrl_issuer c) < 65535 \<and>
        (\<exists>es. tbs \<in> crl_tbs_octets c es \<and> crl_taken es c)" if "length (signed_octets d) < 0xFFFFFFFF" "data d = der_encode 0x30 tbs" for d tbs
      using that length_der_encode [of tbs "0x30"] by (intro crl_tbs_iff) (simp add: signed_octets_def)
    then show ?thesis unfolding signed crl_encodes_def by blast
  qed
  finally show ?thesis .
qed

section \<open>A small list\<close>

text \<open>Two entries, the second with a reason; the list has a number.\<close>

definition small_entry :: BorrowedRevokedCert where
  "small_entry = \<lparr>serial_number = [5], revocation_date = 0, reason_code = None, invalidity_date = None\<rparr>"

definition reason_entry :: BorrowedRevokedCert where
  "reason_entry = \<lparr>serial_number = [6], revocation_date = 0, reason_code = Some KeyCompromise, invalidity_date = None\<rparr>"

definition small_entry_octets :: bytes where
  "small_entry_octets = [2, 1, 5] @ epoch_octets"

definition reason_entry_octets :: bytes where
  "reason_entry_octets = [2, 1, 6] @ epoch_octets @ [0x30, 12, 0x30, 10, 6, 3, 0x55, 0x1d, 21, 4, 3, 10, 1, 1]"

definition small_list_tbs :: bytes where
  "small_list_tbs = [2, 1, 1, 0x30, 1, 9, 0x30, 0] @ epoch_octets @ epoch_octets @
     [0x30, 54, 0x30, 18] @ small_entry_octets @ [0x30, 32] @ reason_entry_octets @
     [0xA0, 14, 0x30, 12, 0x30, 10, 6, 3, 0x55, 0x1d, 20, 4, 3, 2, 1, 1]"

definition small_list :: BorrowedCertRevocationList where
  "small_list = \<lparr>bcrl_signed_data = \<lparr>data = 0x30 # 110 # small_list_tbs, algorithm = [9], signature = [8]\<rparr>, bcrl_issuer = [],
     bcrl_issuing_distribution_point = None,
     bcrl_revoked_certs = [0x30, 18] @ small_entry_octets @ [0x30, 32] @ reason_entry_octets\<rparr>"

definition small_list_der :: bytes where
  "small_list_der = 0x30 # 119 # 0x30 # 110 # small_list_tbs @ [0x30, 1, 9, 3, 2, 0, 8]"

lemma length_epoch_octets [simp]: "length epoch_octets = 15"
  by (simp add: epoch_octets_def)

lemma small_entry_encodes: "entry_encodes small_entry_octets small_entry"
  unfolding entry_encodes_def
proof (intro conjI exI bexI)
  show "entry_taken [] small_entry" by (simp add: entry_taken_def entry_allowed_def given_by_def small_entry_def)
  show "[] \<in> entry_extensions []" by (simp add: entry_extensions_def)
  show "encodes_time epoch_octets (revocation_date small_entry)" using epoch_encodes by (simp add: small_entry_def)
qed (simp_all add: small_entry_octets_def small_entry_def der_encode_short)

definition reason_extension :: Extension where
  "reason_extension = \<lparr>critical = False, ext_id = [0x55, 0x1d, 21], ext_value = [10, 1, 1]\<rparr>"

lemma reason_entry_encodes: "entry_encodes reason_entry_octets reason_entry"
  unfolding entry_encodes_def
proof (intro conjI exI bexI)
  have arcs: "arc reason_extension = Some 21" by (simp add: arc_def reason_extension_def)
  then show "entry_taken [reason_extension] reason_entry"
    by (simp add: entry_taken_def entry_allowed_def given_by_def reason_entry_def reason_encodes_def)
      (simp add: reason_extension_def)
  have "[6, 3, 0x55, 0x1d, 21, 4, 3, 10, 1, 1] \<in> extension_octets reason_extension"
    by (simp add: extension_octets_def reason_extension_def critical_octets_def der_encode_short)
  then show "[0x30, 12, 0x30, 10, 6, 3, 0x55, 0x1d, 21, 4, 3, 10, 1, 1] \<in> entry_extensions [reason_extension]"
    by (auto simp: entry_extensions_def items_octets_def der_encode_short CONSTRUCTED_def
      intro!: exI [of _ "[[6, 3, 0x55, 0x1d, 21, 4, 3, 10, 1, 1]]"])
  show "encodes_time epoch_octets (revocation_date reason_entry)" using epoch_encodes by (simp add: reason_entry_def)
qed (simp_all add: reason_entry_octets_def reason_entry_def der_encode_short)

definition number_extension :: Extension where
  "number_extension = \<lparr>critical = False, ext_id = [0x55, 0x1d, 20], ext_value = [2, 1, 1]\<rparr>"

lemma small_list_encodes: "crl_encodes small_list_der small_list [number_extension]" "crl_taken [number_extension] small_list"
proof -
  have len: "length small_list_tbs = 110"
    by (simp add: small_list_tbs_def small_entry_octets_def reason_entry_octets_def)
  have "[6, 3, 0x55, 0x1d, 20, 4, 3, 2, 1, 1] \<in> extension_octets number_extension"
    by (simp add: extension_octets_def number_extension_def critical_octets_def der_encode_short)
  then have ext: "[0xA0, 14, 0x30, 12, 0x30, 10, 6, 3, 0x55, 0x1d, 20, 4, 3, 2, 1, 1] \<in> crl_extensions_octets [number_extension]"
    by (auto simp: crl_extensions_octets_def items_octets_def der_encode_short CONSTRUCTED_def
      intro!: exI [of _ "[[6, 3, 0x55, 0x1d, 20, 4, 3, 2, 1, 1]]"])
  have entries: "[0x30, 54, 0x30, 18] @ small_entry_octets @ [0x30, 32] @ reason_entry_octets \<in> entries_octets (bcrl_revoked_certs small_list)"
    by (simp add: entries_octets_def small_list_def small_entry_octets_def reason_entry_octets_def der_encode_short)
  have "small_list_tbs \<in> crl_tbs_octets small_list [number_extension]"
    unfolding crl_tbs_octets_def mem_Collect_eq
  proof (intro exI conjI)
    show "encodes_time epoch_octets 0" "encodes_time epoch_octets 0" by (rule epoch_encodes)+
    show "[0x30, 54, 0x30, 18] @ small_entry_octets @ [0x30, 32] @ reason_entry_octets \<in> entries_octets (bcrl_revoked_certs small_list)"
      by (rule entries)
    show "[0xA0, 14, 0x30, 12, 0x30, 10, 6, 3, 0x55, 0x1d, 20, 4, 3, 2, 1, 1] \<in> crl_extensions_octets [number_extension]"
      by (rule ext)
  qed (simp add: small_list_tbs_def small_list_def der_encode_short)
  with len show "crl_encodes small_list_der small_list [number_extension]"
    unfolding crl_encodes_def
    by (auto simp: small_list_def signed_octets_def small_list_der_def der_encode_short intro!: bexI [of _ small_list_tbs])
  have "crl_number_ok [2, 1, 1]"
    unfolding crl_number_ok_def by (intro exI [of _ "[1]"]) (simp add: minimal_unsigned_def integer_octets_def der_encode_short word_le_nat_alt)
  then show "crl_taken [number_extension] small_list"
    by (simp add: crl_taken_def crl_allowed_def arc_def number_extension_def given_by_def small_list_def)
qed

section \<open>Properties\<close>

text \<open>C14: a revocation list is accepted exactly when the octets are those of the parsed fields: version 2, the algorithm of
  the signature twice, the issuer, the times of this and the next update, the entries, and at least one extension,
  none of them an unknown critical one, a delta list or a second issuing distribution point; an issuing distribution
  point has to be one that is supported. The signed octets kept for the signature check are exactly those of the fields.\<close>

theorem crl_from_der_exact:
  assumes "untrusted_reader U rest later"
  shows "crl_from_der U der = Ok c \<longleftrightarrow>
    (\<exists>es. crl_encodes der c es \<and> crl_taken es c) \<and>
    (\<forall>idp. bcrl_issuing_distribution_point c = Some idp \<longrightarrow> (\<exists>i. idp_from_der U idp = Ok i))"
  unfolding untrusted_reader.crl_from_der_indep [OF assms] untrusted_reader.idp_from_der_indep [OF assms]
  by (rule crl_from_der_iff)

theorem crl_from_der_exact_witness: "crl_from_der list_reader small_list_der = Ok small_list"
  using small_list_encodes crl_from_der_exact [OF lr.untrusted_reader_axioms, of small_list_der small_list]
  by (auto simp: small_list_def)

text \<open>C24: an entry of a revocation list is read exactly when its octets are those of a serial number, a revocation date and
  extensions of which at most one is a reason and at most one an invalidity date, the others being neither critical nor
  those of an indirect list. The reader is left right behind the entry.\<close>

theorem revoked_entry_exact:
  assumes "untrusted_reader U rest later"
  shows "(\<exists>r'. revoked_cert_from_der U r = (Ok c, r') \<and> rest r' = bs) \<longleftrightarrow>
    (\<exists>v. entry_encodes v c \<and> rest r = der_encode 0x30 v @ bs)"
  unfolding untrusted_reader.follows_iff [OF assms untrusted_reader.revoked_cert_from_der_sim [OF assms]]
  by (rule revoked_cert_from_der_iff)

theorem revoked_entry_exact_witness:
  "\<exists>r'. revoked_cert_from_der list_reader ([0x30, 32] @ reason_entry_octets @ [9]) = (Ok reason_entry, r') \<and> r' = [9]"
proof -
  have "[0x30, 32] @ reason_entry_octets @ [9] = der_encode 0x30 reason_entry_octets @ [9]"
    by (simp add: der_encode_short reason_entry_octets_def)
  with reason_entry_encodes show ?thesis
    using revoked_entry_exact [OF lr.untrusted_reader_axioms, of "[0x30, 32] @ reason_entry_octets @ [9]" reason_entry "[9]"] by blast
qed

text \<open>The ten revocation reasons and their codes correspond one to one, every other code is refused, and the iterator
  gives every reason once.\<close>

theorem revocation_reasons_exact:
  shows "(revocation_reason_try_from v = Ok r \<longleftrightarrow> v = reason_u8 r) \<and>
    ((\<forall>r. v \<noteq> reason_u8 r) \<longrightarrow> revocation_reason_try_from v = Err UnsupportedRevocationReason) \<and>
    set revocation_reason_iter = UNIV \<and> distinct revocation_reason_iter"
proof (intro conjI)
  show "revocation_reason_try_from v = Ok r \<longleftrightarrow> v = reason_u8 r" by (rule revocation_reason_try_from_iff)
  show "(\<forall>r. v \<noteq> reason_u8 r) \<longrightarrow> revocation_reason_try_from v = Err UnsupportedRevocationReason"
    unfolding revocation_reason_try_from_iff [symmetric] by (simp add: revocation_reason_try_from_def)
  have "r \<in> set revocation_reason_iter" for r by (cases r) (simp_all add: revocation_reason_iter_def)
  then show "set revocation_reason_iter = UNIV" by blast
qed (simp add: revocation_reason_iter_def)

theorem revocation_reasons_exact_witness:
  "revocation_reason_try_from 7 = Err UnsupportedRevocationReason \<and> revocation_reason_try_from 8 = Ok RemoveFromCrl"
proof -
  have "7 \<noteq> reason_u8 r" for r by (cases r) simp_all
  with revocation_reasons_exact [of 7] revocation_reasons_exact [of 8 RemoveFromCrl] show ?thesis by simp
qed

end
