(* ===== verification/End_Entity.thy ===== *)
theory End_Entity
  imports Verify_Cert
begin

text \<open>
  The public interface of an end-entity certificate (\<^verbatim>\<open>src/end_entity.rs\<close>), which puts the other components
  together.
\<close>

definition end_entity_try_from :: "'r untrusted \<Rightarrow> bytes \<Rightarrow> EndEntityCert result" where
  "end_entity_try_from U cert = res_bind (cert_from_der U cert EndEntity) (\<lambda>c. Ok \<lparr>inner = c\<rparr>)"

definition verify_for_usage ::
    "'r untrusted \<Rightarrow> EndEntityCert \<Rightarrow> SignatureVerificationAlgorithm list \<Rightarrow> TrustAnchor list \<Rightarrow> bytes list
     \<Rightarrow> Time \<Rightarrow> KeyUsage \<Rightarrow> RevocationOptions option \<Rightarrow> unit result" where
  "verify_for_usage U self algs anchors intermediates time usage revoc =
    build_chain U
      \<lparr>opt_eku = usage, supported_sig_algs = algs, trust_anchors = anchors,
       intermediate_certs = intermediates, revocation = revoc\<rparr> (inner self) time"

definition verify_is_valid_for_subject_name :: "'r untrusted \<Rightarrow> EndEntityCert \<Rightarrow> SubjectNameRef \<Rightarrow> unit result" where
  "verify_is_valid_for_subject_name U self subject_name = verify_cert_subject_name U self subject_name"

definition ee_verify_signature ::
    "'r untrusted \<Rightarrow> EndEntityCert \<Rightarrow> SignatureVerificationAlgorithm \<Rightarrow> bytes \<Rightarrow> bytes \<Rightarrow> unit result" where
  "ee_verify_signature U self signature_alg msg sig =
    verify_signature U signature_alg (cert_spki (cert_body (inner self))) msg sig"

definition dns_names :: "'r untrusted \<Rightarrow> EndEntityCert \<Rightarrow> GeneralDnsNameRef list result" where
  "dns_names U self = list_cert_dns_names U self"

section \<open>Independence of the reader\<close>

context untrusted_reader
begin

lemma verify_for_usage_indep: "verify_for_usage U = verify_for_usage L"
  unfolding verify_for_usage_def build_chain_indep ..

lemma end_entity_try_from_indep: "end_entity_try_from U = end_entity_try_from L"
  unfolding end_entity_try_from_def cert_from_der_indep ..

lemma verify_is_valid_for_subject_name_indep:
  "verify_is_valid_for_subject_name U = verify_is_valid_for_subject_name L"
  unfolding verify_is_valid_for_subject_name_def verify_cert_subject_name_indep ..

lemma ee_verify_signature_indep: "ee_verify_signature U = ee_verify_signature L"
  unfolding ee_verify_signature_def verify_signature_indep ..

lemma dns_names_indep: "dns_names U = dns_names L"
  unfolding dns_names_def list_cert_dns_names_indep ..

end

section \<open>Properties\<close>

text \<open>C34: a signature by the key of an end-entity certificate is accepted exactly when the public key of the certificate is well formed,
  its algorithm is the one of the given signature algorithm, and that algorithm accepts the signature for this key and
  message.\<close>

theorem end_entity_signature:
  assumes "untrusted_reader U rest later"
  shows "ee_verify_signature U ee alg msg sig = Ok () \<longleftrightarrow>
    (\<exists>k :: SubjectPublicKeyInfo. cert_spki (cert_body (inner ee)) = der_encode 0x30 (algorithm_id_value k) @ bit_string_octets (key_value k) \<and>
      length (algorithm_id_value k) < 65535 \<and> length (key_value k) < 65534 \<and>
      asn1_id_value (public_key_alg_id alg) = algorithm_id_value k \<and> verify_fn alg (key_value k) msg sig)"
proof -
  have "ee_verify_signature U ee alg msg sig = Ok () \<longleftrightarrow>
      (\<exists>k. spki_from_der L (cert_spki (cert_body (inner ee))) = (Ok k, []) \<and>
        asn1_id_value (public_key_alg_id alg) = algorithm_id_value k \<and> verify_fn alg (key_value k) msg sig)"
    unfolding untrusted_reader.ee_verify_signature_indep [OF assms] ee_verify_signature_def verify_signature_def der_read_all_def
    by (auto simp: read_all_eq_Ok matches_algorithm_id_value_def)
  then show ?thesis unfolding spki_from_der_iff append_Nil2 by blast
qed

theorem end_entity_signature_witness:
  "ee_verify_signature list_reader \<lparr>inner = Cert EndEntity \<lparr>cert_serial = [], cert_signed_data = \<lparr>data = [], algorithm = [], signature = []\<rparr>,
     cert_issuer = [], cert_validity = [], cert_subject = [], cert_spki = [0x30, 1, 9, 3, 2, 0, 4], cert_basic_constraints = None,
     cert_key_usage = None, cert_eku = None, cert_name_constraints = None, cert_subject_alt_name = None,
     cert_crl_distribution_points = None\<rparr>\<rparr>
   \<lparr>public_key_alg_id = AlgorithmIdentifier_new [9], signature_alg_id = AlgorithmIdentifier_new [8], verify_fn = \<lambda>k m s. k = [4] \<and> m = s\<rparr>
   [1] [1] = Ok ()"
  by (rule iffD2 [OF end_entity_signature [OF lr.untrusted_reader_axioms]])
    (intro exI [of _ "\<lparr>algorithm_id_value = [9], key_value = [4]\<rparr>"], simp add: der_encode_short AlgorithmIdentifier_new_def)

end
