(* ===== verification/Crl_Lookup.thy ===== *)
theory Crl_Lookup
  imports Path_Search Crl_Format End_Entity
begin

text \<open>
  Looking up a serial number in a revocation list. The entries of a list are a sequence of items; the borrowed
  list reads them again for every lookup and stops at the first entry with the serial number, the owned list
  keeps them in a map, where a later entry replaces an earlier one. Both agree on which serial numbers are
  listed, and so does the revocation check that is built on them.
\<close>

lemma and_then_Ok: "and_then (of_result (Ok x)) f = f x"
  by (rule ext) (simp add: and_then_run of_result_run)

section \<open>The entries\<close>

definition crl_entries :: "BorrowedCertRevocationList \<Rightarrow> BorrowedRevokedCert result list" where
  "crl_entries self = parse_items (revoked_cert_from_der L) (bcrl_revoked_certs self)"

lemma borrowed_find_serial_run:
  "borrowed_find_serial L self sn = find_item (\<lambda>c. serial_number c = sn) (crl_entries self)"
proof -
  have "(\<lambda>_ :: unit. and_then (at_end L) (\<lambda>e. if e then ok (Inr None)
      else and_then (revoked_cert_from_der L) (\<lambda>c. if serial_number c = sn then ok (Inr (Some c)) else ok (Inl ())))) =
    find_body (revoked_cert_from_der L) (\<lambda>c. serial_number c = sn)"
    by (intro ext) (simp only: find_body_def)
  then show ?thesis
    by (simp add: borrowed_find_serial_def crl_entries_def crl_into_iter_def der_iterator_new_def list_ops entries.find_loop)
qed

lemma collect_run: "fst (collect_revoked_certs L r) = fold_items (\<lambda>cs c. Ok (cs @ [c])) [] (parse_items (revoked_cert_from_der L) r)"
proof -
  have "(\<lambda>certs. and_then (at_end L) (\<lambda>e. if e then ok (Inr certs)
      else and_then (revoked_cert_from_der L) (\<lambda>c. ok (Inl (certs @ [c]))))) =
    item_body (revoked_cert_from_der L) (\<lambda>cs c. Ok (cs @ [c]))"
    by (intro ext) (unfold item_body_def and_then_Ok, rule refl)
  then show ?thesis
    unfolding collect_revoked_certs_def using entries.item_loop by simp
qed

lemma fold_append: "fold_items (\<lambda>cs c. Ok (cs @ [c])) cs (map Ok es) = Ok (cs @ es)"
  by (induction es arbitrary: cs) simp_all

lemma fold_items_Ok_map: "fold_items f s xs = Ok t \<Longrightarrow> \<exists>ys. xs = map Ok ys"
  using fold_items_failure [of xs f s t] all_ok_map by blast

lemma crl_to_owned_run:
  "crl_to_owned L self = Ok owned \<longleftrightarrow>
    (\<exists>es. crl_entries self = map Ok es \<and>
      owned = \<lparr>ocrl_revoked_certs = foldl (\<lambda>m c. m(serial_number c \<mapsto> revoked_cert_to_owned c)) Map.empty es,
        ocrl_issuer = bcrl_issuer self, ocrl_issuing_distribution_point = bcrl_issuing_distribution_point self,
        ocrl_signed_data = signed_data_to_owned (bcrl_signed_data self)\<rparr>)"
proof -
  have "fst (collect_revoked_certs L (crl_into_iter L self)) = Ok es \<longleftrightarrow> crl_entries self = map Ok es" for es
    unfolding collect_run crl_into_iter_def der_iterator_new_def list_ops crl_entries_def
    using fold_items_Ok_map fold_append by (metis append_Nil result.inject(1))
  then show ?thesis unfolding crl_to_owned_def by auto
qed

lemma entry_round_trip [simp]: "revoked_cert_borrow (revoked_cert_to_owned c) = c"
  by (simp add: revoked_cert_borrow_def revoked_cert_to_owned_def)

lemma foldl_entries:
  "foldl (\<lambda>m c. m(serial_number c \<mapsto> revoked_cert_to_owned c)) m es sn =
    (case find (\<lambda>c. serial_number c = sn) (rev es) of Some c \<Rightarrow> Some (revoked_cert_to_owned c) | None \<Rightarrow> m sn)"
  by (induction es rule: rev_induct) auto

lemma lookups_run:
  assumes "crl_to_owned L self = Ok owned"
  obtains es where "crl_entries self = map Ok es"
    "borrowed_find_serial L self sn = Ok (find (\<lambda>c. serial_number c = sn) es)"
    "owned_find_serial owned sn = Ok (find (\<lambda>c. serial_number c = sn) (rev es))"
proof -
  from assms obtain es where es: "crl_entries self = map Ok es"
    and o: "ocrl_revoked_certs owned = foldl (\<lambda>m c. m(serial_number c \<mapsto> revoked_cert_to_owned c)) Map.empty es"
    unfolding crl_to_owned_run by auto
  have "owned_find_serial owned sn = Ok (find (\<lambda>c. serial_number c = sn) (rev es))"
    unfolding owned_find_serial_def o foldl_entries by (auto split: option.split)
  with es find_item_Ok [of "\<lambda>c. serial_number c = sn" es] that show thesis by (simp add: borrowed_find_serial_run)
qed

section \<open>The two representations\<close>

lemma find_rev_None: "find P (rev xs) = None \<longleftrightarrow> find P xs = None"
  by (simp add: find_None_iff)

text \<open>A list may be given as it was read, or converted to its owned form.\<close>

definition same_list :: "CertRevocationList \<Rightarrow> CertRevocationList \<Rightarrow> bool" where
  "same_list c d \<longleftrightarrow> c = d \<or> (\<exists>b owned. crl_to_owned L b = Ok owned \<and> c = Borrowed_Crl b \<and> d = Owned_Crl owned)"

definition same_options :: "RevocationOptions \<Rightarrow> RevocationOptions \<Rightarrow> bool" where
  "same_options ro ro' \<longleftrightarrow> depth ro = depth ro' \<and> status_requirement ro = status_requirement ro' \<and>
    list_all2 same_list (crls ro) (crls ro')"

lemma same_list_authoritative: "same_list c d \<Longrightarrow> crl_authoritative L c x = crl_authoritative L d x"
  by (auto simp: same_list_def crl_to_owned_run crl_authoritative_def)

lemma same_list_signature: "same_list c d \<Longrightarrow> crl_verify_signature L c algs spki = crl_verify_signature L d algs spki"
  by (auto simp: same_list_def crl_to_owned_run)

lemma same_list_found:
  assumes "same_list c d"
  obtains x y where "find_serial L c sn = x" "find_serial L d sn = y"
    "x = y \<or> (\<exists>u v. x = Ok u \<and> y = Ok v \<and> (u = None \<longleftrightarrow> v = None))"
  using assms unfolding same_list_def
proof (elim disjE exE conjE)
  fix b owned
  assume b: "crl_to_owned L b = Ok owned" "c = Borrowed_Crl b" "d = Owned_Crl owned"
  from b(1) show thesis
  proof (rule lookups_run [of b owned sn])
    fix es
    assume "borrowed_find_serial L b sn = Ok (find (\<lambda>c. serial_number c = sn) es)"
      "owned_find_serial owned sn = Ok (find (\<lambda>c. serial_number c = sn) (rev es))"
    with b that find_rev_None [of "\<lambda>c. serial_number c = sn" es] show thesis by auto
  qed
qed (use that in auto)

lemma find_crl_same:
  "list_all2 same_list cs ds \<Longrightarrow>
    (\<exists>c d. find_crl L x cs = Ok (Some c) \<and> find_crl L x ds = Ok (Some d) \<and> same_list c d) \<or>
    find_crl L x cs = find_crl L x ds \<and> (\<forall>c. find_crl L x cs \<noteq> Ok (Some c))"
proof (induction cs ds rule: list_all2_induct)
  case (Cons c cs d ds)
  have "crl_authoritative L d x = crl_authoritative L c x" using same_list_authoritative [OF Cons(1)] by simp
  with Cons show ?case by (cases "crl_authoritative L c x") auto
qed simp

lemma check_crls_same:
  assumes "same_options ro ro'"
  shows "check_crls L algs c subj spki ku ro = check_crls L algs c subj spki ku ro'"
proof -
  from assms have eq: "depth ro' = depth ro" "status_requirement ro' = status_requirement ro"
    and "list_all2 same_list (crls ro) (crls ro')" by (simp_all add: same_options_def)
  from find_crl_same [OF this(3), of c] show ?thesis
  proof (elim disjE exE conjE)
    fix u v
    assume found: "find_crl L c (crls ro) = Ok (Some u)" "find_crl L c (crls ro') = Ok (Some v)" and "same_list u v"
    note sig = same_list_signature [OF \<open>same_list u v\<close>]
    show ?thesis
    proof (rule same_list_found [OF \<open>same_list u v\<close>, of "cert_serial (cert_body c)"])
      fix x y
      assume "find_serial L u (cert_serial (cert_body c)) = x" "find_serial L v (cert_serial (cert_body c)) = y"
        "x = y \<or> (\<exists>u v. x = Ok u \<and> y = Ok v \<and> (u = None \<longleftrightarrow> v = None))"
      then show ?thesis by (auto simp: check_crls_def eq found sig split: option.split)
    qed
  next
    assume "find_crl L c (crls ro) = find_crl L c (crls ro')" "\<forall>u. find_crl L c (crls ro) \<noteq> Ok (Some u)"
    then show ?thesis by (cases "find_crl L c (crls ro')") (auto simp: check_crls_def eq split: option.split)
  qed
qed

lemma check_signatures_loop_same:
  assumes "rel_option same_options revo revo'"
  shows "check_signatures_loop L algs revo spki subj ku c s = check_signatures_loop L algs revo' spki subj ku c s"
proof -
  have link: "check_link algs revo spki subj ku c = check_link algs revo' spki subj ku c" for spki subj ku c
    using assms check_crls_same by (cases revo; cases revo') (auto simp: check_link_def)
  show ?thesis
  proof (induction c arbitrary: spki subj ku s rule: cert_chain_induct)
    case (EndEntity f)
    show ?case unfolding check_signatures_loop_step link EndEntityOrCa.case ..
  next
    case (Ca child f)
    show ?case unfolding check_signatures_loop_step link EndEntityOrCa.case Ca ..
  qed
qed

lemma other_options:
  "opt_eku (opts\<lparr>revocation := r\<rparr>) = opt_eku opts" "supported_sig_algs (opts\<lparr>revocation := r\<rparr>) = supported_sig_algs opts"
  "trust_anchors (opts\<lparr>revocation := r\<rparr>) = trust_anchors opts" "intermediate_certs (opts\<lparr>revocation := r\<rparr>) = intermediate_certs opts"
  "revocation (opts\<lparr>revocation := r\<rparr>) = r"
  by simp_all

lemma try_trust_anchor_same:
  assumes "rel_option same_options (revocation opts) revo'"
  shows "try_trust_anchor L (opts\<lparr>revocation := revo'\<rparr>) = try_trust_anchor L opts"
  unfolding try_trust_anchor_def check_signatures_def other_options check_signatures_loop_same [OF assms] ..

lemma build_chain_inner_same:
  assumes "rel_option same_options (revocation opts) revo'"
  shows "build_chain_inner n L (opts\<lparr>revocation := revo'\<rparr>) time c k s = build_chain_inner n L opts time c k s"
proof (induction n arbitrary: c k s)
  case (Suc n)
  have "build_chain_inner n L (opts\<lparr>revocation := revo'\<rparr>) time = build_chain_inner n L opts time"
    by (intro ext) (rule Suc)
  then show ?case
    unfolding build_chain_inner.simps try_trust_anchor_same [OF assms] common_name_contents_def other_options
    by (simp only:)
qed (simp only: build_chain_inner.simps)

abbreviation path_options ::
    "SignatureVerificationAlgorithm list \<Rightarrow> TrustAnchor list \<Rightarrow> bytes list \<Rightarrow> KeyUsage \<Rightarrow> RevocationOptions option \<Rightarrow> ChainOptions" where
  "path_options algs anchors intermediates usage revo \<equiv>
    \<lparr>opt_eku = usage, supported_sig_algs = algs, trust_anchors = anchors,
     intermediate_certs = intermediates, revocation = revo\<rparr>"

lemma verify_for_usage_same:
  assumes "rel_option same_options revo revo'"
  shows "verify_for_usage L ee algs anchors intermediates time usage revo = verify_for_usage L ee algs anchors intermediates time usage revo'"
  using build_chain_inner_same [of "path_options algs anchors intermediates usage revo" revo'] assms
  by (simp add: verify_for_usage_def build_chain_def)

section \<open>Properties\<close>

text \<open>C13: verification gives the same result whether a revocation list is passed as it was read or in its owned form, and whatever
  mixture of the two is used for the lists.\<close>

theorem crl_forms_agree:
  assumes "untrusted_reader U rest later" and "same_options ro ro'"
  shows "verify_for_usage U ee algs anchors intermediates time usage (Some ro) =
    verify_for_usage U ee algs anchors intermediates time usage (Some ro')"
  unfolding untrusted_reader.verify_for_usage_indep [OF assms(1)] using assms(2) by (intro verify_for_usage_same) simp

lemma small_list_entries: "crl_entries small_list = map Ok [small_entry, reason_entry]"
proof -
  have "revoked_cert_from_der L (bcrl_revoked_certs small_list) = (Ok small_entry, [0x30, 32] @ reason_entry_octets)"
    "revoked_cert_from_der L ([0x30, 32] @ reason_entry_octets) = (Ok reason_entry, [])"
    unfolding revoked_cert_from_der_iff using small_entry_encodes reason_entry_encodes
    by (auto simp: small_list_def der_encode_short small_entry_octets_def reason_entry_octets_def intro!: exI)
  then show ?thesis
    unfolding crl_entries_def
    by (subst parse_items_Ok, auto simp: small_list_def) (subst parse_items_Ok, auto)
qed

lemma small_list_owned: "\<exists>owned. crl_to_owned L small_list = Ok owned"
  unfolding crl_to_owned_run using small_list_entries by blast

theorem crl_forms_agree_witness:
  "\<exists>owned. crl_to_owned list_reader small_list = Ok owned \<and>
    verify_for_usage list_reader \<lparr>inner = Cert EndEntity small_fields\<rparr> [small_alg] [small_anchor] [] 0 server_auth
      (Some \<lparr>crls = [Borrowed_Crl small_list], depth = Depth_Chain, status_requirement = Deny\<rparr>) =
    verify_for_usage list_reader \<lparr>inner = Cert EndEntity small_fields\<rparr> [small_alg] [small_anchor] [] 0 server_auth
      (Some \<lparr>crls = [Owned_Crl owned], depth = Depth_Chain, status_requirement = Deny\<rparr>)"
proof -
  obtain owned where o: "crl_to_owned L small_list = Ok owned" using small_list_owned by blast
  then have "same_options \<lparr>crls = [Borrowed_Crl small_list], depth = Depth_Chain, status_requirement = Deny\<rparr>
      \<lparr>crls = [Owned_Crl owned], depth = Depth_Chain, status_requirement = Deny\<rparr>"
    by (simp add: same_options_def same_list_def)
  from crl_forms_agree [OF lr.untrusted_reader_axioms this] o show ?thesis by blast
qed

text \<open>C25: the owned form of a list exists exactly when all entries can be read. A lookup in the list as it was read gives the first entry
  with the serial number, a lookup in the owned form the last one, so the two differ only for a list that has a serial
  number twice; a serial number is in both or in neither.\<close>

theorem crl_lookup:
  assumes "untrusted_reader U rest later" and "crl_to_owned U b = Ok owned"
  shows "\<exists>es. parse_items (revoked_cert_from_der L) (bcrl_revoked_certs b) = map Ok es \<and>
    find_serial U (Borrowed_Crl b) sn = Ok (find (\<lambda>c. serial_number c = sn) es) \<and>
    find_serial U (Owned_Crl owned) sn = Ok (find (\<lambda>c. serial_number c = sn) (rev es))"
  using lookups_run [OF assms(2) [unfolded untrusted_reader.crl_to_owned_indep [OF assms(1)]], of sn]
  unfolding untrusted_reader.find_serial_indep [OF assms(1)] crl_entries_def by auto

theorem crl_lookup_witness:
  "\<exists>owned. crl_to_owned list_reader small_list = Ok owned \<and> find_serial list_reader (Owned_Crl owned) [6] = Ok (Some reason_entry) \<and>
    find_serial list_reader (Owned_Crl owned) [7] = Ok None"
proof -
  obtain owned where o: "crl_to_owned L small_list = Ok owned" using small_list_owned by blast
  have es: "es = [small_entry, reason_entry]" if "parse_items (revoked_cert_from_der L) (bcrl_revoked_certs small_list) = map Ok es" for es
    using that small_list_entries unfolding crl_entries_def by (auto simp: map_eq_Cons_conv)
  have "serial_number small_entry = [5]" "serial_number reason_entry = [6]" by (simp_all add: small_entry_def reason_entry_def)
  with o crl_lookup [OF lr.untrusted_reader_axioms o, of "[6]"] crl_lookup [OF lr.untrusted_reader_axioms o, of "[7]"] show ?thesis
    by (auto dest!: es)
qed

end
