(* ===== verification/Crl_Scope.thy ===== *)
theory Crl_Scope
  imports Path_Search
begin

text \<open>
  Which certificates a revocation list speaks about. A list with an issuing distribution point is used for a certificate
  only when the scope of the list covers the role of the certificate and a distribution point of the certificate
  has a URI in common with that of the list.
\<close>

section \<open>What an iterator gives\<close>

text \<open>The positions an iterator of tagged values comes by: it goes on behind a value that it could not read.\<close>

inductive reached :: "(bytes, 'a) parser \<Rightarrow> bytes \<Rightarrow> bytes \<Rightarrow> bool" for p start where
  reached_start: "reached p start start"
| reached_next: "reached p start r \<Longrightarrow> r \<noteq> [] \<Longrightarrow> p r = (x, r') \<Longrightarrow> reached p start r'"

definition yields :: "(bytes, 'a) parser \<Rightarrow> bytes \<Rightarrow> 'a \<Rightarrow> bool" where
  "yields p start y \<longleftrightarrow> (\<exists>r r'. reached p start r \<and> r \<noteq> [] \<and> p r = (Ok y, r'))"

lemma reached_trans:
  assumes "reached p b c" "reached p a b"
  shows "reached p a c"
  using assms by (induction rule: reached.induct) (auto intro: reached.intros)

lemma yields_reached: "yields p b y \<Longrightarrow> reached p a b \<Longrightarrow> yields p a y"
  unfolding yields_def using reached_trans by blast

lemma attempt_step:
  "attempt p r = (Ok m, r') \<Longrightarrow> \<exists>x. p r = (x, r') \<and> (\<forall>y. m = Some y \<longrightarrow> x = Ok y)"
  by (auto simp: attempt_run split: prod.splits result.splits)

abbreviation uri_in :: "bytes \<Rightarrow> bytes \<Rightarrow> bool" where
  "uri_in names uri \<equiv> yields (general_name_from_der L) names (GN_UniformResourceIdentifier uri)"

section \<open>A URI in common\<close>

lemma loop_sound:
  assumes "loop L body s r = (Ok y, r')" and "I s r"
    and "\<And>s r x r'. I s r \<Longrightarrow> body s r = (Ok x, r') \<Longrightarrow> case x of Inl s' \<Rightarrow> I s' r' | Inr y \<Rightarrow> Q y r'"
  shows "Q y r'"
  using assms(1,2)
proof (rule loop_invariant [where I = I and Q = Q])
  show "I s' r'" if "I s r" "body s r = (Ok (Inl s'), r')" for s r s' r' using assms(3) [OF that] by simp
  show "Q y r'" if "I s r" "body s r = (Ok (Inr y), r')" for s r y r' using assms(3) [OF that] by simp
qed

text \<open>A turn of a loop over an iterator.\<close>

lemma iterator_turn:
  assumes "and_then (at_end L) (\<lambda>e. if e then ok end_value else and_then (attempt p) f) r = (Ok y, r')"
  obtains "r = []" "y = end_value" "r' = []"
  | m x r1 where "r \<noteq> []" "p r = (x, r1)" "\<forall>z. m = Some z \<longrightarrow> x = Ok z" "f m r1 = (Ok y, r')"
proof (cases "r = []")
  case True
  with assms that(1) show thesis by (simp add: and_then_run at_end_run ok_run)
next
  case False
  with assms obtain m r1 where "attempt p r = (Ok m, r1)" "f m r1 = (Ok y, r')"
    by (auto simp: and_then_eq_Ok at_end_run)
  with False attempt_step [of p r m r1] that(2) show thesis by blast
qed

lemma find_uri_sound:
  assumes "find_uri L uri r = (Ok found, r')"
  shows "reached (general_name_from_der L) r r' \<and> (found \<longrightarrow> uri_in r uri)"
  using assms unfolding find_uri_def
proof (rule loop_sound [where I = "\<lambda>_. reached (general_name_from_der L) r"
      and Q = "\<lambda>found r'. reached (general_name_from_der L) r r' \<and> (found \<longrightarrow> uri_in r uri)"])
  fix s q y q'
  assume at: "reached (general_name_from_der L) r q"
    and "and_then (at_end L) (\<lambda>e. if e then ok (Inr False) else and_then (attempt (general_name_from_der L)) (\<lambda>n.
      if n = Some (GN_UniformResourceIdentifier uri) then ok (Inr True) else ok (Inl ()))) q = (Ok y, q')"
  from this(2) show "case y of Inl _ \<Rightarrow> reached (general_name_from_der L) r q'
      | Inr found \<Rightarrow> reached (general_name_from_der L) r q' \<and> (found \<longrightarrow> uri_in r uri)"
    by (rule iterator_turn) (use at in \<open>auto simp: ok_eq_Ok yields_def split: if_splits intro: reached_next [OF at]\<close>)
qed (rule reached_start)

lemma uri_name_in_common_sound:
  assumes "uri_name_in_common L dp r = (Ok found, r')"
  shows "reached (general_name_from_der L) r r' \<and> (found \<longrightarrow> (\<exists>uri. uri_in r uri \<and> uri_in dp uri))"
proof -
  let ?g = "general_name_from_der L"
  let ?Q = "\<lambda>found r'. reached ?g r r' \<and> (found \<longrightarrow> (\<exists>uri. uri_in r uri \<and> uri_in dp uri))"
  have turn: "case y of Inl dp' \<Rightarrow> reached ?g dp dp' \<and> reached ?g r q' | Inr found \<Rightarrow> ?Q found q'"
    if at: "reached ?g dp d \<and> reached ?g r q" and run: "uri_name_turn L d q = (Ok y, q')" for d q y q'
    using run unfolding uri_name_turn_def
  proof (rule iterator_turn)
    assume "q = []" "y = Inr False" "q' = []"
    with at show ?thesis by simp
  next
    fix m x q1
    assume q: "q \<noteq> []" "?g q = (x, q1)" "\<forall>z. m = Some z \<longrightarrow> x = Ok z"
      and k: "(case m of None \<Rightarrow> ok (Inl d)
        | Some n \<Rightarrow> (case n of GN_UniformResourceIdentifier uri \<Rightarrow>
            on_other (find_uri L uri) d (\<lambda>found d'. if found then ok (Inr True) else ok (Inl d')) | _ \<Rightarrow> ok (Inl d))) q1 = (Ok y, q')"
    from at q have r1: "reached ?g r q1" by (auto intro: reached_next)
    show ?thesis
    proof (cases "\<exists>uri. m = Some (GN_UniformResourceIdentifier uri)")
      case True
      then obtain uri where uri: "m = Some (GN_UniformResourceIdentifier uri)" ..
      with k obtain found d' where f: "find_uri L uri d = (Ok found, d')" "y = (if found then Inr True else Inl d')" "q' = q1"
        by (auto simp: on_other_def of_result_def ok_eq_Ok split: prod.splits result.splits if_splits)
      from q uri at have "uri_in r uri" unfolding yields_def by blast
      with find_uri_sound [OF f(1)] f at r1 show ?thesis
        by (auto intro: reached_trans yields_reached)
    next
      case False
      with k have "y = Inl d" "q' = q1" by (auto simp: ok_eq_Ok split: option.splits GeneralName.splits)
      with at r1 show ?thesis by simp
    qed
  qed
  show ?thesis
    using assms unfolding uri_name_in_common_def
    by (rule loop_sound [where I = "\<lambda>d q. reached ?g dp d \<and> reached ?g r q" and Q = ?Q, OF _ _ turn])
      (simp_all add: reached_start)
qed

section \<open>The scope of a list\<close>

text \<open>A distribution point that is neither for an indirect list nor for some of the reasons only, and shares a URI with the given names.\<close>

definition point_shares :: "CrlDistributionPoint \<Rightarrow> bytes \<Rightarrow> bool" where
  "point_shares dp names \<longleftrightarrow> crl_issuer dp = None \<and> reasons dp = None \<and>
    (\<exists>own uri. dp_names L dp = Ok (Some (FullName own)) \<and> uri_in own uri \<and> uri_in names uri)"

definition in_scope :: "CertRevocationList \<Rightarrow> Cert \<Rightarrow> bool" where
  "in_scope crl c \<longleftrightarrow>
    crl_list_issuer crl = cert_issuer (cert_body c) \<and>
    (case issuing_distribution_point crl of
       None \<Rightarrow> cert_crl_distribution_points (cert_body c) = None
     | Some der \<Rightarrow>
         (\<exists>idp. idp_from_der L der = Ok idp \<and>
           (only_contains_ca_certs idp \<longrightarrow> ee_or_ca c \<noteq> EndEntity) \<and> (only_contains_user_certs idp \<longrightarrow> ee_or_ca c = EndEntity) \<and>
           (\<forall>points. cert_crl_distribution_points (cert_body c) = Some points \<longrightarrow>
             (\<exists>names dp. idp_names L idp = Ok (Some (FullName names)) \<and>
               yields (crl_distribution_point_from_der L) points dp \<and> point_shares dp names))))"

lemma authoritative_turn_sound:
  assumes "authoritative_turn L g q = (Ok y, q')" and names: "reached (general_name_from_der L) names g"
    and points: "reached (crl_distribution_point_from_der L) points q"
  shows "case y of
      Inl g' \<Rightarrow> reached (general_name_from_der L) names g' \<and> reached (crl_distribution_point_from_der L) points q'
    | Inr found \<Rightarrow> found \<longrightarrow> (\<exists>dp. yields (crl_distribution_point_from_der L) points dp \<and> point_shares dp names)"
  using assms(1) unfolding authoritative_turn_def
proof (rule iterator_turn)
  fix m x q1
  assume q: "q \<noteq> []" "crl_distribution_point_from_der L q = (x, q1)" "\<forall>z. m = Some z \<longrightarrow> x = Ok z"
    and k: "(case m of None \<Rightarrow> ok (Inr False)
      | Some dp \<Rightarrow>
          if crl_issuer dp \<noteq> None \<or> reasons dp \<noteq> None then ok (Inr False)
          else and_then (attempt (of_result (dp_names L dp))) (\<lambda>own.
            case own of None \<Rightarrow> ok (Inr False) | Some None \<Rightarrow> ok (Inr False)
            | Some (Some (NameRelativeToCrlIssuer _)) \<Rightarrow> ok (Inr False)
            | Some (Some (FullName own)) \<Rightarrow>
                on_other (uri_name_in_common L (der_iterator_new L own)) g
                  (\<lambda>found g'. if found then ok (Inr True) else ok (Inl g')))) q1 = (Ok y, q')"
  from q points have at: "reached (crl_distribution_point_from_der L) points q1" by (auto intro: reached_next)
  show ?thesis
  proof (cases "y = Inr False")
    case False
    with k obtain dp where dp: "m = Some dp" "crl_issuer dp = None" "reasons dp = None"
      by (auto simp: ok_eq_Ok split: option.splits if_splits)
    define continue :: "DistributionPointName option option \<Rightarrow> (bytes, bytes + bool) parser" where "continue own = (case own of None \<Rightarrow> ok (Inr False) | Some None \<Rightarrow> ok (Inr False)
        | Some (Some (NameRelativeToCrlIssuer _)) \<Rightarrow> ok (Inr False)
        | Some (Some (FullName own)) \<Rightarrow>
            on_other (uri_name_in_common L (der_iterator_new L own)) g (\<lambda>found g'. if found then ok (Inr True) else ok (Inl g')))"
      for own
    from k dp have "and_then (attempt (of_result (dp_names L dp))) continue q1 = (Ok y, q')"
      by (simp add: continue_def [abs_def])
    then have "(case dp_names L dp of Ok n \<Rightarrow> continue (Some n) q1 | Err _ \<Rightarrow> continue None q1 | Panic \<Rightarrow> (Panic, q1) | Diverge \<Rightarrow> (Diverge, q1)) = (Ok y, q')"
      by (auto simp: and_then_run attempt_run of_result_def split: result.splits)
    with False obtain own where own: "dp_names L dp = Ok (Some (FullName own))" and "continue (Some (Some (FullName own))) q1 = (Ok y, q')"
      by (auto simp: continue_def ok_eq_Ok split: result.splits option.splits DistributionPointName.splits)
    then obtain found g' where common: "uri_name_in_common L own g = (Ok found, g')" and y: "y = (if found then Inr True else Inl g')" and "q' = q1"
      by (auto simp: continue_def ok_eq_Ok of_result_def on_other_def der_iterator_new_def list_ops
        split: if_splits prod.splits result.splits)
    from q dp(1) points have "yields (crl_distribution_point_from_der L) points dp" unfolding yields_def by blast
    with uri_name_in_common_sound [OF common] dp own y names at \<open>q' = q1\<close> show ?thesis
      unfolding point_shares_def by (auto intro: reached_trans dest: yields_reached [OF _ names])
  qed simp
qed simp

lemma authoritative_loop_sound:
  assumes "loop L (authoritative_turn L) names points = (Ok True, r')"
  shows "\<exists>dp. yields (crl_distribution_point_from_der L) points dp \<and> point_shares dp names"
  using loop_sound [OF assms, where I = "\<lambda>g q. reached (general_name_from_der L) names g \<and> reached (crl_distribution_point_from_der L) points q"
    and Q = "\<lambda>found _. found \<longrightarrow> (\<exists>dp. yields (crl_distribution_point_from_der L) points dp \<and> point_shares dp names)"]
    authoritative_turn_sound by (simp add: reached_start)

lemma authoritative_for_sound:
  assumes "authoritative_for L idp c = Ok True"
  shows "(only_contains_ca_certs idp \<longrightarrow> ee_or_ca c \<noteq> EndEntity) \<and> (only_contains_user_certs idp \<longrightarrow> ee_or_ca c = EndEntity) \<and>
    (\<forall>points. cert_crl_distribution_points (cert_body c) = Some points \<longrightarrow>
      (\<exists>names dp. idp_names L idp = Ok (Some (FullName names)) \<and>
        yields (crl_distribution_point_from_der L) points dp \<and> point_shares dp names))"
proof (cases "cert_crl_distribution_points (cert_body c)")
  case None
  with assms show ?thesis by (auto simp: authoritative_for_def crl_distribution_points_def split: if_splits)
next
  case (Some points)
  with assms obtain names where role: "\<not> (only_contains_ca_certs idp \<and> ee_or_ca c = EndEntity \<or> only_contains_user_certs idp \<and> ee_or_ca c \<noteq> EndEntity)"
    and "idp_names L idp = Ok (Some (FullName names))" and run: "fst (loop L (authoritative_turn L) names points) = Ok True"
    by (auto simp: authoritative_for_def crl_distribution_points_def der_iterator_new_def list_ops
      split: if_splits result.splits option.splits DistributionPointName.splits)
  moreover obtain r' where "loop L (authoritative_turn L) names points = (Ok True, r')"
    using run by (cases "loop L (authoritative_turn L) names points") auto
  ultimately show ?thesis using authoritative_loop_sound Some by auto
qed

lemma crl_authoritative_sound: "crl_authoritative L crl c = Ok True \<Longrightarrow> in_scope crl c"
  by (auto simp: crl_authoritative_def in_scope_def issuer_def crl_distribution_points_def
    split: if_splits option.splits result.splits dest!: authoritative_for_sound)

section \<open>Properties\<close>

text \<open>C11: a revocation list is taken to speak about a certificate only when it has the certificate's issuer, its scope covers the role
  of the certificate, and, for a certificate with distribution points, one of these shares a URI with the issuing
  distribution point of the list and is neither for an indirect list nor for some of the reasons. A list with no
  issuing distribution point is used only for certificates without distribution points.\<close>

theorem authoritative_in_scope:
  assumes "untrusted_reader U rest later" and "crl_authoritative U crl c = Ok True"
  shows "in_scope crl c"
  using assms(2) unfolding untrusted_reader.crl_authoritative_indep [OF assms(1)] by (rule crl_authoritative_sound)

text \<open>The evaluation of small lists and distribution points.\<close>

lemmas reader_eval = run_simps Let_def der_limits read_length_def CONTEXT_SPECIFIC_def CONSTRUCTED_def loop_list
  general_name_from_der_def read_tag_and_get_value_def read_tag_and_get_value_limited_def
  nested_def nested_limited_def expect_tag_and_get_value_limited_def

definition point_octets :: bytes where
  "point_octets = [0x30, 7, 0xA0, 5, 0xA0, 3, 0x86, 1, 0x75]"

definition point_cert :: Cert where
  "point_cert = Cert EndEntity (small_fields\<lparr>cert_crl_distribution_points := Some point_octets\<rparr>)"

definition point_list :: "bytes \<Rightarrow> CertRevocationList" where
  "point_list idp = Owned_Crl \<lparr>ocrl_revoked_certs = Map.empty, ocrl_issuer = [], ocrl_issuing_distribution_point = Some idp,
     ocrl_signed_data = signed_data_to_owned (cert_signed_data small_fields)\<rparr>"

lemma point_octets_run:
  "crl_distribution_point_from_der L point_octets =
    (Ok \<lparr>distribution_point = Some [0xA0, 3, 0x86, 1, 0x75], reasons = None, crl_issuer = None\<rparr>, [])"
  unfolding crl_distribution_point_from_der_def dp_field_def
  by (simp add: reader_eval set_extension_once_def point_octets_def)

lemma idp_octets_run:
  "idp_from_der L point_octets = Ok (idp_empty\<lparr>idp_distribution_point := Some [0xA0, 3, 0x86, 1, 0x75]\<rparr>)"
  unfolding idp_from_der_def idp_fields_def idp_field_def
  by (simp add: reader_eval set_extension_once_def idp_empty_def idp_names_def distribution_point_name_from_der_def point_octets_def)

lemma point_names_run:
  "dp_names L \<lparr>distribution_point = Some [0xA0, 3, 0x86, 1, 0x75], reasons = None, crl_issuer = None\<rparr> =
    Ok (Some (FullName [0x86, 1, 0x75]))"
  "idp_names L (idp_empty\<lparr>idp_distribution_point := Some [0xA0, 3, 0x86, 1, 0x75]\<rparr>) = Ok (Some (FullName [0x86, 1, 0x75]))"
  by (simp_all add: reader_eval dp_names_def idp_names_def idp_empty_def distribution_point_name_from_der_def)

lemma common_run:
  "uri_name_in_common L [0x86, 1, 0x75] [0x86, 1, 0x75] = (Ok True, [])"
  "uri_name_in_common L [0x86, 1, 0x75] [0x86, 1, 0x76, 0x86, 1, 0x75] = (Ok False, [])"
  by (simp_all add: reader_eval uri_name_in_common_def uri_name_turn_def find_uri_def on_other_def)

lemma point_turn:
  "authoritative_turn L names point_octets =
    (case uri_name_in_common L [0x86, 1, 0x75] names of
       (Ok found, names') \<Rightarrow> (Ok (if found then Inr True else Inl names'), [])
     | (Err e, _) \<Rightarrow> (Err e, []) | (Panic, _) \<Rightarrow> (Panic, []) | (Diverge, _) \<Rightarrow> (Diverge, []))"
proof -
  have "point_octets \<noteq> []" by (simp add: point_octets_def)
  then show ?thesis
    by (auto simp: authoritative_turn_def and_then_run at_end_run ok_run attempt_run of_result_def point_octets_run point_names_run
      on_other_def der_iterator_new_def list_ops split: prod.split result.split)
qed

lemma point_authoritative: "crl_authoritative L (point_list point_octets) point_cert = Ok True"
proof -
  have "loop L (authoritative_turn L) [0x86, 1, 0x75] point_octets = (Ok True, [])"
    by (simp add: loop_list and_then_run ok_run point_turn common_run)
  then show ?thesis
    unfolding crl_authoritative_def authoritative_for_def
    by (simp add: point_list_def point_cert_def issuer_def small_fields_def crl_distribution_points_def idp_octets_run
        der_iterator_new_def list_ops point_names_run) (simp add: idp_empty_def)
qed

theorem authoritative_in_scope_witness: "in_scope (point_list point_octets) point_cert"
  using authoritative_in_scope [OF lr.untrusted_reader_axioms point_authoritative] .

text \<open>The converse does not hold: a list whose distribution point has two URIs.\<close>

definition two_uris :: bytes where
  "two_uris = [0x30, 10, 0xA0, 8, 0xA0, 6, 0x86, 1, 0x76, 0x86, 1, 0x75]"

lemma two_uris_run:
  "idp_from_der L two_uris = Ok (idp_empty\<lparr>idp_distribution_point := Some [0xA0, 6, 0x86, 1, 0x76, 0x86, 1, 0x75]\<rparr>)"
  unfolding idp_from_der_def idp_fields_def idp_field_def
  by (simp add: reader_eval set_extension_once_def idp_empty_def idp_names_def distribution_point_name_from_der_def two_uris_def)

lemma two_uris_names:
  "idp_names L (idp_empty\<lparr>idp_distribution_point := Some [0xA0, 6, 0x86, 1, 0x76, 0x86, 1, 0x75]\<rparr>) =
    Ok (Some (FullName [0x86, 1, 0x76, 0x86, 1, 0x75]))"
  by (simp add: reader_eval idp_names_def idp_empty_def distribution_point_name_from_der_def)

text \<open>C12: a list can be in the scope of a certificate and not be taken for it. The search for a common URI reads the names of the
  certificate's distribution point only once: when the first URI of the list is not among them, a later URI of
  the list is not found any more, although the certificate has it too.\<close>

theorem common_uri_missed:
  "in_scope (point_list two_uris) point_cert \<and> crl_authoritative L (point_list two_uris) point_cert = Ok False"
proof
  have uri: "general_name_from_der L [0x86, 1, 0x75] = (Ok (GN_UniformResourceIdentifier [0x75]), [])"
    "general_name_from_der L [0x86, 1, 0x76, 0x86, 1, 0x75] = (Ok (GN_UniformResourceIdentifier [0x76]), [0x86, 1, 0x75])"
    by (simp_all add: reader_eval)
  have "uri_in [0x86, 1, 0x75] [0x75]" unfolding yields_def using uri(1) reached_start by blast
  moreover have "uri_in [0x86, 1, 0x76, 0x86, 1, 0x75] [0x75]"
    unfolding yields_def using uri reached_next [OF reached_start, of "[0x86, 1, 0x76, 0x86, 1, 0x75]" "general_name_from_der L"] by blast
  moreover have "yields (crl_distribution_point_from_der L) point_octets
      \<lparr>distribution_point = Some [0xA0, 3, 0x86, 1, 0x75], reasons = None, crl_issuer = None\<rparr>"
    unfolding yields_def using point_octets_run reached_start by (auto simp: point_octets_def)
  ultimately show "in_scope (point_list two_uris) point_cert"
    using point_names_run(1) two_uris_names
    by (auto simp: in_scope_def point_list_def point_cert_def small_fields_def two_uris_run point_shares_def idp_empty_def)
      (rule exI [of _ "\<lparr>distribution_point = Some [0xA0, 3, 0x86, 1, 0x75], reasons = None, crl_issuer = None\<rparr>"], auto)
  have "loop L (authoritative_turn L) [0x86, 1, 0x76, 0x86, 1, 0x75] point_octets = (Ok False, [])"
    by (simp add: loop_list and_then_run ok_run point_turn common_run) (simp add: authoritative_turn_def reader_eval point_octets_def)
  then show "crl_authoritative L (point_list two_uris) point_cert = Ok False"
    unfolding crl_authoritative_def authoritative_for_def
    by (simp add: point_list_def point_cert_def issuer_def small_fields_def crl_distribution_points_def two_uris_run
        der_iterator_new_def list_ops two_uris_names) (simp add: idp_empty_def)
qed

end
