(* ===== verification/Chain_Invariant.thy ===== *)
theory Chain_Invariant
  imports Path_Search End_Entity
begin

text \<open>
  The invariant of the search for a path. The state of the search is the chain built so far and the number of CA
  certificates below its last one; every call of the recursive function keeps a chain without repetition in which each
  certificate names the next as its issuer, no longer than the limit allows.
\<close>

fun linked :: "Cert \<Rightarrow> bool" where
  "linked (Cert role f) \<longleftrightarrow>
    (case role of EndEntity \<Rightarrow> True | Ca child \<Rightarrow> cert_subject f = cert_issuer (cert_body child) \<and> linked child)"

abbreviation key_and_name :: "cert_fields \<Rightarrow> bytes \<times> bytes" where
  "key_and_name f \<equiv> (cert_spki f, cert_subject f)"

definition chain_inv :: "Cert \<Rightarrow> nat \<Rightarrow> bool" where
  "chain_inv c n \<longleftrightarrow>
    distinct (map key_and_name (chain_certs c)) \<and> linked c \<and> n \<le> MAX_SUB_CA_COUNT \<and>
    (case ee_or_ca c of EndEntity \<Rightarrow> n = 0 | Ca _ \<Rightarrow> length (chain_certs c) = n + 2)"

lemma in_chain_iff: "in_chain f c \<longleftrightarrow> key_and_name f \<in> key_and_name ` set (chain_certs c)"
  by (induction c rule: cert_chain_induct) auto

lemma chain_inv_start: "ee_or_ca c = EndEntity \<Longrightarrow> chain_inv c 0"
  by (cases c) (simp add: chain_inv_def)

lemma chain_inv_step:
  assumes "chain_inv c n" and "used_as_ca (ee_or_ca c) = Yes \<Longrightarrow> n < MAX_SUB_CA_COUNT"
    and "ee_or_ca i = Ca c" "cert_subject (cert_body i) = cert_issuer (cert_body c)" "\<not> in_chain (cert_body i) c"
  shows "chain_inv i (case used_as_ca (ee_or_ca c) of No \<Rightarrow> n | Yes \<Rightarrow> n + 1)"
proof -
  obtain f where i: "i = Cert (Ca c) f" using assms(3) by (cases i) auto
  obtain role g where c: "c = Cert role g" by (cases c)
  show ?thesis
    using assms i c unfolding chain_inv_def in_chain_iff by (cases role) auto
qed

text \<open>The search with an assertion of the invariant at every call.\<close>

fun asserted_inner ::
    "nat \<Rightarrow> 'r untrusted \<Rightarrow> ChainOptions \<Rightarrow> Time \<Rightarrow> Cert \<Rightarrow> nat \<Rightarrow> nat \<Rightarrow> unit result \<times> nat" where
  "asserted_inner 0 U opts time cert sub_ca_count signatures = (Diverge, signatures)"
| "asserted_inner (Suc fuel) U opts time cert sub_ca_count signatures =
    (if \<not> chain_inv cert sub_ca_count then (Panic, signatures)
     else
       (let used = used_as_ca (ee_or_ca cert) in
        case check_issuer_independent_properties U cert time used sub_ca_count (ku_inner (opt_eku opts)) of
          Ok _ \<Rightarrow>
            if used = Yes \<and> sub_ca_count \<ge> MAX_SUB_CA_COUNT then (Err UnknownIssuer, signatures)
            else if used = No \<and> sub_ca_count \<noteq> 0 then (Panic, signatures)
            else
              (case loop_while_non_fatal_error UnknownIssuer (trust_anchors opts)
                      (try_trust_anchor U opts cert (common_name_contents opts cert)) signatures of
                 (Ok _, signatures') \<Rightarrow> (Ok (), signatures')
               | (Err err, signatures') \<Rightarrow>
                   loop_while_non_fatal_error err (intermediate_certs opts)
                     (try_intermediate U (asserted_inner fuel U opts time) cert
                       (common_name_contents opts cert) sub_ca_count) signatures'
               | (Panic, signatures') \<Rightarrow> (Panic, signatures')
               | (Diverge, signatures') \<Rightarrow> (Diverge, signatures'))
        | r \<Rightarrow> (r, signatures)))"

text \<open>The closure over the intermediate certificates calls the search only on chains that keep the invariant.\<close>

lemma try_intermediate_cong:
  assumes "untrusted_reader U rest later" and "chain_inv c n"
    and "used_as_ca (ee_or_ca c) = Yes \<Longrightarrow> n < MAX_SUB_CA_COUNT"
    and rec: "\<And>i m s. chain_inv i m \<Longrightarrow> rec i m s = rec' i m s"
  shows "try_intermediate U rec c contents n der s = try_intermediate U rec' c contents n der s"
proof (cases "cert_from_der U der (Ca c)")
  case (Ok i)
  then have "ee_or_ca i = Ca c"
    unfolding untrusted_reader.cert_from_der_indep [OF assms(1)] by (simp add: cert_from_der_iff)
  with chain_inv_step [OF assms(2,3) this] rec Ok show ?thesis
    unfolding try_intermediate_def by (auto simp: Let_def split: result.split)
qed (simp_all add: try_intermediate_def)

lemma asserted_inner_eq:
  assumes "untrusted_reader U rest later" and "chain_inv c n"
  shows "asserted_inner k U opts time c n s = build_chain_inner k U opts time c n s"
  using assms(2)
proof (induction k arbitrary: c n s)
  case (Suc k)
  have same: "try_intermediate U (asserted_inner k U opts time) c contents n =
      try_intermediate U (build_chain_inner k U opts time) c contents n"
    if "\<not> (used_as_ca (ee_or_ca c) = Yes \<and> n \<ge> MAX_SUB_CA_COUNT)" for contents
    using that by (intro ext try_intermediate_cong [OF assms(1) Suc.prems] Suc.IH) simp_all
  show ?case
  proof (cases "used_as_ca (ee_or_ca c) = Yes \<and> n \<ge> MAX_SUB_CA_COUNT")
    case True
    with Suc.prems show ?thesis by (simp add: Let_def)
  next
    case False
    show ?thesis unfolding asserted_inner.simps build_chain_inner.simps same [OF False] using Suc.prems by simp
  qed
qed (simp only: asserted_inner.simps build_chain_inner.simps)

section \<open>Properties\<close>

text \<open>C6: the invariant of the search. At every call, the chain built so far has no two certificates with the same subject and key, each
  certificate is named as issuer by the one below it, the count is that of the CA certificates between, and the limit is kept: an
  assertion of this at the start of every call would never fail, and would not change any result.\<close>

theorem search_invariant:
  assumes "untrusted_reader U rest later" and "end_entity_try_from U der = Ok ee"
  shows "asserted_inner (MAX_SUB_CA_COUNT + 2) U opts time (inner ee) 0 0 =
    build_chain_inner (MAX_SUB_CA_COUNT + 2) U opts time (inner ee) 0 0"
proof (rule asserted_inner_eq [OF assms(1) chain_inv_start])
  show "ee_or_ca (inner ee) = EndEntity"
    using assms(2) unfolding untrusted_reader.end_entity_try_from_indep [OF assms(1)]
    by (auto simp: end_entity_try_from_def cert_from_der_iff)
qed

theorem search_invariant_witness:
  "asserted_inner (MAX_SUB_CA_COUNT + 2) list_reader (small_options None) 0 (Cert EndEntity small_fields) 0 0 = (Ok (), 1)"
proof -
  have "end_entity_try_from list_reader small_cert = Ok \<lparr>inner = Cert EndEntity small_fields\<rparr>"
    using small_cert_fields by (auto simp: end_entity_try_from_def cert_from_der_iff)
  from search_invariant [OF lr.untrusted_reader_axioms this, of "small_options None" 0] small_counter [of None] show ?thesis by simp
qed

end
