(* ===== verification/Dns_Tables.thy ===== *)
theory Dns_Tables
  imports Dns_Match
begin

text \<open>
  The test tables of \<^verbatim>\<open>src/subject_name/dns_name.rs\<close>. The crate states what its two matching functions are expected to decide
  as tables of cases; here every case is proved of the model, for every reader.
\<close>

text \<open>The bytes of an ASCII literal.\<close>

definition ascii :: "string \<Rightarrow> bytes" where
  "ascii s = map of_char s"

section \<open>Presented and reference identifiers\<close>

definition PRESENTED_MATCHES_REFERENCE_1 :: "(bytes \<times> bytes \<times> bool result) list" where
  "PRESENTED_MATCHES_REFERENCE_1 = [
    ([], ascii ''a'', Err MalformedDnsIdentifier),
    (ascii ''a'', ascii ''a'', Ok True),
    (ascii ''b'', ascii ''a'', Ok False),
    (ascii ''*.b.a'', ascii ''c.b.a'', Ok True),
    (ascii ''*.b.a'', ascii ''b.a'', Ok False),
    (ascii ''*.b.a'', ascii ''b.a.'', Ok False),
    (ascii ''d.c.b.a'', ascii ''d.c.b.a'', Ok True),
    (ascii ''d.*.b.a'', ascii ''d.c.b.a'', Err MalformedDnsIdentifier),
    (ascii ''d.c*.b.a'', ascii ''d.c.b.a'', Err MalformedDnsIdentifier),
    (ascii ''d.c*.b.a'', ascii ''d.cc.b.a'', Err MalformedDnsIdentifier),
    (ascii ''abcdefghijklmnopqrstuvwxyz'', ascii ''ABCDEFGHIJKLMNOPQRSTUVWXYZ'', Ok True),
    (ascii ''ABCDEFGHIJKLMNOPQRSTUVWXYZ'', ascii ''abcdefghijklmnopqrstuvwxyz'', Ok True),
    (ascii ''aBc'', ascii ''Abc'', Ok True),
    (ascii ''a1'', ascii ''a1'', Ok True),
    (ascii ''example'', ascii ''example'', Ok True),
    (ascii ''example.'', ascii ''example.'', Err MalformedDnsIdentifier),
    (ascii ''example'', ascii ''example.'', Ok True),
    (ascii ''example.'', ascii ''example'', Err MalformedDnsIdentifier),
    (ascii ''example.com'', ascii ''example.com'', Ok True),
    (ascii ''example.com.'', ascii ''example.com.'', Err MalformedDnsIdentifier),
    (ascii ''example.com'', ascii ''example.com.'', Ok True),
    (ascii ''example.com.'', ascii ''example.com'', Err MalformedDnsIdentifier),
    (ascii ''example.com..'', ascii ''example.com.'', Err MalformedDnsIdentifier),
    (ascii ''example.com..'', ascii ''example.com'', Err MalformedDnsIdentifier),
    (ascii ''example.com...'', ascii ''example.com.'', Err MalformedDnsIdentifier),
    (ascii ''x*.b.a'', ascii ''xa.b.a'', Err MalformedDnsIdentifier),
    (ascii ''x*.b.a'', ascii ''xna.b.a'', Err MalformedDnsIdentifier),
    (ascii ''x*.b.a'', ascii ''xn-a.b.a'', Err MalformedDnsIdentifier),
    (ascii ''x*.b.a'', ascii ''xn--a.b.a'', Err MalformedDnsIdentifier),
    (ascii ''xn*.b.a'', ascii ''xn--a.b.a'', Err MalformedDnsIdentifier),
    (ascii ''xn-*.b.a'', ascii ''xn--a.b.a'', Err MalformedDnsIdentifier),
    (ascii ''xn--*.b.a'', ascii ''xn--a.b.a'', Err MalformedDnsIdentifier),
    (ascii ''xn*.b.a'', ascii ''xn--a.b.a'', Err MalformedDnsIdentifier),
    (ascii ''xn-*.b.a'', ascii ''xn--a.b.a'', Err MalformedDnsIdentifier),
    (ascii ''xn--*.b.a'', ascii ''xn--a.b.a'', Err MalformedDnsIdentifier),
    (ascii ''xn---*.b.a'', ascii ''xn--a.b.a'', Err MalformedDnsIdentifier),
    (ascii ''c*.b.a'', ascii ''c.b.a'', Err MalformedDnsIdentifier)]"

definition PRESENTED_MATCHES_REFERENCE_2 :: "(bytes \<times> bytes \<times> bool result) list" where
  "PRESENTED_MATCHES_REFERENCE_2 = [
    (ascii ''foo.com'', ascii ''foo.com'', Ok True),
    (ascii ''f'', ascii ''f'', Ok True),
    (ascii ''i'', ascii ''h'', Ok False),
    (ascii ''*.foo.com'', ascii ''bar.foo.com'', Ok True),
    (ascii ''*.test.fr'', ascii ''www.test.fr'', Ok True),
    (ascii ''*.test.FR'', ascii ''wwW.tESt.fr'', Ok True),
    (ascii ''.uk'', ascii ''f.uk'', Err MalformedDnsIdentifier),
    (ascii ''?.bar.foo.com'', ascii ''w.bar.foo.com'', Err MalformedDnsIdentifier),
    (ascii ''(www|ftp).foo.com'', ascii ''www.foo.com'', Err MalformedDnsIdentifier),
    (ascii ''www.foo.com'' @ [0], ascii ''www.foo.com'', Err MalformedDnsIdentifier),
    (ascii ''www.foo.com'' @ [0] @ ascii ''*.foo.com'', ascii ''www.foo.com'', Err MalformedDnsIdentifier),
    (ascii ''ww.house.example'', ascii ''www.house.example'', Ok False),
    (ascii ''www.test.org'', ascii ''test.org'', Ok False),
    (ascii ''*.test.org'', ascii ''test.org'', Ok False),
    (ascii ''*.org'', ascii ''test.org'', Err MalformedDnsIdentifier),
    (ascii ''w*.bar.foo.com'', ascii ''w.bar.foo.com'', Err MalformedDnsIdentifier),
    (ascii ''ww*ww.bar.foo.com'', ascii ''www.bar.foo.com'', Err MalformedDnsIdentifier),
    (ascii ''ww*ww.bar.foo.com'', ascii ''wwww.bar.foo.com'', Err MalformedDnsIdentifier),
    (ascii ''w*w.bar.foo.com'', ascii ''wwww.bar.foo.com'', Err MalformedDnsIdentifier),
    (ascii ''w*w.bar.foo.c0m'', ascii ''wwww.bar.foo.com'', Err MalformedDnsIdentifier),
    (ascii ''wa*.bar.foo.com'', ascii ''WALLY.bar.foo.com'', Err MalformedDnsIdentifier),
    (ascii ''*Ly.bar.foo.com'', ascii ''wally.bar.foo.com'', Err MalformedDnsIdentifier),
    (ascii ''*.test.de'', ascii ''www.test.co.jp'', Ok False),
    (ascii ''*.jp'', ascii ''www.test.co.jp'', Err MalformedDnsIdentifier),
    (ascii ''www.test.co.uk'', ascii ''www.test.co.jp'', Ok False),
    (ascii ''www.*.co.jp'', ascii ''www.test.co.jp'', Err MalformedDnsIdentifier),
    (ascii ''www.bar.foo.com'', ascii ''www.bar.foo.com'', Ok True),
    (ascii ''*.foo.com'', ascii ''www.bar.foo.com'', Ok False),
    (ascii ''*.*.foo.com'', ascii ''www.bar.foo.com'', Err MalformedDnsIdentifier),
    (ascii ''www.bath.org'', ascii ''www.bath.org'', Ok True),
    (ascii ''xn--poema-9qae5a.com.br'', ascii ''xn--poema-9qae5a.com.br'', Ok True),
    (ascii ''*.xn--poema-9qae5a.com.br'', ascii ''www.xn--poema-9qae5a.com.br'', Ok True),
    (ascii ''*.xn--poema-9qae5a.com.br'', ascii ''xn--poema-9qae5a.com.br'', Ok False),
    (ascii ''xn--poema-*.com.br'', ascii ''xn--poema-9qae5a.com.br'', Err MalformedDnsIdentifier),
    (ascii ''xn--*-9qae5a.com.br'', ascii ''xn--poema-9qae5a.com.br'', Err MalformedDnsIdentifier)]"

definition PRESENTED_MATCHES_REFERENCE_3 :: "(bytes \<times> bytes \<times> bool result) list" where
  "PRESENTED_MATCHES_REFERENCE_3 = [
    (ascii ''*--poema-9qae5a.com.br'', ascii ''xn--poema-9qae5a.com.br'', Err MalformedDnsIdentifier),
    (ascii ''*.example.com'', ascii ''foo.example.com'', Ok True),
    (ascii ''*.example.com'', ascii ''bar.foo.example.com'', Ok False),
    (ascii ''*.example.com'', ascii ''example.com'', Ok False),
    (ascii ''baz*.example.net'', ascii ''baz1.example.net'', Err MalformedDnsIdentifier),
    (ascii ''*baz.example.net'', ascii ''foobaz.example.net'', Err MalformedDnsIdentifier),
    (ascii ''b*z.example.net'', ascii ''buzz.example.net'', Err MalformedDnsIdentifier),
    (ascii ''*.test.example'', ascii ''www.test.example'', Ok True),
    (ascii ''*.example.co.uk'', ascii ''test.example.co.uk'', Ok True),
    (ascii ''*.example'', ascii ''test.example'', Err MalformedDnsIdentifier),
    (ascii ''*.co.uk'', ascii ''example.co.uk'', Ok True),
    (ascii ''*.com'', ascii ''foo.com'', Err MalformedDnsIdentifier),
    (ascii ''*.us'', ascii ''foo.us'', Err MalformedDnsIdentifier),
    (ascii ''*'', ascii ''foo'', Err MalformedDnsIdentifier),
    (ascii ''*.xn--poema-9qae5a.com.br'', ascii ''www.xn--poema-9qae5a.com.br'', Ok True),
    (ascii ''*.example.xn--mgbaam7a8h'', ascii ''test.example.xn--mgbaam7a8h'', Ok True),
    (ascii ''*.com.br'', ascii ''xn--poema-9qae5a.com.br'', Ok True),
    (ascii ''*.xn--mgbaam7a8h'', ascii ''example.xn--mgbaam7a8h'', Err MalformedDnsIdentifier),
    (ascii ''*.appspot.com'', ascii ''www.appspot.com'', Ok True),
    (ascii ''*.s3.amazonaws.com'', ascii ''foo.s3.amazonaws.com'', Ok True),
    (ascii ''*.*.com'', ascii ''foo.example.com'', Err MalformedDnsIdentifier),
    (ascii ''*.bar.*.com'', ascii ''foo.bar.example.com'', Err MalformedDnsIdentifier),
    (ascii ''foo.com.'', ascii ''foo.com'', Err MalformedDnsIdentifier),
    (ascii ''foo.com'', ascii ''foo.com.'', Ok True),
    (ascii ''foo.com.'', ascii ''foo.com.'', Err MalformedDnsIdentifier),
    (ascii ''f.'', ascii ''f'', Err MalformedDnsIdentifier),
    (ascii ''f'', ascii ''f.'', Ok True),
    (ascii ''f.'', ascii ''f.'', Err MalformedDnsIdentifier),
    (ascii ''*.bar.foo.com.'', ascii ''www-3.bar.foo.com'', Err MalformedDnsIdentifier),
    (ascii ''*.bar.foo.com'', ascii ''www-3.bar.foo.com.'', Ok True),
    (ascii ''*.bar.foo.com.'', ascii ''www-3.bar.foo.com.'', Err MalformedDnsIdentifier),
    (ascii ''*.com.'', ascii ''example.com'', Err MalformedDnsIdentifier),
    (ascii ''*.com'', ascii ''example.com.'', Err MalformedDnsIdentifier),
    (ascii ''*.com.'', ascii ''example.com.'', Err MalformedDnsIdentifier),
    (ascii ''*.'', ascii ''foo.'', Err MalformedDnsIdentifier),
    (ascii ''*.'', ascii ''foo'', Err MalformedDnsIdentifier),
    (ascii ''*.co.uk.'', ascii ''foo.co.uk'', Err MalformedDnsIdentifier),
    (ascii ''*.co.uk.'', ascii ''foo.co.uk.'', Err MalformedDnsIdentifier)]"

definition PRESENTED_MATCHES_REFERENCE :: "(bytes \<times> bytes \<times> bool result) list" where
  "PRESENTED_MATCHES_REFERENCE =
    PRESENTED_MATCHES_REFERENCE_1 @ PRESENTED_MATCHES_REFERENCE_2 @ PRESENTED_MATCHES_REFERENCE_3"

definition presented_matches_reference_test :: "'r untrusted \<Rightarrow> bool" where
  "presented_matches_reference_test U \<longleftrightarrow>
    list_all (\<lambda>(presented, reference, expected_result).
      presented_id_matches_reference_id U presented reference = expected_result) PRESENTED_MATCHES_REFERENCE"

section \<open>Presented identifiers and constraints\<close>

definition DNS_PRESENTED_MATCHES_CONSTRAINT :: "(bytes \<times> bytes \<times> bool result) list" where
  "DNS_PRESENTED_MATCHES_CONSTRAINT = [
    (ascii ''.'', [], Err MalformedDnsIdentifier),
    (ascii ''www.example.com.'', [], Err MalformedDnsIdentifier),
    (ascii ''www.example.com.'', ascii ''www.example.com.'', Err MalformedDnsIdentifier),
    (ascii ''www.example.com'', ascii ''.'', Err MalformedNameConstraint),
    (ascii ''www.example.com'', ascii ''www.example.com.'', Err MalformedNameConstraint),
    (ascii ''www.example.com'', ascii ''*.example.com'', Err MalformedNameConstraint),
    ([], [], Err MalformedDnsIdentifier),
    (ascii ''example.com'', [], Ok True),
    (ascii ''*.example.com'', [], Ok True),
    (ascii ''www.example.com'', ascii ''.example.com'', Ok True),
    (ascii ''www.example.com'', ascii ''.EXAMPLE.COM'', Ok True),
    (ascii ''www.example.com'', ascii ''.axample.com'', Ok False),
    (ascii ''www.example.com'', ascii ''.xample.com'', Ok False),
    (ascii ''www.example.com'', ascii ''.exampl.com'', Ok False),
    (ascii ''badexample.com'', ascii ''.example.com'', Ok False),
    (ascii ''www.example.com'', ascii ''example.com'', Ok True),
    (ascii ''www.example.com'', ascii ''EXAMPLE.COM'', Ok True),
    (ascii ''www.example.com'', ascii ''axample.com'', Ok False),
    (ascii ''www.example.com'', ascii ''xample.com'', Ok False),
    (ascii ''www.example.com'', ascii ''exampl.com'', Ok False),
    (ascii ''badexample.com'', ascii ''example.com'', Ok False),
    (ascii ''*.example.com'', ascii ''.example.com'', Ok True),
    (ascii ''*.example.com'', ascii ''example.com'', Ok True),
    (ascii ''*.example.com'', ascii ''www.example.com'', Ok True),
    (ascii ''*.example.com'', ascii ''www.EXAMPLE.COM'', Ok True),
    (ascii ''*.example.com'', ascii ''www.axample.com'', Ok False),
    (ascii ''*.example.com'', ascii ''.xample.com'', Ok False),
    (ascii ''*.example.com'', ascii ''xample.com'', Ok False),
    (ascii ''*.example.com'', ascii ''.exampl.com'', Ok False),
    (ascii ''*.example.com'', ascii ''exampl.com'', Ok False),
    (ascii ''www.example.com'', ascii ''www.example.com'', Ok True)]"

definition dns_presented_matches_constraint_test :: "'r untrusted \<Rightarrow> bool" where
  "dns_presented_matches_constraint_test U \<longleftrightarrow>
    list_all (\<lambda>(presented, constraint, expected_result).
      presented_id_matches_constraint U presented constraint = expected_result) DNS_PRESENTED_MATCHES_CONSTRAINT"

section \<open>Every case holds\<close>

lemma reference_cases_1:
  "list_all (\<lambda>(p, r, x). presented_id_matches_reference_id L p r = x) PRESENTED_MATCHES_REFERENCE_1"
  by code_simp

lemma reference_cases_2:
  "list_all (\<lambda>(p, r, x). presented_id_matches_reference_id L p r = x) PRESENTED_MATCHES_REFERENCE_2"
  by code_simp

lemma reference_cases_3:
  "list_all (\<lambda>(p, r, x). presented_id_matches_reference_id L p r = x) PRESENTED_MATCHES_REFERENCE_3"
  by code_simp

lemma constraint_cases: "dns_presented_matches_constraint_test L"
  by code_simp

lemma dns_tests: "presented_matches_reference_test L" "dns_presented_matches_constraint_test L"
  using reference_cases_1 reference_cases_2 reference_cases_3 constraint_cases
  by (simp_all add: presented_matches_reference_test_def PRESENTED_MATCHES_REFERENCE_def)

end
