(* ===== verification/Ip_Tables.thy ===== *)
theory Ip_Tables
  imports Ip_Text Ip_Block Dns_Tables
begin

text \<open>
  The test tables of \<^verbatim>\<open>src/subject_name/ip_address.rs\<close>, proved of the model: what the parsers, printers and comparisons are
  expected to give on chosen inputs. The error \<^verbatim>\<open>AddrParseError\<close> of a parser is \<open>None\<close>.
\<close>

section \<open>Text\<close>

definition ipv4_address :: "bytes \<Rightarrow> bytes \<Rightarrow> bytes \<times> IpAddrRef option" where
  "ipv4_address ip_address octets = (ip_address, Some (V4 ip_address octets))"

definition IPV4_ADDRESSES :: "(bytes \<times> IpAddrRef option) list" where
  "IPV4_ADDRESSES = [
    ipv4_address (ascii ''0.0.0.0'') [0, 0, 0, 0],
    ipv4_address (ascii ''1.1.1.1'') [1, 1, 1, 1],
    ipv4_address (ascii ''205.0.0.0'') [205, 0, 0, 0],
    ipv4_address (ascii ''0.205.0.0'') [0, 205, 0, 0],
    ipv4_address (ascii ''0.0.205.0'') [0, 0, 205, 0],
    ipv4_address (ascii ''0.0.0.205'') [0, 0, 0, 205],
    ipv4_address (ascii ''0.0.0.20'') [0, 0, 0, 20],
    ([], None),
    (ascii ''...'', None),
    (ascii ''.0.0.0.0'', None),
    (ascii ''0.0.0.0.'', None),
    (ascii ''0.0.0'', None),
    (ascii ''0.0.0.'', None),
    (ascii ''256.0.0.0'', None),
    (ascii ''0.256.0.0'', None),
    (ascii ''0.0.256.0'', None),
    (ascii ''0.0.0.256'', None),
    (ascii ''1..1.1.1'', None),
    (ascii ''1.1..1.1'', None),
    (ascii ''1.1.1..1'', None),
    (ascii ''025.0.0.0'', None),
    (ascii ''0.025.0.0'', None),
    (ascii ''0.0.025.0'', None),
    (ascii ''0.0.0.025'', None),
    (ascii ''1234.0.0.0'', None),
    (ascii ''0.1234.0.0'', None),
    (ascii ''0.0.1234.0'', None),
    (ascii ''0.0.0.1234'', None)]"

definition parse_ipv4_address_test :: "'r untrusted \<Rightarrow> bool" where
  "parse_ipv4_address_test U \<longleftrightarrow>
    list_all (\<lambda>(ip_address, expected_result). parse_ipv4_address U ip_address = Ok expected_result) IPV4_ADDRESSES"

definition ipv6_address :: "bytes \<Rightarrow> bytes \<Rightarrow> bytes \<times> IpAddrRef option" where
  "ipv6_address ip_address octets = (ip_address, Some (V6 ip_address octets))"

definition IPV6_ADDRESSES_1 :: "(bytes \<times> IpAddrRef option) list" where
  "IPV6_ADDRESSES_1 = [
    ipv6_address (ascii ''2a05:d018:076c:b685:e8ab:afd3:af51:3aed'')
      [0x2a, 0x05, 0xd0, 0x18, 0x07, 0x6c, 0xb6, 0x85, 0xe8, 0xab, 0xaf, 0xd3, 0xaf, 0x51, 0x3a, 0xed],
    ipv6_address (ascii ''2A05:D018:076C:B685:E8AB:AFD3:AF51:3AED'')
      [0x2a, 0x05, 0xd0, 0x18, 0x07, 0x6c, 0xb6, 0x85, 0xe8, 0xab, 0xaf, 0xd3, 0xaf, 0x51, 0x3a, 0xed],
    ipv6_address (ascii ''ffff:ffff:ffff:ffff:ffff:ffff:ffff:ffff'')
      [0xff, 0xff, 0xff, 0xff, 0xff, 0xff, 0xff, 0xff, 0xff, 0xff, 0xff, 0xff, 0xff, 0xff, 0xff, 0xff],
    ipv6_address (ascii ''FFFF:FFFF:FFFF:FFFF:FFFF:FFFF:FFFF:FFFF'')
      [0xff, 0xff, 0xff, 0xff, 0xff, 0xff, 0xff, 0xff, 0xff, 0xff, 0xff, 0xff, 0xff, 0xff, 0xff, 0xff],
    ipv6_address (ascii ''FFFF:ffff:ffff:ffff:ffff:ffff:ffff:ffff'')
      [0xff, 0xff, 0xff, 0xff, 0xff, 0xff, 0xff, 0xff, 0xff, 0xff, 0xff, 0xff, 0xff, 0xff, 0xff, 0xff],
    (ascii ''aaa:ffff:ffff:ffff:ffff:ffff:ffff:ffff'', None),
    (ascii ''ffff:aaa:ffff:ffff:ffff:ffff:ffff:ffff'', None),
    (ascii ''ffff:ffff:aaa:ffff:ffff:ffff:ffff:ffff'', None),
    (ascii ''ffff:ffff:ffff:aaa:ffff:ffff:ffff:ffff'', None),
    (ascii ''ffff:ffff:ffff:ffff:aaa:ffff:ffff:ffff'', None),
    (ascii ''ffff:ffff:ffff:ffff:ffff:aaa:ffff:ffff'', None),
    (ascii ''ffff:ffff:ffff:ffff:ffff:ffff:aaa:ffff'', None),
    (ascii ''ffff:ffff:ffff:ffff:ffff:ffff:ffff:aaa'', None),
    (ascii ''ffgf:ffff:ffff:ffff:ffff:ffff:ffff:ffff'', None),
    (ascii ''ffff:gfff:ffff:ffff:ffff:ffff:ffff:ffff'', None),
    (ascii ''ffff:ffff:fffg:ffff:ffff:ffff:ffff:ffff'', None),
    (ascii ''ffff:ffff:ffff:ffgf:ffff:ffff:ffff:ffff'', None),
    (ascii ''ffff:ffff:ffff:ffff:gfff:ffff:ffff:ffff'', None),
    (ascii ''ffff:ffff:ffff:ffff:ffff:fgff:ffff:ffff'', None),
    (ascii ''ffff:ffff:ffff:ffff:ffff:ffff:ffgf:ffff'', None),
    (ascii ''ffff:ffff:ffff:ffff:ffff:ffff:ffgf:fffg'', None)]"

definition IPV6_ADDRESSES_2 :: "(bytes \<times> IpAddrRef option) list" where
  "IPV6_ADDRESSES_2 = [
    (ascii '':ffff:ffff:ffff:ffff:ffff:ffff:ffff:ffff'', None),
    (ascii ''ffff::ffff:ffff:ffff:ffff:ffff:ffff:ffff'', None),
    (ascii ''ffff:ffff::ffff:ffff:ffff:ffff:ffff:ffff'', None),
    (ascii ''ffff:ffff:ffff::ffff:ffff:ffff:ffff:ffff'', None),
    (ascii ''ffff:ffff:ffff:ffff::ffff:ffff:ffff:ffff'', None),
    (ascii ''ffff:ffff:ffff:ffff:ffff::ffff:ffff:ffff'', None),
    (ascii ''ffff:ffff:ffff:ffff:ffff:ffff::ffff:ffff'', None),
    (ascii ''ffff:ffff:ffff:ffff:ffff:ffff:ffff::ffff'', None),
    (ascii ''ffff:ffff:ffff:ffff:ffff:ffff:ffff:ffff:'', None),
    (ascii ''ffff:ffff:ffff:ffff:ffff:ffff:ffff:ffff:ffff'', None),
    ([0xc3] @ [0x28] @ ascii ''a05:d018:076c:b685:e8ab:afd3:af51:3aed'', None),
    (ascii ''ga05:d018:076c:b685:e8ab:afd3:af51:3aed'', None),
    (ascii '':a05:d018:076c:b685:e8ab:afd3:af51:3aed'', None),
    (ascii ''2a05:d018:076c:b685:e8ab:afd3:af51:3ae:'', None),
    (ascii ''2a05:d018:076c:b685:e8ab:afd3:af51:3a::'', None),
    (ascii ''2a05::018:076c:b685:e8ab:afd3:af51:3aed'', None),
    (ascii ''2a056:d018:076c:b685:e8ab:afd3:af51:3ae'', None),
    (ascii ''2a0:d018:076c:b685:e8ab:afd3:af51:3aed '', None),
    (ascii ''d018:076c:b685:e8ab:afd3:af51:3aed'', None),
    (ascii ''2a05:d018:076c:b685:e8ab:afd3:af51:3aed3aed'', None),
    (ascii ''0:0:0:0:0:0:0:1'', None),
    (ascii ''2a05:d018:76c:b685:e8ab:afd3:af51:3aed'', None)]"

definition IPV6_ADDRESSES :: "(bytes \<times> IpAddrRef option) list" where
  "IPV6_ADDRESSES = IPV6_ADDRESSES_1 @ IPV6_ADDRESSES_2"

definition parse_ipv6_address_test :: "'r untrusted \<Rightarrow> bool" where
  "parse_ipv6_address_test U \<longleftrightarrow>
    list_all (\<lambda>(ip_address, expected_result). parse_ipv6_address U ip_address = Ok expected_result) IPV6_ADDRESSES"

abbreviation loopback4 :: bytes where "loopback4 \<equiv> ascii ''127.0.0.1''"
abbreviation loopback6 :: bytes where "loopback6 \<equiv> ascii ''0000:0000:0000:0000:0000:0000:0000:0001''"

definition IP_ADDRESSES :: "(bytes \<times> IpAddrRef option) list" where
  "IP_ADDRESSES = [
    (loopback4, Some (V4 loopback4 [127, 0, 0, 1])),
    (ascii ''127.0.0.'', None),
    (loopback6, Some (V6 loopback6 [0, 0, 0, 0, 0, 0, 0, 0, 0, 0, 0, 0, 0, 0, 0, 1])),
    (ascii ''0:0:0:0:0:0:0:1'', None),
    (ascii ''example.com'', None)]"

definition try_from_ascii_ip_address_test :: "'r untrusted \<Rightarrow> bool" where
  "try_from_ascii_ip_address_test U \<longleftrightarrow>
    list_all (\<lambda>(ip_address, expected_result). ip_addr_ref_try_from_ascii U ip_address = Ok expected_result) IP_ADDRESSES"

text \<open>The table of the test for strings has the same rows, and a string is its bytes.\<close>

definition try_from_ascii_str_ip_address_test :: "'r untrusted \<Rightarrow> bool" where
  "try_from_ascii_str_ip_address_test U \<longleftrightarrow>
    list_all (\<lambda>(ip_address, expected_result). ip_addr_ref_try_from_ascii_str U ip_address = Ok expected_result) IP_ADDRESSES"

definition ref_addresses :: "(IpAddrRef \<times> bytes) list" where
  "ref_addresses = [
    (V4 loopback4 [127, 0, 0, 1], loopback4),
    (V6 loopback6 [0, 0, 0, 0, 0, 0, 0, 0, 0, 0, 0, 0, 0, 0, 0, 1], loopback6)]"

definition str_from_ip_address_ref_test :: bool where
  "str_from_ip_address_ref_test \<longleftrightarrow>
    list_all (\<lambda>(ip_address, expected_ip_address). ip_addr_ref_into_str ip_address = Ok expected_ip_address) ref_addresses"

definition u8_array_from_ip_address_ref_test :: bool where
  "u8_array_from_ip_address_ref_test \<longleftrightarrow>
    list_all (\<lambda>(ip_address, expected_ip_address). ip_addr_ref_into_bytes ip_address = expected_ip_address) ref_addresses"

section \<open>Owned addresses\<close>

definition as_ref_ip_address_test :: bool where
  "as_ref_ip_address_test \<longleftrightarrow>
    ip_addr_as_ref_str (Owned_V4 loopback4 [127, 0, 0, 1]) = loopback4 \<and>
    ip_addr_as_ref_str (Owned_V6 loopback6 [0, 0, 0, 0, 0, 0, 0, 0, 0, 0, 0, 0, 0, 0, 0, 1]) = loopback6"

definition from_ip_address_ref_for_ip_address_test :: bool where
  "from_ip_address_ref_for_ip_address_test \<longleftrightarrow>
    ip_addr_from_ref (V4 loopback4 [127, 0, 0, 1]) = Ok (Owned_V4 loopback4 [127, 0, 0, 1]) \<and>
    ip_addr_from_ref (V6 loopback6 [0, 0, 0, 0, 0, 0, 0, 0, 0, 0, 0, 0, 0, 0, 0, 1]) =
      Ok (Owned_V6 loopback6 [0, 0, 0, 0, 0, 0, 0, 0, 0, 0, 0, 0, 0, 0, 0, 1])"

definition from_ip_address_for_ip_address_ref_test :: bool where
  "from_ip_address_for_ip_address_ref_test \<longleftrightarrow>
    ip_addr_ref_from (Owned_V4 loopback4 [127, 0, 0, 1]) = V4 loopback4 [127, 0, 0, 1] \<and>
    ip_addr_ref_from (Owned_V6 loopback6 [0, 0, 0, 0, 0, 0, 0, 0, 0, 0, 0, 0, 0, 0, 0, 1]) =
      V6 loopback6 [0, 0, 0, 0, 0, 0, 0, 0, 0, 0, 0, 0, 0, 0, 0, 1]"

definition ip_address_ref_to_owned_test :: bool where
  "ip_address_ref_to_owned_test \<longleftrightarrow>
    ip_addr_ref_to_owned (V4 loopback4 [127, 0, 0, 1]) = Ok (Owned_V4 loopback4 [127, 0, 0, 1]) \<and>
    ip_addr_ref_to_owned (V6 loopback6 [0, 0, 0, 0, 0, 0, 0, 0, 0, 0, 0, 0, 0, 0, 0, 1]) =
      Ok (Owned_V6 loopback6 [0, 0, 0, 0, 0, 0, 0, 0, 0, 0, 0, 0, 0, 0, 0, 1])"

definition ip_address_from_std_net_ipaddr_test :: bool where
  "ip_address_from_std_net_ipaddr_test \<longleftrightarrow>
    list_all (\<lambda>(ip_address, expected_ip_address). ip_addr_from_std ip_address = expected_ip_address) [
      (Std_V4 [127, 0, 0, 1], Owned_V4 loopback4 [127, 0, 0, 1]),
      (Std_V6 [0, 0, 0, 0, 0, 0, 0, 0, 0, 0, 0, 0, 0, 0, 0, 1],
       Owned_V6 loopback6 [0, 0, 0, 0, 0, 0, 0, 0, 0, 0, 0, 0, 0, 0, 0, 1])]"

definition ipv6_to_uncompressed_string_test :: bool where
  "ipv6_to_uncompressed_string_test \<longleftrightarrow>
    list_all (\<lambda>(ip_address_octets, expected_result). ipv6_to_uncompressed_string ip_address_octets = expected_result) [
      ([0, 0, 0, 0, 0, 0, 0, 0, 0, 0, 0, 0, 0, 0, 0, 1], loopback6),
      ([0x2a, 0x05, 0xd0, 0x18, 0x07, 0x6c, 0xb6, 0x84, 0x8e, 0x48, 0x47, 0xc9, 0x84, 0xaa, 0xb3, 0x4d],
       ascii ''2a05:d018:076c:b684:8e48:47c9:84aa:b34d'')]"

section \<open>Comparisons\<close>

text \<open>A case of a comparison with a constraint.\<close>

definition constraint_case :: "'r untrusted \<Rightarrow> bytes \<times> bytes \<times> bool result \<Rightarrow> bool" where
  "constraint_case U = (\<lambda>(name, constraint, match_result). ip_presented_id_matches_constraint U name constraint = match_result)"

definition ipv4_names_and_constraints :: "(bytes \<times> bytes \<times> bool result) list" where
  "ipv4_names_and_constraints = [
    ([0xC0, 0x00, 0x02, 0x00], [0xC0, 0x00, 0x02, 0x00, 0xFF, 0xFF, 0xFF, 0x00], Ok True),
    ([0xC0, 0x00, 0x02, 0x01], [0xC0, 0x00, 0x02, 0x00, 0xFF, 0xFF, 0xFF, 0x00], Ok True),
    ([0xC0, 0x00, 0x02, 0xFF], [0xC0, 0x00, 0x02, 0x00, 0xFF, 0xFF, 0xFF, 0x00], Ok True),
    ([0xC0, 0x00, 0x01, 0xFF], [0xC0, 0x00, 0x02, 0x00, 0xFF, 0xFF, 0xFF, 0x00], Ok False),
    ([0xC0, 0x00, 0x03, 0x00], [0xC0, 0x00, 0x02, 0x00, 0xFF, 0xFF, 0xFF, 0x00], Ok False),
    ([0xC0, 0x00, 0x02], [0xC0, 0x00, 0x02, 0x00, 0xFF, 0xFF, 0xFF, 0x00], Err BadDer),
    ([0xC0, 0x00, 0x02, 0x00, 0x00], [0xC0, 0x00, 0x02, 0x00, 0xFF, 0xFF, 0xFF, 0x00], Err BadDer),
    ([0xC0, 0x00, 0x02, 0x00], [0xC0, 0x00, 0x02, 0x00, 0xFF, 0xFF, 0xFF], Err InvalidNetworkMaskConstraint),
    ([0xC0, 0x00, 0x02, 0x00], [0xC0, 0x00, 0x02, 0x00, 0xFF, 0xFF, 0xFF, 0x00, 0x00], Err InvalidNetworkMaskConstraint),
    ([0xC0, 0x00, 0x02, 0x00],
     [0x20, 0x01, 0x0D, 0xB8, 0xAB, 0xCD, 0x00, 0x12, 0x00, 0x00, 0x00, 0x00, 0x00, 0x00, 0x00, 0x00,
      0xFF, 0xFF, 0xFF, 0xFF, 0xFF, 0xFF, 0xFF, 0xFF, 0x00, 0x00, 0x00, 0x00, 0x00, 0x00, 0x00, 0x00],
     Ok False)]"

definition presented_id_matches_constraint_ipv4_test :: "'r untrusted \<Rightarrow> bool" where
  "presented_id_matches_constraint_ipv4_test U \<longleftrightarrow> list_all (constraint_case U) ipv4_names_and_constraints"

definition ipv6_names_and_constraints :: "(bytes \<times> bytes \<times> bool result) list" where
  "ipv6_names_and_constraints = [
    ([0x20, 0x01, 0x0D, 0xB8, 0xAB, 0xCD, 0x00, 0x12, 0x00, 0x00, 0x00, 0x00, 0x00, 0x00, 0x00, 0x00],
     [0x20, 0x01, 0x0D, 0xB8, 0xAB, 0xCD, 0x00, 0x12, 0x00, 0x00, 0x00, 0x00, 0x00, 0x00, 0x00, 0x00,
      0xFF, 0xFF, 0xFF, 0xFF, 0xFF, 0xFF, 0xFF, 0xFF, 0x00, 0x00, 0x00, 0x00, 0x00, 0x00, 0x00, 0x00],
     Ok True),
    ([0x20, 0x01, 0x0D, 0xB8, 0xAB, 0xCD, 0x00, 0x12, 0x00, 0x00, 0x00, 0x00, 0x00, 0x00, 0x00, 0x01],
     [0x20, 0x01, 0x0D, 0xB8, 0xAB, 0xCD, 0x00, 0x12, 0x00, 0x00, 0x00, 0x00, 0x00, 0x00, 0x00, 0x00,
      0xFF, 0xFF, 0xFF, 0xFF, 0xFF, 0xFF, 0xFF, 0xFF, 0x00, 0x00, 0x00, 0x00, 0x00, 0x00, 0x00, 0x00],
     Ok True),
    ([0x20, 0x01, 0x0D, 0xB8, 0xAB, 0xCD, 0x00, 0x12, 0xFF, 0xFF, 0xFF, 0xFF, 0xFF, 0xFF, 0xFF, 0xFF],
     [0x20, 0x01, 0x0D, 0xB8, 0xAB, 0xCD, 0x00, 0x12, 0x00, 0x00, 0x00, 0x00, 0x00, 0x00, 0x00, 0x00,
      0xFF, 0xFF, 0xFF, 0xFF, 0xFF, 0xFF, 0xFF, 0xFF, 0x00, 0x00, 0x00, 0x00, 0x00, 0x00, 0x00, 0x00],
     Ok True),
    ([0x20, 0x01, 0x0D, 0xB8, 0xAB, 0xCD, 0x00, 0x11, 0x00, 0x00, 0x00, 0x00, 0x00, 0x00, 0x00, 0x00],
     [0x20, 0x01, 0x0D, 0xB8, 0xAB, 0xCD, 0x00, 0x12, 0x00, 0x00, 0x00, 0x00, 0x00, 0x00, 0x00, 0x00,
      0xFF, 0xFF, 0xFF, 0xFF, 0xFF, 0xFF, 0xFF, 0xFF, 0x00, 0x00, 0x00, 0x00, 0x00, 0x00, 0x00, 0x00],
     Ok False),
    ([0x20, 0x01, 0x0D, 0xB8, 0xAB, 0xCD, 0x00, 0x13, 0x00, 0x00, 0x00, 0x00, 0x00, 0x00, 0x00, 0x00],
     [0x20, 0x01, 0x0D, 0xB8, 0xAB, 0xCD, 0x00, 0x12, 0x00, 0x00, 0x00, 0x00, 0x00, 0x00, 0x00, 0x00,
      0xFF, 0xFF, 0xFF, 0xFF, 0xFF, 0xFF, 0xFF, 0xFF, 0x00, 0x00, 0x00, 0x00, 0x00, 0x00, 0x00, 0x00],
     Ok False)]"

definition ipv6_lengths :: "(bytes \<times> bytes \<times> bool result) list" where
  "ipv6_lengths = [
    ([0x20, 0x01, 0x0D, 0xB8, 0xAB, 0xCD, 0x00, 0x12, 0x00, 0x00, 0x00, 0x00, 0x00, 0x00, 0x00],
     [0x20, 0x01, 0x0D, 0xB8, 0xAB, 0xCD, 0x00, 0x12, 0x00, 0x00, 0x00, 0x00, 0x00, 0x00, 0x00, 0x00,
      0xFF, 0xFF, 0xFF, 0xFF, 0xFF, 0xFF, 0xFF, 0xFF, 0x00, 0x00, 0x00, 0x00, 0x00, 0x00, 0x00, 0x00],
     Err BadDer),
    ([0x20, 0x01, 0x0D, 0xB8, 0xAB, 0xCD, 0x00, 0x12, 0x00, 0x00, 0x00, 0x00, 0x00, 0x00, 0x00, 0x00, 0x00],
     [0x20, 0x01, 0x0D, 0xB8, 0xAB, 0xCD, 0x00, 0x12, 0x00, 0x00, 0x00, 0x00, 0x00, 0x00, 0x00, 0x00,
      0xFF, 0xFF, 0xFF, 0xFF, 0xFF, 0xFF, 0xFF, 0xFF, 0x00, 0x00, 0x00, 0x00, 0x00, 0x00, 0x00, 0x00],
     Err BadDer),
    ([0x20, 0x01, 0x0D, 0xB8, 0xAB, 0xCD, 0x00, 0x12, 0x00, 0x00, 0x00, 0x00, 0x00, 0x00, 0x00, 0x00],
     [0x20, 0x01, 0x0D, 0xB8, 0xAB, 0xCD, 0x00, 0x12, 0x00, 0x00, 0x00, 0x00, 0x00, 0x00, 0x00, 0x00,
      0xFF, 0xFF, 0xFF, 0xFF, 0xFF, 0xFF, 0xFF, 0xFF, 0x00, 0x00, 0x00, 0x00, 0x00, 0x00, 0x00],
     Err InvalidNetworkMaskConstraint),
    ([0x20, 0x01, 0x0D, 0xB8, 0xAB, 0xCD, 0x00, 0x12, 0x00, 0x00, 0x00, 0x00, 0x00, 0x00, 0x00, 0x00],
     [0x20, 0x01, 0x0D, 0xB8, 0xAB, 0xCD, 0x00, 0x12, 0x00, 0x00, 0x00, 0x00, 0x00, 0x00, 0x00, 0x00,
      0xFF, 0xFF, 0xFF, 0xFF, 0xFF, 0xFF, 0xFF, 0xFF, 0x00, 0x00, 0x00, 0x00, 0x00, 0x00, 0x00, 0x00, 0x00],
     Err InvalidNetworkMaskConstraint),
    ([0x20, 0x01, 0x0D, 0xB8, 0xAB, 0xCD, 0x00, 0x12, 0x00, 0x00, 0x00, 0x00, 0x00, 0x00, 0x00, 0x00],
     [0xC0, 0x00, 0x02, 0x00, 0xFF, 0xFF, 0xFF, 0x00],
     Ok False)]"

definition presented_id_matches_constraint_ipv6_test :: "'r untrusted \<Rightarrow> bool" where
  "presented_id_matches_constraint_ipv6_test U \<longleftrightarrow>
    list_all (constraint_case U) ipv6_names_and_constraints \<and> list_all (constraint_case U) ipv6_lengths"

definition test_presented_id_matches_reference_id :: "'r untrusted \<Rightarrow> bool" where
  "test_presented_id_matches_reference_id U \<longleftrightarrow>
    ip_presented_id_matches_reference_id U [] [] = Ok False \<and>
    ip_presented_id_matches_reference_id U [0x01] [] = Ok False \<and>
    ip_presented_id_matches_reference_id U [] [0x01] = Ok False \<and>
    ip_presented_id_matches_reference_id U [1, 2, 3, 4] [1, 2, 3, 4] = Ok True \<and>
    ip_presented_id_matches_reference_id U [1, 2, 3, 4, 5, 6, 7, 8, 9, 10, 11, 12, 13, 14, 15, 16] [1, 2, 3, 4] = Ok False \<and>
    ip_presented_id_matches_reference_id U [1, 2, 3, 4] [1, 2, 3, 4, 5, 6, 7, 8, 9, 10, 11, 12, 13, 14, 15, 16] = Ok False \<and>
    ip_presented_id_matches_reference_id U [1, 2, 3, 4, 5, 6, 7, 8, 9, 10, 11, 12, 13, 14, 15, 16]
      [1, 2, 3, 4, 5, 6, 7, 8, 9, 10, 11, 12, 13, 14, 15, 16] = Ok True"

definition incorrect_length_arguments :: "(bytes \<times> bytes \<times> bool result) list" where
  "incorrect_length_arguments = [
    ([0, 0, 0], [], Err BadDer),
    ([0, 0, 0, 0, 0], [], Err BadDer),
    ([0, 0, 0, 0, 0, 0, 0, 0, 0, 0, 0, 0, 0, 0, 0], [], Err BadDer),
    ([0, 0, 0, 0, 0, 0, 0, 0, 0, 0, 0, 0, 0, 0, 0, 0, 0], [], Err BadDer),
    ([0, 0, 0, 0], [0, 0, 0, 0, 0xff, 0xff, 0xff], Err InvalidNetworkMaskConstraint),
    ([0, 0, 0, 0], [0, 0, 0, 0, 0xff, 0xff, 0xff, 0xff, 0], Err InvalidNetworkMaskConstraint),
    ([0, 0, 0, 0, 0, 0, 0, 0, 0, 0, 0, 0, 0, 0, 0, 0],
     [0, 0, 0, 0, 0, 0, 0, 0, 0, 0, 0, 0, 0, 0, 0, 0,
      0xff, 0xff, 0xff, 0xff, 0xff, 0xff, 0xff, 0xff, 0xff, 0xff, 0xff, 0xff, 0xff, 0xff, 0xff],
     Err InvalidNetworkMaskConstraint),
    ([0, 0, 0, 0, 0, 0, 0, 0, 0, 0, 0, 0, 0, 0, 0, 0],
     [0, 0, 0, 0, 0, 0, 0, 0, 0, 0, 0, 0, 0, 0, 0, 0,
      0xff, 0xff, 0xff, 0xff, 0xff, 0xff, 0xff, 0xff, 0xff, 0xff, 0xff, 0xff, 0xff, 0xff, 0xff, 0xff, 0xff],
     Err InvalidNetworkMaskConstraint),
    ([0, 0, 0, 0],
     [0, 0, 0, 0, 0, 0, 0, 0, 0, 0, 0, 0, 0, 0, 0, 0,
      0xff, 0xff, 0xff, 0xff, 0xff, 0xff, 0xff, 0xff, 0xff, 0xff, 0xff, 0xff, 0xff, 0xff, 0xff, 0xff],
     Ok False),
    ([0, 0, 0, 0, 0, 0, 0, 0, 0, 0, 0, 0, 0, 0, 0, 0], [0, 0, 0, 0, 0xff, 0xff, 0xff, 0xff], Ok False)]"

definition presented_id_matches_constraint_rejects_incorrect_length_arguments :: "'r untrusted \<Rightarrow> bool" where
  "presented_id_matches_constraint_rejects_incorrect_length_arguments U \<longleftrightarrow>
    list_all (constraint_case U) incorrect_length_arguments"

text \<open>
  The rows of the last table are texts that the test parses with the standard library. An IPv4 address is given by its four
  octets; all IPv6 addresses have the form \<^verbatim>\<open>a:b::\<close>, given by the numbers before the colons that stand for zeros.
\<close>

definition hextets :: "16 word list \<Rightarrow> bytes" where
  "hextets segments =
    concat (map (\<lambda>s. [ucast (drop_bit 8 s), ucast s]) segments) @ replicate (16 - 2 * length segments) 0"

definition IP_PRESENTED_MATCHES_CONSTRAINT :: "(bytes \<times> bytes \<times> bytes \<times> bool result) list" where
  "IP_PRESENTED_MATCHES_CONSTRAINT = [
    (hextets [0x2001, 0xdb8], [8, 8, 8, 8], [255, 255, 255, 255], Ok False),
    ([8, 8, 8, 8], hextets [0x2001, 0xdb8], hextets [0xffff], Ok False),
    ([8, 8, 8, 8], [8, 8, 8, 8], [255, 255, 255, 1], Err InvalidNetworkMaskConstraint),
    ([8, 8, 8, 8], [8, 8, 8, 8], [255, 255, 0, 255], Err InvalidNetworkMaskConstraint),
    ([8, 8, 8, 8], [8, 8, 8, 8], [255, 0, 255, 255], Err InvalidNetworkMaskConstraint),
    ([8, 8, 8, 8], [8, 8, 8, 8], [0, 255, 255, 255], Err InvalidNetworkMaskConstraint),
    ([8, 8, 8, 8], [8, 8, 8, 8], [1, 255, 255, 255], Err InvalidNetworkMaskConstraint),
    ([8, 8, 8, 8], [8, 8, 8, 8], [128, 128, 128, 128], Err InvalidNetworkMaskConstraint),
    ([8, 8, 8, 8], [8, 8, 8, 8], [255, 255, 255, 255], Ok True),
    ([8, 8, 8, 9], [8, 8, 8, 8], [255, 255, 255, 255], Ok False),
    ([8, 8, 8, 9], [8, 8, 8, 8], [255, 255, 255, 254], Ok True),
    ([8, 8, 8, 10], [8, 8, 8, 8], [255, 255, 255, 254], Ok False),
    ([8, 8, 8, 10], [8, 8, 8, 8], [255, 255, 255, 0], Ok True),
    ([8, 8, 15, 10], [8, 8, 8, 8], [255, 255, 248, 0], Ok True),
    ([8, 8, 16, 10], [8, 8, 8, 8], [255, 255, 248, 0], Ok False),
    ([8, 8, 16, 10], [8, 8, 8, 8], [255, 255, 0, 0], Ok True),
    ([8, 31, 16, 10], [8, 8, 8, 8], [255, 224, 0, 0], Ok True),
    ([8, 32, 16, 10], [8, 8, 8, 8], [255, 224, 0, 0], Ok False),
    ([8, 32, 16, 10], [8, 8, 8, 8], [255, 0, 0, 0], Ok True),
    ([63, 32, 16, 10], [8, 8, 8, 8], [192, 0, 0, 0], Ok True),
    ([64, 32, 16, 10], [8, 8, 8, 8], [192, 0, 0, 0], Ok False),
    ([64, 32, 16, 10], [8, 8, 8, 8], [0, 0, 0, 0], Ok True),
    (hextets [0x2001, 0xdb8], hextets [0x2001, 0xdb8], hextets [0xfffe, 0xffff], Err InvalidNetworkMaskConstraint),
    (hextets [0x2001, 0xdb8], hextets [0x2001, 0xdb8], hextets [0xffff, 0xfdff], Err InvalidNetworkMaskConstraint),
    (hextets [0x2001, 0xdb8], hextets [0x2001, 0xdb8], hextets [0xffff, 0xfeff], Err InvalidNetworkMaskConstraint),
    (hextets [0x2001, 0xdb8], hextets [0x2001, 0xdb8], hextets [0xffff, 0xfcff], Err InvalidNetworkMaskConstraint),
    (hextets [0x2001, 0xdb8], hextets [0x2001, 0xdb8], hextets [0x7fff, 0xffff], Err InvalidNetworkMaskConstraint),
    (hextets [0x2001, 0xdb8], hextets [0x2001, 0xdb8], hextets [0xffff, 0xffff], Ok True),
    (hextets [0x2001, 0xdb9], hextets [0x2001, 0xdb8], hextets [0xffff, 0xffff], Ok False),
    (hextets [0x2001, 0xdb9], hextets [0x2001, 0xdb8], hextets [0xffff, 0xfffe], Ok True),
    (hextets [0x2001, 0xdba], hextets [0x2001, 0xdb8], hextets [0xffff, 0xfffe], Ok False),
    (hextets [0x2001, 0xdba], hextets [0x2001, 0xdb8], hextets [0xffff, 0xff00], Ok True),
    (hextets [0x2001, 0xdca], hextets [0x2001, 0xdb8], hextets [0xffff, 0xfe00], Ok True),
    (hextets [0x2001, 0xfca], hextets [0x2001, 0xdb8], hextets [0xffff, 0xfe00], Ok False),
    (hextets [0x2001, 0xfca], hextets [0x2001, 0xdb8], hextets [0xffff, 0x0000], Ok True),
    (hextets [0x2000, 0xfca], hextets [0x2001, 0xdb8], hextets [0xfffe, 0x0000], Ok True),
    (hextets [0x2003, 0xfca], hextets [0x2001, 0xdb8], hextets [0xfffe, 0x0000], Ok False),
    (hextets [0x2003, 0xfca], hextets [0x2001, 0xdb8], hextets [0xff00, 0x0000], Ok True),
    (hextets [0x1003, 0xfca], hextets [0x2001, 0xdb8], hextets [0xe000, 0x0000], Ok False),
    (hextets [0x1003, 0xfca], hextets [0x2001, 0xdb8], hextets [0x0000, 0x0000], Ok True)]"

definition ip_presented_matches_constraint_test :: "'r untrusted \<Rightarrow> bool" where
  "ip_presented_matches_constraint_test U \<longleftrightarrow>
    list_all (\<lambda>(presented, constraint_address, constraint_mask, expected_result).
      ip_presented_id_matches_constraint U presented (constraint_address @ constraint_mask) = expected_result)
      IP_PRESENTED_MATCHES_CONSTRAINT"

section \<open>Every case holds\<close>

lemma ipv4_cases: "parse_ipv4_address_test L"
  by code_simp

lemma ipv6_cases:
  "list_all (\<lambda>(a, x). parse_ipv6_address L a = Ok x) IPV6_ADDRESSES_1"
  "list_all (\<lambda>(a, x). parse_ipv6_address L a = Ok x) IPV6_ADDRESSES_2"
  by code_simp+

lemma ipv6_test: "parse_ipv6_address_test L"
  using ipv6_cases by (simp add: parse_ipv6_address_test_def IPV6_ADDRESSES_def)

lemma ascii_cases: "try_from_ascii_ip_address_test L" "try_from_ascii_str_ip_address_test L"
  by code_simp+

lemma owned_cases:
  "str_from_ip_address_ref_test" "u8_array_from_ip_address_ref_test" "as_ref_ip_address_test"
  "from_ip_address_ref_for_ip_address_test" "from_ip_address_for_ip_address_ref_test" "ip_address_ref_to_owned_test"
  "ip_address_from_std_net_ipaddr_test" "ipv6_to_uncompressed_string_test"
  by code_simp+

lemma ip_constraint_cases:
  "presented_id_matches_constraint_ipv4_test L" "presented_id_matches_constraint_ipv6_test L"
  "test_presented_id_matches_reference_id L" "presented_id_matches_constraint_rejects_incorrect_length_arguments L"
  by code_simp+

lemma ip_block_cases: "ip_presented_matches_constraint_test L"
  by code_simp

context untrusted_reader
begin

lemma name_tests_indep:
  "presented_matches_reference_test U = presented_matches_reference_test L"
  "dns_presented_matches_constraint_test U = dns_presented_matches_constraint_test L"
  "parse_ipv4_address_test U = parse_ipv4_address_test L"
  "parse_ipv6_address_test U = parse_ipv6_address_test L"
  "try_from_ascii_ip_address_test U = try_from_ascii_ip_address_test L"
  "try_from_ascii_str_ip_address_test U = try_from_ascii_str_ip_address_test L"
  "presented_id_matches_constraint_ipv4_test U = presented_id_matches_constraint_ipv4_test L"
  "presented_id_matches_constraint_ipv6_test U = presented_id_matches_constraint_ipv6_test L"
  "test_presented_id_matches_reference_id U = test_presented_id_matches_reference_id L"
  "presented_id_matches_constraint_rejects_incorrect_length_arguments U =
    presented_id_matches_constraint_rejects_incorrect_length_arguments L"
  "ip_presented_matches_constraint_test U = ip_presented_matches_constraint_test L"
  unfolding presented_matches_reference_test_def dns_presented_matches_constraint_test_def parse_ipv4_address_test_def
    parse_ipv6_address_test_def try_from_ascii_ip_address_test_def try_from_ascii_str_ip_address_test_def
    presented_id_matches_constraint_ipv4_test_def presented_id_matches_constraint_ipv6_test_def
    test_presented_id_matches_reference_id_def presented_id_matches_constraint_rejects_incorrect_length_arguments_def
    ip_presented_matches_constraint_test_def constraint_case_def ip_addr_ref_try_from_ascii_str_def
    presented_id_matches_indep parse_ipv4_address_indep parse_ipv6_address_indep ip_addr_ref_try_from_ascii_indep
    ip_presented_id_matches_reference_id_indep ip_presented_id_matches_constraint_indep
  by (rule refl)+

end

end
