(* ===== verification/Unit_Tests.thy ===== *)
theory Unit_Tests
  imports Ip_Tables Verify_Cert Item_Loop
begin

text \<open>
  The unit tests of \<^verbatim>\<open>src/der.rs\<close>, \<^verbatim>\<open>src/time.rs\<close>, \<^verbatim>\<open>src/crl.rs\<close> and \<^verbatim>\<open>src/verify_cert.rs\<close> that need no files, as
  statements about the model. An \<^verbatim>\<open>assert\<close> of a test is a conjunct of it, and \<^verbatim>\<open>unwrap\<close> is the demand of a value \<open>Ok\<close>.
\<close>

unbundle bit_operations_syntax

section \<open>DER\<close>

text \<open>The result of a parser on fresh bytes, \<^verbatim>\<open>bytes_reader\<close> of the tests.\<close>

definition bytes_reader :: "'r untrusted \<Rightarrow> ('r, 'a) parser \<Rightarrow> bytes \<Rightarrow> 'a result" where
  "bytes_reader U p bs = fst (p (u_new U bs))"

definition test_optional_boolean :: "'r untrusted \<Rightarrow> bool" where
  "test_optional_boolean U \<longleftrightarrow>
    bytes_reader U (bool_from_der U) [] = Ok False \<and>
    bytes_reader U (bool_from_der U) [0x05, 0x00] = Ok False \<and>
    bytes_reader U (bool_from_der U) [0x01, 0x01, 0x42] = Err BadDer \<and>
    bytes_reader U (bool_from_der U) [0x01, 0x01, 0xff] = Ok True \<and>
    bytes_reader U (bool_from_der U) [0x01, 0x01, 0x00] = Ok False"

definition test_bit_string_with_no_unused_bits :: "'r untrusted \<Rightarrow> bool" where
  "test_bit_string_with_no_unused_bits U \<longleftrightarrow>
    bytes_reader U (bit_string_with_no_unused_bits U) [0x01, 0x01, 0xff] = Err (TrailingData TypeId_BitString) \<and>
    bytes_reader U (bit_string_with_no_unused_bits U) [0x42, 0xff, 0xff] = Err (TrailingData TypeId_BitString) \<and>
    bytes_reader U (bit_string_with_no_unused_bits U) [] = Err (TrailingData TypeId_BitString) \<and>
    bytes_reader U (bit_string_with_no_unused_bits U) [0x03, 0x03, 0x04, 0x12, 0x34] = Err BadDer \<and>
    bytes_reader U (bit_string_with_no_unused_bits U) [0x03, 0x03, 0x00, 0x12, 0x34] = Ok [0x12, 0x34]"

definition EXAMPLE_TAG :: u8 where
  "EXAMPLE_TAG = tag_u8 Tag_Sequence"

definition read_tag_and_get_value_default_limit :: "'r untrusted \<Rightarrow> bool" where
  "read_tag_and_get_value_default_limit U \<longleftrightarrow>
    list_all (\<lambda>input. bytes_reader U (read_tag_and_get_value U) input = Err BadDer)
      [[EXAMPLE_TAG, 0x83, 0xFF, 0xFF, 0xFF], [EXAMPLE_TAG, 0x84, 0xFF, 0xFF, 0xFF, 0xFF]]"

definition read_tag_and_get_value_limited_high_form :: "'r untrusted \<Rightarrow> bool" where
  "read_tag_and_get_value_limited_high_form U \<longleftrightarrow>
    bytes_reader U (read_tag_and_get_value_limited U LONG_FORM_LEN_TWO_BYTES_MAX) [0xFF] = Err BadDer"

definition read_tag_and_get_value_limited_non_canonical :: "'r untrusted \<Rightarrow> bool" where
  "read_tag_and_get_value_limited_non_canonical U \<longleftrightarrow>
    list_all (\<lambda>input. bytes_reader U (read_tag_and_get_value_limited U LONG_FORM_LEN_TWO_BYTES_MAX) input = Err BadDer)
      [[EXAMPLE_TAG, 0x81, 0x01], [EXAMPLE_TAG, 0x82, 0x00, 0x01], [EXAMPLE_TAG, 0x83, 0x00, 0x00, 0x01],
       [EXAMPLE_TAG, 0x84, 0x00, 0x00, 0x00, 0x01]]"

text \<open>The test cases are records of an input, a limit and an optional error.\<close>

definition read_tag_and_get_value_limited_limits :: "'r untrusted \<Rightarrow> bool" where
  "read_tag_and_get_value_limited_limits U \<longleftrightarrow>
    (let short_input = [0xFF];
         short_input_encoded = [EXAMPLE_TAG] @ der_encode_length (length short_input) @ short_input;
         long_input = replicate 65537 1;
         long_input_encoded = [EXAMPLE_TAG] @ der_encode_length (length long_input) @ long_input
     in list_all (\<lambda>(input, limit, err).
          case err of
            None \<Rightarrow> is_ok (bytes_reader U (read_tag_and_get_value_limited U limit) input)
          | Some e \<Rightarrow> bytes_reader U (read_tag_and_get_value_limited U limit) input = Err e)
          [(short_input_encoded, 1, Some BadDer),
           (short_input_encoded, length short_input_encoded + 1, None),
           (long_input_encoded, length long_input, Some BadDer),
           (long_input_encoded, length long_input + 1, None)])"

definition misencoded_bit_string_flags :: "'r untrusted \<Rightarrow> bool" where
  "misencoded_bit_string_flags U \<longleftrightarrow>
    bit_string_flags U [0x08, 0x06] = Err BadDer \<and> bit_string_flags U [0x01] = Err BadDer"

definition valid_bit_string_flags :: "'r untrusted \<Rightarrow> bool" where
  "valid_bit_string_flags U \<longleftrightarrow>
    (case bit_string_flags U [0x01, 0x06] of
       Ok res \<Rightarrow>
         \<not> bit_set res 0 \<and> \<not> bit_set res 1 \<and> \<not> bit_set res 2 \<and> \<not> bit_set res 3 \<and> \<not> bit_set res 4 \<and>
         bit_set res 5 \<and> bit_set res 6 \<and> \<not> bit_set res 7 \<and> \<not> bit_set res 8 \<and> \<not> bit_set res 256
     | _ \<Rightarrow> False)"

definition test_small_nonnegative_integer :: "'r untrusted \<Rightarrow> bool" where
  "test_small_nonnegative_integer U \<longleftrightarrow>
    list_all (\<lambda>value. bytes_reader U (u8_from_der U) [tag_u8 Tag_Integer, 1, value] = Ok value) (map of_nat [0..<128]) \<and>
    list_all (\<lambda>value. bytes_reader U (u8_from_der U) [tag_u8 Tag_Integer, 2, 0x00, value] = Ok value) (map of_nat [128..<256]) \<and>
    list_all (\<lambda>data. bytes_reader U (u8_from_der U) data = Err BadDer)
      [[tag_u8 Tag_Sequence, 1, 1], [tag_u8 Tag_Integer, 1, 0xff], [tag_u8 Tag_Integer, 2, 0x01, 0x00],
       [tag_u8 Tag_Integer, 2, 0x00, 0x05], [], [tag_u8 Tag_Integer], [tag_u8 Tag_Integer, 1], [tag_u8 Tag_Integer, 2, 0]]"

section \<open>Time\<close>

definition test_days_before_unix_epoch :: bool where
  "test_days_before_unix_epoch \<longleftrightarrow> DAYS_BEFORE_UNIX_EPOCH_AD = days_before_year_ad UNIX_EPOCH_YEAR"

definition test_days_before_year_since_unix_epoch :: bool where
  "test_days_before_year_since_unix_epoch \<longleftrightarrow>
    days_before_year_since_unix_epoch UNIX_EPOCH_YEAR = Ok 0 \<and>
    days_before_year_since_unix_epoch (UNIX_EPOCH_YEAR + 1) = Ok 365 \<and>
    days_before_year_since_unix_epoch (UNIX_EPOCH_YEAR - 1) = Err BadDerTime"

definition test_days_in_month :: bool where
  "test_days_in_month \<longleftrightarrow>
    list_all (\<lambda>(year, month, days). days_in_month year month = Ok days)
      [(2017, 1, 31), (2017, 2, 28), (2017, 3, 31), (2017, 4, 30), (2017, 5, 31), (2017, 6, 30), (2017, 7, 31),
       (2017, 8, 31), (2017, 9, 30), (2017, 10, 31), (2017, 11, 30), (2017, 12, 31),
       (2000, 2, 29), (2004, 2, 29), (2016, 2, 29), (2100, 2, 28)]"

definition test_time_from_ymdhms_utc :: bool where
  "test_time_from_ymdhms_utc \<longleftrightarrow>
    time_from_ymdhms_utc (UNIX_EPOCH_YEAR - 1) 1 1 0 0 0 = Err BadDerTime \<and>
    time_from_ymdhms_utc (UNIX_EPOCH_YEAR - 1) 12 31 23 59 59 = Err BadDerTime \<and>
    time_from_ymdhms_utc UNIX_EPOCH_YEAR 1 1 0 0 0 = Ok (from_seconds_since_unix_epoch 0) \<and>
    time_from_ymdhms_utc UNIX_EPOCH_YEAR 1 1 0 0 1 = Ok (from_seconds_since_unix_epoch 1) \<and>
    time_from_ymdhms_utc (UNIX_EPOCH_YEAR + 1) 1 1 0 0 0 = Ok (from_seconds_since_unix_epoch (365 * 86400)) \<and>
    time_from_ymdhms_utc 2016 12 31 23 59 59 = Ok (from_seconds_since_unix_epoch 1483228799) \<and>
    time_from_ymdhms_utc 2017 1 1 0 0 0 = Ok (from_seconds_since_unix_epoch 1483228800) \<and>
    time_from_ymdhms_utc 2017 4 17 17 12 42 = Ok (from_seconds_since_unix_epoch 1492449162) \<and>
    time_from_ymdhms_utc 2016 4 17 17 12 42 = Ok (from_seconds_since_unix_epoch 1460913162)"

section \<open>Revocation reasons and options\<close>

definition revocation_reasons :: bool where
  "revocation_reasons \<longleftrightarrow>
    (let testcases = [(0, Unspecified), (1, KeyCompromise), (2, CaCompromise), (3, AffiliationChanged), (4, Superseded),
           (5, CessationOfOperation), (6, CertificateHold), (8, RemoveFromCrl), (9, PrivilegeWithdrawn), (10, AaCompromise)]
     in list_all (\<lambda>(id, expected). revocation_reason_try_from id = Ok expected) testcases \<and>
        revocation_reason_try_from 7 = Err UnsupportedRevocationReason \<and>
        revocation_reason_iter = map snd testcases)"

definition eku_key_purpose_id :: bool where
  "eku_key_purpose_id \<longleftrightarrow> key_purpose_id_equals (RequiredIfPresent EKU_SERVER_AUTH) (oid_value EKU_SERVER_AUTH)"

text \<open>The list of the test is read from a file; what it holds does not matter.\<close>

definition test_revocation_opts_builder :: "CertRevocationList \<Rightarrow> bool" where
  "test_revocation_opts_builder crl \<longleftrightarrow>
    revocation_options_new [] = None \<and>
    list_all (\<lambda>(settings, expected_depth, expected_status).
      case revocation_options_new [crl] of
        Some builder \<Rightarrow>
          (let opts = revocation_options_build (settings builder) in
           depth opts = expected_depth \<and> status_requirement opts = expected_status \<and> length (crls opts) = 1)
      | None \<Rightarrow> False)
      [(\<lambda>b. b, Depth_Chain, Deny),
       (\<lambda>b. with_depth b Depth_EndEntity, Depth_EndEntity, Deny),
       (\<lambda>b. allow_unknown_status b, Depth_Chain, Allow),
       (\<lambda>b. with_depth (allow_unknown_status b) Depth_EndEntity, Depth_EndEntity, Allow),
       (\<lambda>b. with_depth (forbid_unknown_status b) Depth_EndEntity, Depth_EndEntity, Deny)]"

section \<open>The tests hold\<close>

context untrusted_reader
begin

lemma bytes_reader_indep: "follows p q \<Longrightarrow> bytes_reader U p bs = bytes_reader L q bs"
  using follows_run [of p q "u_new U bs"] unfolding bytes_reader_def
  by (cases "p (u_new U bs)") (auto simp: rest_new list_ops)

lemmas bytes_reader_parsers = bytes_reader_indep [OF bool_from_der_sim] bytes_reader_indep [OF bit_string_with_no_unused_bits_sim]
  bytes_reader_indep [OF read_tag_sim] bytes_reader_indep [OF read_tag_limited_sim] bytes_reader_indep [OF u8_from_der_sim]

lemma der_tests_indep:
  "test_optional_boolean U = test_optional_boolean L"
  "test_bit_string_with_no_unused_bits U = test_bit_string_with_no_unused_bits L"
  "read_tag_and_get_value_default_limit U = read_tag_and_get_value_default_limit L"
  "read_tag_and_get_value_limited_high_form U = read_tag_and_get_value_limited_high_form L"
  "read_tag_and_get_value_limited_non_canonical U = read_tag_and_get_value_limited_non_canonical L"
  "read_tag_and_get_value_limited_limits U = read_tag_and_get_value_limited_limits L"
  "misencoded_bit_string_flags U = misencoded_bit_string_flags L"
  "valid_bit_string_flags U = valid_bit_string_flags L"
  "test_small_nonnegative_integer U = test_small_nonnegative_integer L"
  unfolding test_optional_boolean_def test_bit_string_with_no_unused_bits_def read_tag_and_get_value_default_limit_def
    read_tag_and_get_value_limited_high_form_def read_tag_and_get_value_limited_non_canonical_def
    read_tag_and_get_value_limited_limits_def misencoded_bit_string_flags_def valid_bit_string_flags_def
    test_small_nonnegative_integer_def bytes_reader_parsers bit_string_flags_indep
  by (rule refl)+

end

lemmas test_eval = bytes_reader_def EXAMPLE_TAG_def run_simps Let_def der_limits read_length_def CONSTRUCTED_def list_ops
  bool_from_der_def bit_string_with_no_unused_bits_def read_tag_and_get_value_def read_tag_and_get_value_limited_def
  nested_def nested_limited_def expect_tag_and_get_value_limited_def expect_tag_def u8_from_der_def nonnegative_integer_def

lemma der_value_tests:
  "test_optional_boolean L" "test_bit_string_with_no_unused_bits L" "read_tag_and_get_value_default_limit L"
  "read_tag_and_get_value_limited_high_form L" "read_tag_and_get_value_limited_non_canonical L"
  by (simp_all add: test_optional_boolean_def test_bit_string_with_no_unused_bits_def read_tag_and_get_value_default_limit_def
      read_tag_and_get_value_limited_high_form_def read_tag_and_get_value_limited_non_canonical_def test_eval)

lemma read_tag_encoded:
  assumes "low_tag t" "length v < 2 ^ 32"
  shows "read_tag_and_get_value_limited L n (t # der_encode_length (length v) @ v) =
    (if n \<le> length v then (Err BadDer, v) else (Ok (t, v), []))"
  using assms by (simp add: read_tag_and_get_value_limited_def low_tag_def run_simps read_length_encode)

lemma limit_tests: "read_tag_and_get_value_limited_limits L"
proof -
  have "low_tag EXAMPLE_TAG" unfolding EXAMPLE_TAG_def by (rule low_tag_tag_u8)
  note tag = read_tag_encoded [OF this]
  show ?thesis
    unfolding read_tag_and_get_value_limited_limits_def Let_def bytes_reader_def list_ops
    using tag [of "[0xFF]"] tag [of "replicate 65537 1"] by simp
qed

lemma flag_tests: "misencoded_bit_string_flags L" "valid_bit_string_flags L"
  by code_simp+

lemma small_integer_Ok:
  "b < 128 \<Longrightarrow> bytes_reader L (u8_from_der L) [2, 1, b] = Ok b"
  "\<not> b < 128 \<Longrightarrow> bytes_reader L (u8_from_der L) [2, 2, 0, b] = Ok b"
  using u8_from_der_iff [of "[2, 1, b]" b "[]"] u8_from_der_iff [of "[2, 2, 0, b]" b "[]"]
  by (simp_all add: bytes_reader_def list_ops)

lemma integer_tests: "test_small_nonnegative_integer L"
proof -
  have "bytes_reader L (u8_from_der L) [2, 1, of_nat n] = Ok (of_nat n)" if "n < 128" for n
    using that by (intro small_integer_Ok) (simp add: word_less_nat_alt unat_of_nat)
  moreover have "bytes_reader L (u8_from_der L) [2, 2, 0, of_nat n] = Ok (of_nat n)" if "128 \<le> n" "n < 256" for n
    using that by (intro small_integer_Ok) (simp add: word_less_nat_alt unat_of_nat)
  ultimately show ?thesis
    unfolding test_small_nonnegative_integer_def
    by (simp add: list_all_iff) (simp add: test_eval)
qed

lemma time_tests: "test_days_before_unix_epoch" "test_days_before_year_since_unix_epoch" "test_days_in_month" "test_time_from_ymdhms_utc"
  by code_simp+

lemma option_tests: "revocation_reasons" "eku_key_purpose_id" "test_revocation_opts_builder crl"
  by (simp_all add: revocation_reasons_def revocation_reason_try_from_def revocation_reason_iter_def eku_key_purpose_id_def
      test_revocation_opts_builder_def revocation_options_new_def revocation_options_build_def with_depth_def
      allow_unknown_status_def forbid_unknown_status_def)

section \<open>Properties\<close>



end
