(* ===== verification/Spec2Isabelle.thy ===== *)
theory Spec2Isabelle
  imports Cert_Time Anchor_Format Crl_Lookup Crl_Scope Chain_Invariant Unit_Tests
begin

text \<open>
  A verification development for rustls-webpki 0.102, the Rust crate that decides whether an X.509 certificate is to be
  trusted for a TLS connection. The program takes octets from the network (a certificate, intermediate certificates,
  revocation lists), a list of trust anchors, a time, a purpose and a name, and answers yes or with one of its errors.
  Every function of the crate that is not a test, a formatter or a clock is a definition of the model; the model is
  executable, and it is translated function by function, with the order of the checks, every early return and every
  error kept.

  \<^bold>\<open>The parts of the program and how they interact.\<close> From the bottom to the top:

  \<^item> \<^verbatim>\<open>src/error.rs\<close> (theory \<open>Webpki_Error\<close>): the enumeration \<open>error\<close>, its ranking \<open>rank\<close> and \<open>most_specific\<close>. All
    fallible functions of the model give a value of type \<open>result\<close>: \<open>Ok\<close>, \<open>Err\<close>, \<open>Panic\<close> for a Rust panic (\<^verbatim>\<open>assert!\<close>, an
    index out of bounds, \<^verbatim>\<open>unreachable!\<close>, \<^verbatim>\<open>unwrap\<close>) and \<open>Diverge\<close> for a loop that used up its fuel.
  \<^item> The crate \<^verbatim>\<open>untrusted\<close> (theory \<open>Untrusted\<close>), which is not part of the repository, gives the cursor all parsers work
    on. Its operations are a record \<open>U\<close>, the first argument of every parser; the locale \<open>untrusted_reader\<close> states its
    documented laws, the interpretation \<open>lr\<close> shows that a cursor over a list (\<open>list_reader\<close>, written \<open>L\<close>) has
    them. A parser is a function from a reader to a result and the reader it leaves, also when it fails.
    The lemmas \<open>\<dots>_indep\<close> show for each function of the model that its result does not depend on which reader with these laws
    is used; the properties are stated for all of them.
  \<^item> \<^verbatim>\<open>src/der.rs\<close> (\<open>Der\<close>): tags and lengths, nested values, integers, bit strings, booleans, the loop over a
    sequence (\<open>nested_of_mut\<close>). \<open>Item_Loop\<close> has the contract \<open>item_parser\<close> of what
    such loops read, and reduces them to folds and searches over a list of items; its interpretations are the general names and the subtrees
    of \<open>Name_Search\<close> and the entries of a revocation list in \<open>Path_Search\<close>.
  \<^item> \<^verbatim>\<open>src/time.rs\<close> (\<open>Cert_Time\<close>): the two forms of a date and the seconds since 1970, on 64-bit words.
  \<^item> \<^verbatim>\<open>src/x509.rs\<close> (\<open>X509\<close>): extensions and distribution point names. \<open>Once_Store\<close> is the contract of fields that
    are set at most once, which the extension fields of a certificate satisfy (\<open>cert_slots\<close> in \<open>Cert_Format\<close>).
  \<^item> \<^verbatim>\<open>src/signed_data.rs\<close>, \<^verbatim>\<open>src/ring_algs.rs\<close> (\<open>Signed_Data\<close>): signed objects, the algorithm identifiers, the choice of an
    algorithm. A signature algorithm is a record with its verification function, as the trait object of the code is.
  \<^item> \<^verbatim>\<open>src/cert.rs\<close> (\<open>Cert\<close>, facts in \<open>Cert_Format\<close>), \<^verbatim>\<open>src/trust_anchor.rs\<close> (\<open>Trust_Anchor\<close>, \<open>Anchor_Format\<close>) and
    \<^verbatim>\<open>src/crl.rs\<close> (\<open>Crl\<close>, \<open>Crl_Format\<close>, \<open>Crl_Lookup\<close>, \<open>Crl_Scope\<close>): the parsed objects. A CA certificate of a path
    refers to the certificate it issued; the chain is a value of the recursive type \<open>Cert\<close>.
  \<^item> \<^verbatim>\<open>src/subject_name/\<close>: DNS names (\<open>Dns_Name\<close>, \<open>Dns_Match\<close>), IP addresses (\<open>Ip_Address\<close>, \<open>Ip_Block\<close>,
    \<open>Ip_Text\<close>), and the names of a certificate with name constraints (\<open>Subject_Name\<close>, \<open>Name_Search\<close>).
  \<^item> \<^verbatim>\<open>src/verify_cert.rs\<close> (\<open>Verify_Cert\<close>, with \<open>Cert_Checks\<close>, \<open>Budget\<close>, \<open>Path_Search\<close>, \<open>Chain_Invariant\<close>): the checks on
    one certificate, revocation, signatures along a chain, and \<open>build_chain_inner\<close>, the depth-first search for a chain to a
    trust anchor. Its counter of signature checks, a mutable reference in the code, is passed in and
    out of every function that touches it.
  \<^item> \<^verbatim>\<open>src/end_entity.rs\<close> (\<open>End_Entity\<close>): the public interface. The properties at the end of this theory are about it.

  \<^bold>\<open>What is shown.\<close> The specification of the whole is the inductive relation \<open>trusted\<close> of \<open>Path_Search\<close>: a certificate that
  passes its own checks and was issued by a trust anchor, or by an intermediate certificate that is itself trusted,
  with the name constraints, signatures and revocation of the whole chain below the anchor checked at the end.

  \<^item> Soundness and completeness: \<open>accepted_has_path\<close> and \<open>path_is_found\<close> below. The search accepts exactly where \<open>trusted\<close>
    holds, as long as its budget lasts. \<open>accepted_is_not_revoked\<close> reads the relation for a strict revocation policy.
  \<^item> Termination, budget and invariant: \<open>verification_returns\<close>, \<open>signature_budget\<close>, \<open>Chain_Invariant.search_invariant\<close>;
    \<open>Path_Search.reported_error\<close> says which error is reported when several candidates fail.
  \<^item> Formats: a value is read exactly when the octets are its canonical encoding, for tagged values, integers, flags,
    times, certificates, trust anchors, entries of a list and lists (the properties \<open>\<dots>_exact\<close> and
    \<open>Der.read_tag_canonical\<close>). For every object this is an equivalence, so it covers all errors too: whatever
    is not such an encoding is refused.
  \<^item> Names: the byte-by-byte loops of DNS names and of IP addresses are equivalent to declarative grammars and matching relations,
    the iterator over the names of a certificate is a search through a list, and name constraints are subtrees
    (\<open>Dns_Match\<close>, \<open>Ip_Block\<close>, \<open>Ip_Text\<close>, \<open>Name_Search\<close>).
  \<^item> Revocation: scope, lookup, and that the two representations of a list give the same verdicts
    (\<open>Crl_Scope\<close>, \<open>Crl_Lookup\<close>).
  \<^item> Absence of panics: where the code indexes, unwraps or asserts, the theories show that it does so safely, with one
    exception, which \<open>Der.bit_flags_exact\<close> states as it is (a bit string with no value octets), and what follows from it for
    key usages (\<open>Cert_Checks.key_usage_exact\<close>) and for distribution points. \<open>Crl_Scope\<close> also has
    the fact \<open>common_uri_missed\<close>: the names of the certificate are compared with the first URI of the list only, so a URI in
    common can be missed.

  \<^item> Agreement with the tests of the crate: \<open>Unit_Tests.unit_tests_pass\<close>. The unit tests that need no files, among them the
    tables of cases for DNS names (\<open>Dns_Tables\<close>) and IP addresses (\<open>Ip_Tables\<close>), are statements about the model and are evaluated by
    the kernel.

  \<^bold>\<open>Bounds and fuel.\<close> A loop over a reader has one unit of fuel more than there are octets left (\<open>loop\<close> in \<open>Untrusted\<close>);
  each body is shown to consume at least one octet (\<open>progress\<close>), so \<open>Diverge\<close> is never the result. The search has \<open>MAX_SUB_CA_COUNT + 2\<close>
  levels of fuel, since it refuses a CA certificate that has \<open>MAX_SUB_CA_COUNT = 6\<close> CA
  certificates below it; \<open>verification_returns\<close> shows that this is enough for all inputs. The budget of 100 signature checks is the one
  of the code. The sizes of DER values are the limits of the code, 65535 for two length octets and \<open>2 ^ 32 - 1\<close> for
  values of a revocation list. Lengths and positions, \<^verbatim>\<open>usize\<close> in the code, are natural numbers: they are bounded by the
  length of an input in memory. Octets are \<open>8 word\<close>, times \<open>64 word\<close>, and \<open>Cert_Time\<close> shows that the calendar
  computation does not wrap around.

  \<^bold>\<open>Not modelled.\<close> The cryptographic primitives of \<^verbatim>\<open>ring\<close> (the argument \<open>ring\<close> of the algorithms of \<open>Signed_Data\<close>); the
  conversion from \<^verbatim>\<open>SystemTime\<close>, which reads the clock of the operating system; \<^verbatim>\<open>Display\<close>, \<^verbatim>\<open>Debug\<close> and \<^verbatim>\<open>Error\<close>
  instances, except the text of addresses and names; the module lists and re-exports of \<^verbatim>\<open>lib.rs\<close> and \<^verbatim>\<open>subject_name/mod.rs\<close>,
  which hold no code; integration tests, benchmarks, and the unit tests that read certificates, lists or keys from files of the
  repository or look at formatted text. Hash tables (\<^verbatim>\<open>HashMap\<close> of the owned list) are
  maps, since the code only inserts and looks up.
\<close>

section \<open>Verification of an end-entity certificate\<close>

lemma try_from_end_entity: "end_entity_try_from L der = Ok ee \<Longrightarrow> ee_or_ca (inner ee) = EndEntity"
  by (auto simp: end_entity_try_from_def cert_from_der_iff)

lemma small_try_from: "end_entity_try_from L small_cert = Ok \<lparr>inner = Cert EndEntity small_fields\<rparr>"
  using small_cert_fields by (auto simp: end_entity_try_from_def cert_from_der_iff)

lemmas entry_indep = untrusted_reader.verify_for_usage_indep untrusted_reader.end_entity_try_from_indep

text \<open>C1: a certificate that is accepted has a certification path. There is a chain of certificates from it through given
  intermediate certificates to a given trust anchor, at most six CA certificates long, in which every
  certificate passes its own checks and is named as issuer by the next, all names of the chain obey the
  name constraints of every issuer, and every signature verifies under the key of the issuer.\<close>

theorem accepted_has_path:
  assumes "untrusted_reader U rest later"
    and "end_entity_try_from U der = Ok ee"
    and "verify_for_usage U ee algs anchors intermediates time usage revo = Ok ()"
  shows "trusted (path_options algs anchors intermediates usage revo) time (inner ee) 0"
  using assms(2,3) unfolding entry_indep [OF assms(1)] verify_for_usage_def
  by (intro build_chain_Ok_trusted try_from_end_entity)

lemma small_verify:
  assumes "revo = None \<or> revo = Some small_revocation"
  shows "verify_for_usage L \<lparr>inner = Cert EndEntity small_fields\<rparr> [small_alg] [small_anchor] [] 0 server_auth revo = Ok ()"
  using small_counter [OF assms] by (simp add: verify_for_usage_def build_chain_def small_options_def)

theorem accepted_has_path_witness:
  "trusted (path_options [small_alg] [small_anchor] [] server_auth None) 0 (Cert EndEntity small_fields) 0"
  using accepted_has_path [OF lr.untrusted_reader_axioms small_try_from small_verify, of None] by simp

text \<open>C2: a certification path is found whenever there is one, wherever the certificates and anchors stand in the lists, unless
  the search used up its budget of one hundred signature checks or a revocation check panicked.\<close>

theorem path_is_found:
  assumes "untrusted_reader U rest later"
    and "end_entity_try_from U der = Ok ee"
    and "trusted (path_options algs anchors intermediates usage revo) time (inner ee) 0"
    and "snd (build_chain_inner (MAX_SUB_CA_COUNT + 2) U (path_options algs anchors intermediates usage revo) time (inner ee) 0 0) \<le> 100"
  shows "verify_for_usage U ee algs anchors intermediates time usage revo \<in> {Ok (), Panic}"
  using assms(2-4) unfolding entry_indep [OF assms(1)] untrusted_reader.build_chain_inner_indep [OF assms(1)] verify_for_usage_def
  using build_chain_complete try_from_end_entity by blast

theorem path_is_found_witness:
  "verify_for_usage list_reader \<lparr>inner = Cert EndEntity small_fields\<rparr> [small_alg] [small_anchor] [] 0 server_auth None \<in> {Ok (), Panic}"
  using path_is_found [OF lr.untrusted_reader_axioms small_try_from, where algs = "[small_alg]" and anchors = "[small_anchor]"
      and intermediates = "[]" and usage = server_auth and revo = None and time = 0]
    small_trusted [of None] small_counter [of None] by (simp add: small_options_def)

text \<open>C4: the verification of a certificate always comes to an end, whatever certificates, trust anchors and revocation lists
  it is given, and without revocation checking it never panics. The depth of the search is bounded, so
  the fuel of the model is never used up.\<close>

theorem verification_returns:
  assumes "untrusted_reader U rest later" and "end_entity_try_from U der = Ok ee"
  shows "verify_for_usage U ee algs anchors intermediates time usage revo \<noteq> Diverge \<and>
    (revo = None \<longrightarrow> verify_for_usage U ee algs anchors intermediates time usage revo \<noteq> Panic)"
proof -
  from assms(2) have "ee_or_ca (inner ee) = EndEntity" unfolding entry_indep [OF assms(1)] by (rule try_from_end_entity)
  from build_chain_fine [OF this, of "path_options algs anchors intermediates usage revo" time] show ?thesis
    unfolding entry_indep [OF assms(1)] verify_for_usage_def by (simp add: fine_def)
qed

theorem verification_returns_witness:
  "verify_for_usage list_reader \<lparr>inner = Cert EndEntity small_fields\<rparr> [] [] [small_cert] 0 server_auth None \<notin> {Diverge, Panic}"
  using verification_returns [OF lr.untrusted_reader_axioms small_try_from, of "[]" "[]" "[small_cert]" 0 server_auth None] by simp



text \<open>C3: with revocation checking that does not tolerate an unknown status, an accepted certificate is covered by one of the
  given revocation lists: the certificate is in the scope of the list, the list is signed by the key that signed the
  certificate, and the certificate's serial number is not listed there.\<close>

theorem accepted_is_not_revoked:
  assumes "untrusted_reader U rest later" and "end_entity_try_from U der = Ok ee"
    and "verify_for_usage U ee algs anchors intermediates time usage (Some ro) = Ok ()"
    and "status_requirement ro = Deny"
  shows "\<exists>crl \<in> set (crls ro). in_scope crl (inner ee) \<and>
    (\<exists>spki. verify_signed_data U algs spki (cert_signed_data (cert_body (inner ee))) = Ok () \<and>
      crl_verify_signature U crl algs spki = Ok ()) \<and>
    find_serial U crl (cert_serial (cert_body (inner ee))) = Ok None"
proof -
  from assms(2) have ee: "ee_or_ca (inner ee) = EndEntity" unfolding entry_indep [OF assms(1)] by (rule try_from_end_entity)
  with assms(3) have "trusted (path_options algs anchors intermediates usage (Some ro)) time (inner ee) 0"
    unfolding entry_indep [OF assms(1)] verify_for_usage_def by (intro build_chain_Ok_trusted)
  from accepted_not_revoked [OF ee this _ assms(4)] crl_authoritative_sound show ?thesis
    unfolding untrusted_reader.crl_verify_signature_indep [OF assms(1)] untrusted_reader.verify_signed_data_indep [OF assms(1)]
      untrusted_reader.find_serial_indep [OF assms(1)] by auto
qed

theorem accepted_is_not_revoked_witness:
  "\<exists>crl \<in> {small_crl}. in_scope crl (Cert EndEntity small_fields) \<and> find_serial list_reader crl [7] = Ok None"
proof -
  have "crls small_revocation = [small_crl]" "status_requirement small_revocation = Deny" "cert_serial small_fields = [7]"
    by (simp_all add: small_revocation_def small_fields_def)
  then show ?thesis
    using accepted_is_not_revoked [OF lr.untrusted_reader_axioms small_try_from small_verify, of small_revocation] by auto
qed

end
